(* ===== verification/Prelude.thy ===== *)
theory Prelude
  imports Main "HOL-Library.Word"
begin

text \<open>
  Shared vocabulary of the development: the result type of kernel routines, its
  sequencing operator, the compile-time constants of \<open>kernel/param.h\<close> and
  \<open>kernel/riscv.h\<close>, and generic lemmas on lists and searches that the components
  share.
\<close>

section \<open>Results of kernel routines\<close>

text \<open>
  A kernel routine either returns, or panics with a message (\<open>panic\<close>,
  \<open>panic_without_pr\<close>), or never returns unless another process or CPU acts
  (spinning on a lock, sleeping, busy waiting), or loads or stores through an invalid pointer
  or outside an array (\<open>Trap\<close>: the C code has no defined outcome there).
\<close>

datatype fault = Panic string | Blocked | Trap

type_synonym 'a res = "fault + 'a"

definition bindE :: "'a res \<Rightarrow> ('a \<Rightarrow> 'b res) \<Rightarrow> 'b res" where
  "bindE r k = (case r of Inl e \<Rightarrow> Inl e | Inr a \<Rightarrow> k a)"

lemma bindE_Inl [simp]: "bindE (Inl e) k = Inl e"
  by (simp add: bindE_def)

lemma bindE_Inr [simp]: "bindE (Inr a) k = k a"
  by (simp add: bindE_def)

lemma bindE_eq_Inr [simp]: "bindE r k = Inr b \<longleftrightarrow> (\<exists>a. r = Inr a \<and> k a = Inr b)"
  by (cases r) auto

lemma bindE_assoc [simp]: "bindE (bindE r k) h = bindE r (\<lambda>a. bindE (k a) h)"
  by (cases r) auto

lemma bindE_cong: "r = r' \<Longrightarrow> (\<And>a. k a = k' a) \<Longrightarrow> bindE r k = bindE r' k'"
  by (cases r) auto

text \<open>A loop over a list of indices whose body may fail; it stops at the first fault.\<close>

fun foldE :: "('i \<Rightarrow> 's \<Rightarrow> 's res) \<Rightarrow> 'i list \<Rightarrow> 's \<Rightarrow> 's res" where
  "foldE f [] s = Inr s"
| "foldE f (i # is) s = bindE (f i s) (foldE f is)"

lemma foldE_append: "foldE f (xs @ ys) s = bindE (foldE f xs s) (foldE f ys)"
  by (induction xs arbitrary: s) (auto cong: bindE_cong)

lemma foldE_invariant:
  assumes "foldE f is s = Inr t" and "P s"
    and "\<And>i s s'. i \<in> set is \<Longrightarrow> P s \<Longrightarrow> f i s = Inr s' \<Longrightarrow> P s'"
  shows "P t"
  using assms
proof (induction "is" arbitrary: s)
  case (Cons i "is")
  from Cons.prems(1) obtain u where u: "f i s = Inr u" "foldE f is u = Inr t" by auto
  have "P u" by (rule Cons.prems(3) [OF _ Cons.prems(2) u(1)]) simp
  with u(2) show ?case by (rule Cons.IH) (auto intro: Cons.prems(3))
qed simp

section \<open>Machine words and constants\<close>

type_synonym u8 = "8 word"
type_synonym u32 = "32 word"
type_synonym u64 = "64 word"

abbreviation NPROC :: nat where "NPROC \<equiv> 64"
abbreviation NCPU :: nat where "NCPU \<equiv> 8"
abbreviation NOFILE :: nat where "NOFILE \<equiv> 16"
abbreviation NFILE :: nat where "NFILE \<equiv> 100"
abbreviation NINODE :: nat where "NINODE \<equiv> 50"
abbreviation NBUF :: nat where "NBUF \<equiv> 30"
abbreviation LOGSIZE :: nat where "LOGSIZE \<equiv> 30"
abbreviation MAXOPBLOCKS :: nat where "MAXOPBLOCKS \<equiv> 10"
abbreviation MAXPATH :: nat where "MAXPATH \<equiv> 128"
abbreviation NMI_QUEUE_SIZE :: nat where "NMI_QUEUE_SIZE \<equiv> 5"
abbreviation PGSIZE :: nat where "PGSIZE \<equiv> 4096"

text \<open>The after-treatment policies of \<open>kernel/after-treatment.h\<close>.\<close>

abbreviation SYSCALL_SUCCESS :: int where "SYSCALL_SUCCESS \<equiv> 2"
abbreviation SYSCALL_FAIL :: int where "SYSCALL_FAIL \<equiv> 3"
abbreviation SYSCALL_REDO :: int where "SYSCALL_REDO \<equiv> 4"
abbreviation REOPEN_SYSCALL_FAIL :: int where "REOPEN_SYSCALL_FAIL \<equiv> 5"
abbreviation REOPEN_SYSCALL_REDO :: int where "REOPEN_SYSCALL_REDO \<equiv> 6"
abbreviation FAIL_STOP :: int where "FAIL_STOP \<equiv> 7"
abbreviation PROCESS_KILL :: int where "PROCESS_KILL \<equiv> 8"
abbreviation RETURN_TO_USER :: int where "RETURN_TO_USER \<equiv> 9"
abbreviation RETURN_TO_KERNEL :: int where "RETURN_TO_KERNEL \<equiv> 10"
abbreviation PIPE :: int where "PIPE \<equiv> 11"

section \<open>Searches in static arrays\<close>

text \<open>
  The kernel's static arrays are modelled as functions from indices; the loops
  \<open>for(i = 0; i < n; i++) if(P(i)) break;\<close> are searches for the first index.
\<close>

definition first_idx :: "(nat \<Rightarrow> bool) \<Rightarrow> nat \<Rightarrow> nat option" where
  "first_idx P n = find P [0..<n]"

lemma find_upt_Some:
  "find P [0..<n] = Some i \<longleftrightarrow> i < n \<and> P i \<and> (\<forall>j < i. \<not> P j)"
  by (auto simp: find_Some_iff)

lemma find_upt_None: "find P [0..<n] = None \<longleftrightarrow> (\<forall>i < n. \<not> P i)"
  by (auto simp: find_None_iff)

lemma first_idx_Some:
  "first_idx P n = Some i \<longleftrightarrow> i < n \<and> P i \<and> (\<forall>j < i. \<not> P j)"
  by (simp add: first_idx_def find_upt_Some)

lemma first_idx_None: "first_idx P n = None \<longleftrightarrow> (\<forall>i < n. \<not> P i)"
  by (simp add: first_idx_def find_upt_None)

lemma first_idx_unique:
  assumes "i < n" and "P i" and "\<And>j. j < n \<Longrightarrow> P j \<Longrightarrow> j = i"
  shows "first_idx P n = Some i"
proof -
  have "\<not> P j" if "j < i" for j
  proof
    assume "P j"
    moreover have "j < n" using that assms(1) by simp
    ultimately have "j = i" using assms(3) by blast
    with that show False by simp
  qed
  with assms(1,2) show ?thesis by (simp add: first_idx_Some)
qed

end
