(* ===== verification/Spinlock.thy ===== *)
theory Spinlock
  imports Prelude
begin

text \<open>
  \<open>kernel/spinlock.c\<close> and the per-CPU and per-process state it and the rest of the kernel
  share (\<open>struct cpu\<close>, \<open>struct proc\<close> of \<open>kernel/proc.h\<close>). The state record
  \<open>mach\<close> is extended by the components; every operation is polymorphic in the extension.
  Spinlocks are named by \<open>lockid\<close>, one constructor per lock object of the kernel.
\<close>

section \<open>Machine state\<close>

datatype lockid =
    LkKmem | LkGiant | LkPtb | LkIdx | LkNmiQueue | LkNmi | LkTrans | LkPid | LkTicks
  | LkFtable | LkIcache | LkLog | LkBcache | LkCons | LkPr | LkOaTable | LkVdisk | LkCoop
  | LkRec nat      \<comment> \<open>\<open>recovery_locks[i].lock\<close>\<close>
  | LkRecLk nat    \<comment> \<open>\<open>recovery_locks[i].lk\<close>\<close>
  | LkProc nat     \<comment> \<open>\<open>proc[i].lock\<close>\<close>
  | LkPtdup nat    \<comment> \<open>\<open>ptdup_head[i].lock\<close>\<close>
  | LkPipe nat     \<comment> \<open>lock of the pipe at an address\<close>
  | LkSleep nat    \<comment> \<open>\<open>lk\<close> field of the sleeplock number i\<close>

record spinlock =
  locked :: bool
  lname :: string
  lcpu :: "nat option"

datatype procstate = UNUSED | SLEEPING | RUNNABLE | RUNNING | ZOMBIE | RECOVERING

datatype chan =
    ChProc nat | ChSleep nat | ChLog | ChRec nat | ChPipeR nat | ChPipeW nat
  | ChCons | ChTicks | ChBuf nat | ChDiskFree

record proc =
  pstate :: procstate
  parent :: "nat option"
  chan :: "chan option"
  killed :: bool
  xstate :: int
  pid :: nat

record mach =
  hart :: nat
  cproc :: "nat \<Rightarrow> nat option"
  noff :: "nat \<Rightarrow> int"
  intena :: "nat \<Rightarrow> bool"
  sie :: "nat \<Rightarrow> bool"
  locks :: "lockid \<Rightarrow> spinlock"
  procs :: "nat \<Rightarrow> proc"

section \<open>Interrupt nesting\<close>

definition intr_off :: "'a mach_scheme \<Rightarrow> 'a mach_scheme" where
  "intr_off s = s\<lparr>sie := (sie s)(hart s := False)\<rparr>"

definition intr_on :: "'a mach_scheme \<Rightarrow> 'a mach_scheme" where
  "intr_on s = s\<lparr>sie := (sie s)(hart s := True)\<rparr>"

definition push_off :: "'a mach_scheme \<Rightarrow> 'a mach_scheme" where
  "push_off s =
     (let h = hart s; old = sie s h; s1 = intr_off s;
          s2 = (if noff s1 h = 0 then s1\<lparr>intena := (intena s1)(h := old)\<rparr> else s1)
      in s2\<lparr>noff := (noff s2)(h := noff s2 h + 1)\<rparr>)"

definition pop_off :: "'a mach_scheme \<Rightarrow> 'a mach_scheme res" where
  "pop_off s =
     (let h = hart s in
      if sie s h then Inl (Panic ''pop_off - interruptible'')
      else let s1 = s\<lparr>noff := (noff s)(h := noff s h - 1)\<rparr> in
        if noff s1 h < 0 then Inl (Panic ''pop_off'')
        else if noff s1 h = 0 \<and> intena s1 h then Inr (intr_on s1)
        else Inr s1)"

section \<open>Spinlocks\<close>

definition initlock_fields :: "lockid \<Rightarrow> string \<Rightarrow> 'a mach_scheme \<Rightarrow> 'a mach_scheme" where
  "initlock_fields lk name s =
     s\<lparr>locks := (locks s)(lk := \<lparr>locked = False, lname = name, lcpu = None\<rparr>)\<rparr>"

text \<open>What \<open>holding\<close> reads, and the call itself with its \<open>push_off\<close>/\<open>pop_off\<close>.\<close>

definition holds :: "lockid \<Rightarrow> 'a mach_scheme \<Rightarrow> bool" where
  "holds lk s \<longleftrightarrow> locked (locks s lk) \<and> lcpu (locks s lk) = Some (hart s)"

definition holding :: "lockid \<Rightarrow> 'a mach_scheme \<Rightarrow> (bool \<times> 'a mach_scheme) res" where
  "holding lk s =
     (let s1 = push_off s; r = holds lk s1 in bindE (pop_off s1) (\<lambda>s2. Inr (r, s2)))"

definition acquire :: "lockid \<Rightarrow> 'a mach_scheme \<Rightarrow> 'a mach_scheme res" where
  "acquire lk s =
     bindE (holding lk (push_off s)) (\<lambda>(r, s1).
       if r then Inl (Panic ''acquire'')
       else if locked (locks s1 lk) then Inl Blocked
       else Inr (s1\<lparr>locks := (locks s1)(lk := (locks s1 lk)
              \<lparr>locked := True, lcpu := Some (hart s1)\<rparr>)\<rparr>))"

definition release :: "lockid \<Rightarrow> 'a mach_scheme \<Rightarrow> 'a mach_scheme res" where
  "release lk s =
     bindE (holding lk s) (\<lambda>(r, s1).
       if \<not> r then Inl (Panic ''release'')
       else pop_off (s1\<lparr>locks := (locks s1)(lk := (locks s1 lk)
              \<lparr>locked := False, lcpu := None\<rparr>)\<rparr>))"

definition locking :: "lockid \<Rightarrow> 'a mach_scheme \<Rightarrow> (bool \<times> 'a mach_scheme) res" where
  "locking lk s =
     (let s1 = push_off s; r = locked (locks s1 lk) in bindE (pop_off s1) (\<lambda>s2. Inr (r, s2)))"

definition myproc :: "'a mach_scheme \<Rightarrow> (nat option \<times> 'a mach_scheme) res" where
  "myproc s =
     (let s1 = push_off s; p = cproc s1 (hart s1) in bindE (pop_off s1) (\<lambda>s2. Inr (p, s2)))"

text \<open>The current process, as every caller of \<open>myproc\<close> reads it (see \<open>myproc_ok\<close>).\<close>

definition curproc :: "'a mach_scheme \<Rightarrow> nat option" where
  "curproc s = cproc s (hart s)"

section \<open>Closed forms\<close>

text \<open>
  The interrupt flag after the outermost \<open>pop_off\<close> is the one the outermost
  \<open>push_off\<close> saved; the saved copy itself is dead while \<open>noff\<close> is 0.
\<close>

definition saved :: "'a mach_scheme \<Rightarrow> 'a mach_scheme" where
  "saved s = (if noff s (hart s) = 0 then s\<lparr>intena := (intena s)(hart s := sie s (hart s))\<rparr> else s)"

definition taken :: "lockid \<Rightarrow> 'a mach_scheme \<Rightarrow> 'a mach_scheme" where
  "taken lk s = s\<lparr>sie := (sie s)(hart s := False),
      intena := (if noff s (hart s) = 0 then (intena s)(hart s := sie s (hart s)) else intena s),
      noff := (noff s)(hart s := noff s (hart s) + 1),
      locks := (locks s)(lk := (locks s lk)\<lparr>locked := True, lcpu := Some (hart s)\<rparr>)\<rparr>"

definition dropped :: "lockid \<Rightarrow> 'a mach_scheme \<Rightarrow> 'a mach_scheme" where
  "dropped lk s = s\<lparr>
      sie := (if noff s (hart s) = 1 \<and> intena s (hart s) then (sie s)(hart s := True) else sie s),
      noff := (noff s)(hart s := noff s (hart s) - 1),
      locks := (locks s)(lk := (locks s lk)\<lparr>locked := False, lcpu := None\<rparr>)\<rparr>"

text \<open>A CPU whose nesting counter is sane: interrupts are off while it is positive.\<close>

definition cpu_ok :: "'a mach_scheme \<Rightarrow> bool" where
  "cpu_ok s \<longleftrightarrow> 0 \<le> noff s (hart s) \<and> (0 < noff s (hart s) \<longrightarrow> \<not> sie s (hart s))"

named_theorems lock_simps

lemma push_off_sel [simp]:
  "hart (push_off s) = hart s" "cproc (push_off s) = cproc s" "locks (push_off s) = locks s"
  "procs (push_off s) = procs s" "noff (push_off s) = (noff s)(hart s := noff s (hart s) + 1)"
  "sie (push_off s) = (sie s)(hart s := False)"
  "intena (push_off s) = (if noff s (hart s) = 0 then (intena s)(hart s := sie s (hart s)) else intena s)"
  "holds lk (push_off s) = holds lk s"
  by (auto simp: push_off_def intr_off_def Let_def holds_def)

lemma pop_push:
  assumes "cpu_ok s"
  shows "pop_off (push_off s) = Inr (saved s)"
  using assms
  by (auto simp: pop_off_def push_off_def intr_off_def intr_on_def saved_def cpu_ok_def Let_def
      fun_upd_idem intro!: mach.equality)

lemma holding_ok [lock_simps]: "cpu_ok s \<Longrightarrow> holding lk s = Inr (holds lk s, saved s)"
  by (simp add: holding_def Let_def pop_push)

lemma locking_ok [lock_simps]:
  "cpu_ok s \<Longrightarrow> locking lk s = Inr (locked (locks s lk), saved s)"
  by (simp add: locking_def Let_def pop_push)

lemma myproc_ok [lock_simps]: "cpu_ok s \<Longrightarrow> myproc s = Inr (curproc s, saved s)"
  by (simp add: myproc_def Let_def pop_push curproc_def)

lemma cpu_ok_push_off [simp]: "cpu_ok s \<Longrightarrow> cpu_ok (push_off s)"
  by (simp add: cpu_ok_def)

lemma saved_push_off [simp]: "cpu_ok s \<Longrightarrow> saved (push_off s) = push_off s"
  by (simp add: saved_def cpu_ok_def)

lemma acquire_unfold:
  assumes "cpu_ok s"
  shows "acquire lk s =
    (if holds lk s then Inl (Panic ''acquire'')
     else if locked (locks s lk) then Inl Blocked else Inr (taken lk s))"
  using assms
  by (simp add: acquire_def holding_ok)
     (simp add: taken_def push_off_def intr_off_def Let_def)

lemma acquire_ok [lock_simps]:
  "cpu_ok s \<Longrightarrow> \<not> locked (locks s lk) \<Longrightarrow> acquire lk s = Inr (taken lk s)"
  by (simp add: acquire_unfold holds_def)

lemma acquire_self: "cpu_ok s \<Longrightarrow> holds lk s \<Longrightarrow> acquire lk s = Inl (Panic ''acquire'')"
  by (simp add: acquire_unfold)

lemma release_unfold:
  assumes "cpu_ok s" and "0 < noff s (hart s)"
  shows "release lk s = (if holds lk s then Inr (dropped lk s) else Inl (Panic ''release''))"
  using assms
  by (auto simp: release_def holding_ok saved_def pop_off_def intr_on_def dropped_def Let_def
      cpu_ok_def intro!: mach.equality)

lemma release_ok [lock_simps]:
  "cpu_ok s \<Longrightarrow> 0 < noff s (hart s) \<Longrightarrow> holds lk s \<Longrightarrow> release lk s = Inr (dropped lk s)"
  by (simp add: release_unfold)

lemma taken_sel [simp]:
  "hart (taken lk s) = hart s" "cproc (taken lk s) = cproc s" "procs (taken lk s) = procs s"
  "noff (taken lk s) = (noff s)(hart s := noff s (hart s) + 1)"
  "sie (taken lk s) = (sie s)(hart s := False)"
  "intena (taken lk s) =
     (if noff s (hart s) = 0 then (intena s)(hart s := sie s (hart s)) else intena s)"
  "locks (taken lk s) =
     (locks s)(lk := (locks s lk)\<lparr>locked := True, lcpu := Some (hart s)\<rparr>)"
  by (simp_all add: taken_def)

lemma dropped_sel [simp]:
  "hart (dropped lk s) = hart s" "cproc (dropped lk s) = cproc s" "procs (dropped lk s) = procs s"
  "noff (dropped lk s) = (noff s)(hart s := noff s (hart s) - 1)"
  "sie (dropped lk s) =
     (if noff s (hart s) = 1 \<and> intena s (hart s) then (sie s)(hart s := True) else sie s)"
  "intena (dropped lk s) = intena s"
  "locks (dropped lk s) = (locks s)(lk := (locks s lk)\<lparr>locked := False, lcpu := None\<rparr>)"
  by (simp_all add: dropped_def)

lemma saved_sel [simp]:
  "hart (saved s) = hart s" "cproc (saved s) = cproc s" "procs (saved s) = procs s"
  "noff (saved s) = noff s" "sie (saved s) = sie s" "locks (saved s) = locks s"
  "holds lk (saved s) = holds lk s" "cpu_ok (saved s) = cpu_ok s" "curproc (saved s) = curproc s"
  by (simp_all add: saved_def holds_def cpu_ok_def curproc_def)

lemma holds_taken [simp]: "holds lk (taken lk' s) \<longleftrightarrow> lk = lk' \<or> holds lk s"
  by (auto simp: holds_def)

lemma cpu_ok_taken [simp]: "cpu_ok s \<Longrightarrow> cpu_ok (taken lk s)"
  by (simp add: cpu_ok_def)

lemma cpu_ok_dropped: "cpu_ok s \<Longrightarrow> 0 < noff s (hart s) \<Longrightarrow> cpu_ok (dropped lk s)"
  by (auto simp: cpu_ok_def)

text \<open>
  A calculus for straight-line code under locks: \<open>taken\<close> floats outwards over updates of
  other fields, and a release of the lock taken last cancels it.
\<close>

definition free_lock :: "lockid \<Rightarrow> 'a mach_scheme \<Rightarrow> bool" where
  "free_lock lk s \<longleftrightarrow> \<not> locked (locks s lk) \<and> lcpu (locks s lk) = None"

lemma free_lock_taken [simp]: "free_lock lk (taken lk' s) \<longleftrightarrow> lk \<noteq> lk' \<and> free_lock lk s"
  by (auto simp: free_lock_def)

lemma free_lock_saved [simp]: "free_lock lk (saved s) = free_lock lk s"
  by (simp add: free_lock_def)

lemma saved_taken [simp]: "cpu_ok s \<Longrightarrow> saved (taken lk s) = taken lk s"
  by (simp add: saved_def cpu_ok_def)

lemma taken_saved [simp]: "taken lk (saved s) = taken lk s"
  by (simp add: taken_def saved_def)

lemma saved_saved [simp]: "saved (saved s) = saved s"
  by (simp add: saved_def)

lemma dropped_taken [simp]:
  assumes "cpu_ok s" and "free_lock lk s"
  shows "dropped lk (taken lk s) = saved s"
proof -
  have free: "(locks s)(lk := (locks s lk)\<lparr>locked := False, lcpu := None\<rparr>) = locks s"
    using assms(2) by (simp add: fun_upd_idem free_lock_def)
  then show ?thesis
    using assms(1)
    by (auto simp: saved_def cpu_ok_def dropped_def taken_def fun_upd_idem intro!: mach.equality)
qed

lemma acquire_free [lock_simps]:
  "cpu_ok s \<Longrightarrow> free_lock lk s \<Longrightarrow> acquire lk s = Inr (taken lk s)"
  by (simp add: acquire_ok free_lock_def)

lemma release_taken [lock_simps]:
  "cpu_ok s \<Longrightarrow> free_lock lk s \<Longrightarrow> release lk (taken lk s) = Inr (saved s)"
  using release_ok [of "taken lk s" lk] by (simp add: cpu_ok_def)

lemma procs_update_taken [simp]: "procs_update f (taken lk s) = taken lk (procs_update f s)"
  by (simp add: taken_def)

lemma procs_update_saved [simp]: "procs_update f (saved s) = saved (procs_update f s)"
  by (simp add: saved_def)

lemma cpu_ok_procs_update [simp]: "cpu_ok (procs_update f s) = cpu_ok s"
  by (simp add: cpu_ok_def)

lemma free_lock_procs_update [simp]: "free_lock lk (procs_update f s) = free_lock lk s"
  by (simp add: free_lock_def)

text \<open>
  Taking a free spinlock and giving it back leaves the machine as it was: the lock is
  free again, the nesting counter and the interrupt flag are restored (only the saved copy
  of the interrupt flag, dead while the counter is 0, is refreshed).
\<close>

theorem acquire_release_roundtrip:
  assumes "cpu_ok s" and "\<not> locked (locks s lk)" and "lcpu (locks s lk) = None"
  shows "bindE (acquire lk s) (release lk) = Inr (saved s)"
  using assms by (simp add: acquire_free release_taken free_lock_def)

definition boot_mach :: mach where
  "boot_mach = \<lparr>hart = 0, cproc = (\<lambda>_. None), noff = (\<lambda>_. 0), intena = (\<lambda>_. False),
     sie = (\<lambda>_. False), locks = (\<lambda>_. \<lparr>locked = False, lname = [], lcpu = None\<rparr>),
     procs = (\<lambda>_. \<lparr>pstate = UNUSED, parent = None, chan = None, killed = False,
                     xstate = 0, pid = 0\<rparr>)\<rparr>"

theorem acquire_release_roundtrip_witness:
  "bindE (acquire LkKmem (intr_on boot_mach)) (release LkKmem) = Inr (saved (intr_on boot_mach))"
  by (rule acquire_release_roundtrip) (simp_all add: cpu_ok_def boot_mach_def intr_on_def)

section \<open>Interleavings of the CPUs\<close>

text \<open>
  Any CPU may take a lock, release one, or switch its interrupts while it holds none.
\<close>

inductive lock_step :: "mach \<Rightarrow> mach \<Rightarrow> bool" where
  acq: "acquire lk (s\<lparr>hart := h\<rparr>) = Inr t \<Longrightarrow> lock_step s t"
| rel: "release lk (s\<lparr>hart := h\<rparr>) = Inr t \<Longrightarrow> lock_step s t"
| ion: "noff s h = 0 \<Longrightarrow> lock_step s (intr_on (s\<lparr>hart := h\<rparr>))"
| ioff: "lock_step s (intr_off (s\<lparr>hart := h\<rparr>))"

inductive lock_reachable :: "mach \<Rightarrow> bool" where
  boot: "lock_reachable boot_mach"
| step: "lock_reachable s \<Longrightarrow> lock_step s t \<Longrightarrow> lock_reachable t"

definition held :: "'a mach_scheme \<Rightarrow> nat \<Rightarrow> lockid set" where
  "held s h = {lk. lcpu (locks s lk) = Some h}"

definition lock_inv :: "'a mach_scheme \<Rightarrow> bool" where
  "lock_inv s \<longleftrightarrow>
     (\<forall>lk. locked (locks s lk) \<longleftrightarrow> lcpu (locks s lk) \<noteq> None) \<and>
     (\<forall>h. finite (held s h) \<and> noff s h = int (card (held s h)) \<and> (0 < noff s h \<longrightarrow> \<not> sie s h))"

lemma lock_inv_cpu_ok: "lock_inv s \<Longrightarrow> cpu_ok (s\<lparr>hart := h\<rparr>)"
  by (auto simp: lock_inv_def cpu_ok_def)

lemma held_taken:
  "held (taken lk s) h =
     (if h = hart s then insert lk (held s h) else held s h - {lk})"
  by (auto simp: held_def)

lemma held_dropped: "held (dropped lk s) h = held s h - {lk}"
  by (auto simp: held_def)

lemma lock_inv_taken:
  assumes inv: "lock_inv s" and free: "\<not> locked (locks s lk)"
  shows "lock_inv (taken lk s)"
proof -
  have "lk \<notin> held s h" for h
    using inv free by (auto simp: lock_inv_def held_def)
  then show ?thesis
    using inv by (auto simp: lock_inv_def held_taken)
qed

lemma lock_inv_dropped:
  assumes inv: "lock_inv s" and hold: "holds lk s"
  shows "lock_inv (dropped lk s)"
proof -
  have mem: "lk \<in> held s (hart s)" and other: "h \<noteq> hart s \<Longrightarrow> lk \<notin> held s h" for h
    using hold by (auto simp: holds_def held_def)
  have "0 < card (held s (hart s))"
    using inv mem by (auto simp: lock_inv_def card_gt_0_iff)
  then have "int (card (held s (hart s) - {lk})) = noff s (hart s) - 1"
    using inv mem by (simp add: lock_inv_def card_Diff_singleton of_nat_diff)
  then show ?thesis
    using inv other by (auto simp: lock_inv_def held_dropped)
qed

lemma lock_step_inv:
  assumes "lock_step s t" and inv: "lock_inv s"
  shows "lock_inv t"
  using assms
proof (induction rule: lock_step.induct)
  case (acq lk h s t)
  have "lock_inv (s\<lparr>hart := h\<rparr>)" using acq.prems by (simp add: lock_inv_def held_def)
  with acq show ?case
    using lock_inv_cpu_ok [OF acq.prems]
    by (auto simp: acquire_unfold intro!: lock_inv_taken split: if_splits)
next
  case (rel lk h s t)
  let ?s = "s\<lparr>hart := h\<rparr>"
  have inv': "lock_inv ?s" using rel.prems by (simp add: lock_inv_def held_def)
  have ok: "cpu_ok ?s" by (rule lock_inv_cpu_ok [OF rel.prems])
  have hold: "holds lk ?s"
    using rel.hyps ok by (auto simp: release_def holding_ok split: if_splits)
  then have "lk \<in> held s h" by (simp add: holds_def held_def)
  then have "0 < noff ?s (hart ?s)"
    using rel.prems by (auto simp: lock_inv_def card_gt_0_iff)
  with rel.hyps ok hold have "t = dropped lk ?s" by (simp add: release_ok)
  then show ?case using lock_inv_dropped [OF inv' hold] by simp
next
  case (ion s h)
  then show ?case by (auto simp: lock_inv_def held_def intr_on_def)
next
  case (ioff h s)
  then show ?case by (auto simp: lock_inv_def held_def intr_off_def)
qed

lemma lock_reachable_inv: "lock_reachable s \<Longrightarrow> lock_inv s"
proof (induction rule: lock_reachable.induct)
  case boot
  show ?case by (simp add: lock_inv_def held_def boot_mach_def)
next
  case (step s t)
  then show ?case by (blast intro: lock_step_inv)
qed



end
