(* ===== verification/Sched.thy ===== *)
theory Sched
  imports Spinlock
begin

text \<open>
  \<open>kernel/sleeplock.c\<close> and the scheduling part of \<open>kernel/proc.c\<close>: sleep, wakeup,
  kill, yield, the scheduler's choice, reparenting and process identifiers. A call that
  gives up the CPU returns only after another process acts: it is modelled up to the context
  switch (\<open>sleep_enter\<close>) and, as a step of its caller, has the outcome \<open>Blocked\<close>.
\<close>

section \<open>State\<close>

record sleeplock =
  slocked :: bool
  slname :: string
  spid :: nat

record sched = mach +
  slocks :: "nat \<Rightarrow> sleeplock"
  nextpid :: nat
  initproc :: "nat option"

lemma sched_fields_taken [simp]:
  "slocks (taken lk s) = slocks s" "nextpid (taken lk s) = nextpid s"
  "initproc (taken lk s) = initproc s"
  "slocks_update f (taken lk s) = taken lk (slocks_update f s)"
  "nextpid_update g (taken lk s) = taken lk (nextpid_update g s)"
  "slocks (saved s) = slocks s" "nextpid (saved s) = nextpid s" "initproc (saved s) = initproc s"
  "slocks_update f (saved s) = saved (slocks_update f s)"
  "nextpid_update g (saved s) = saved (nextpid_update g s)"
  by (simp_all add: taken_def saved_def)

lemma sched_fields_cpu [simp]:
  "cpu_ok (slocks_update f s) = cpu_ok s" "cpu_ok (nextpid_update g s) = cpu_ok s"
  "free_lock lk (slocks_update f s) = free_lock lk s"
  "free_lock lk (nextpid_update g s) = free_lock lk s"
  by (simp_all add: cpu_ok_def free_lock_def)

section \<open>Giving up the CPU\<close>

text \<open>The checks of \<open>sched\<close> before the context switch.\<close>

definition sched_check :: "'a sched_scheme \<Rightarrow> 'a sched_scheme res" where
  "sched_check s = bindE (myproc s) (\<lambda>(mp, s). case mp of None \<Rightarrow> Inl Trap | Some p \<Rightarrow>
     bindE (holding (LkProc p) s) (\<lambda>(h, s).
       if \<not> h then Inl (Panic ''sched p->lock'')
       else if noff s (hart s) \<noteq> 1 then Inl (Panic ''sched locks'')
       else if pstate (procs s p) = RUNNING then Inl (Panic ''sched running'')
       else if sie s (hart s) then Inl (Panic ''sched interruptible'')
       else Inr s))"

definition set_proc :: "nat \<Rightarrow> (proc \<Rightarrow> proc) \<Rightarrow> 'a mach_scheme \<Rightarrow> 'a mach_scheme" where
  "set_proc p f s = s\<lparr>procs := (procs s)(p := f (procs s p))\<rparr>"

definition sleep_enter :: "chan \<Rightarrow> lockid \<Rightarrow> 'a sched_scheme \<Rightarrow> 'a sched_scheme res" where
  "sleep_enter c lk s = bindE (myproc s) (\<lambda>(mp, s). case mp of None \<Rightarrow> Inl Trap | Some p \<Rightarrow>
     bindE (if lk \<noteq> LkProc p then bindE (acquire (LkProc p) s) (release lk) else Inr s)
       (\<lambda>s. sched_check (set_proc p (\<lambda>r. r\<lparr>chan := Some c, pstate := SLEEPING\<rparr>) s)))"

definition sleep :: "chan \<Rightarrow> lockid \<Rightarrow> 'a sched_scheme \<Rightarrow> 'a sched_scheme res" where
  "sleep c lk s = bindE (sleep_enter c lk s) (\<lambda>_. Inl Blocked)"

definition yield_enter :: "'a sched_scheme \<Rightarrow> 'a sched_scheme res" where
  "yield_enter s = bindE (myproc s) (\<lambda>(mp, s). case mp of None \<Rightarrow> Inl Trap | Some p \<Rightarrow>
     bindE (acquire (LkProc p) s) (\<lambda>s.
       sched_check (set_proc p (\<lambda>r. r\<lparr>pstate := RUNNABLE\<rparr>) s)))"

text \<open>
  One iteration of the scheduler's inner loop, for \<open>proc[i]\<close>: the chosen process runs with
  its own lock held, which it (or \<open>forkret\<close>) releases; another one is left alone.
\<close>

definition scheduler_try :: "nat \<Rightarrow> 'a sched_scheme \<Rightarrow> (bool \<times> 'a sched_scheme) res" where
  "scheduler_try i s = bindE (acquire (LkProc i) s) (\<lambda>s.
     if pstate (procs s i) = RUNNABLE
     then Inr (True, (set_proc i (\<lambda>r. r\<lparr>pstate := RUNNING\<rparr>) s)\<lparr>cproc := (cproc s)(hart s := Some i)\<rparr>)
     else bindE (release (LkProc i) s) (\<lambda>s. Inr (False, s)))"

section \<open>Waking up\<close>

definition wakeup_proc :: "chan \<Rightarrow> proc \<Rightarrow> proc" where
  "wakeup_proc c r = (if pstate r = SLEEPING \<and> chan r = Some c then r\<lparr>pstate := RUNNABLE\<rparr> else r)"

definition wakeup_one :: "chan \<Rightarrow> nat \<Rightarrow> 'a mach_scheme \<Rightarrow> 'a mach_scheme res" where
  "wakeup_one c i s = bindE (acquire (LkProc i) s) (\<lambda>s.
     release (LkProc i) (set_proc i (wakeup_proc c) s))"

definition wakeup :: "chan \<Rightarrow> 'a mach_scheme \<Rightarrow> 'a mach_scheme res" where
  "wakeup c s = foldE (wakeup_one c) [0..<NPROC] s"

definition wakeup1 :: "nat \<Rightarrow> 'a mach_scheme \<Rightarrow> 'a mach_scheme res" where
  "wakeup1 p s = bindE (holding (LkProc p) s) (\<lambda>(h, s).
     if \<not> h then Inl (Panic ''wakeup1'') else Inr (set_proc p (wakeup_proc (ChProc p)) s))"

definition kill_proc :: "proc \<Rightarrow> proc" where
  "kill_proc r = r\<lparr>killed := True,
     pstate := (if pstate r = SLEEPING then RUNNABLE else pstate r)\<rparr>"

fun kill_from :: "nat list \<Rightarrow> nat \<Rightarrow> 'a mach_scheme \<Rightarrow> (int \<times> 'a mach_scheme) res" where
  "kill_from [] target s = Inr (-1, s)"
| "kill_from (i # is) target s = bindE (acquire (LkProc i) s) (\<lambda>s.
     if pid (procs s i) = target then
       bindE (release (LkProc i) (set_proc i kill_proc s))
         (\<lambda>s. Inr (0, s))
     else bindE (release (LkProc i) s) (kill_from is target))"

definition kill :: "nat \<Rightarrow> 'a mach_scheme \<Rightarrow> (int \<times> 'a mach_scheme) res" where
  "kill target s = kill_from [0..<NPROC] target s"

definition allocpid :: "'a sched_scheme \<Rightarrow> (nat \<times> 'a sched_scheme) res" where
  "allocpid s = bindE (acquire LkPid s) (\<lambda>s.
     let p = nextpid s in
     bindE (release LkPid (s\<lparr>nextpid := p + 1\<rparr>)) (\<lambda>s. Inr (p, s)))"

definition reparent_one :: "nat \<Rightarrow> nat \<Rightarrow> 'a sched_scheme \<Rightarrow> 'a sched_scheme res" where
  "reparent_one p i s =
     (if parent (procs s i) = Some p then
        bindE (acquire (LkProc i) s) (\<lambda>s.
          release (LkProc i) (set_proc i (\<lambda>r. r\<lparr>parent := initproc s\<rparr>) s))
      else Inr s)"

definition reparent :: "nat \<Rightarrow> 'a sched_scheme \<Rightarrow> 'a sched_scheme res" where
  "reparent p s = foldE (reparent_one p) [0..<NPROC] s"

section \<open>Sleep locks\<close>

definition curpid :: "'a mach_scheme \<Rightarrow> nat res" where
  "curpid s = (case curproc s of None \<Rightarrow> Inl Trap | Some p \<Rightarrow> Inr (pid (procs s p)))"

definition set_slock :: "nat \<Rightarrow> bool \<Rightarrow> nat \<Rightarrow> 'a sched_scheme \<Rightarrow> 'a sched_scheme" where
  "set_slock n b q s =
     s\<lparr>slocks := (slocks s)(n := (slocks s n)\<lparr>slocked := b, spid := q\<rparr>)\<rparr>"

definition initsleeplock_fields :: "nat \<Rightarrow> string \<Rightarrow> 'a sched_scheme \<Rightarrow> 'a sched_scheme" where
  "initsleeplock_fields n name s =
     (initlock_fields (LkSleep n) ''sleep lock'' s)
       \<lparr>slocks := (slocks s)(n := \<lparr>slocked = False, slname = name, spid = 0\<rparr>)\<rparr>"

definition acquiresleep :: "nat \<Rightarrow> 'a sched_scheme \<Rightarrow> 'a sched_scheme res" where
  "acquiresleep n s = bindE (acquire (LkSleep n) s) (\<lambda>s.
     if slocked (slocks s n) then sleep (ChSleep n) (LkSleep n) s
     else bindE (curpid s) (\<lambda>q. release (LkSleep n) (set_slock n True q s)))"

definition releasesleep :: "nat \<Rightarrow> 'a sched_scheme \<Rightarrow> 'a sched_scheme res" where
  "releasesleep n s = bindE (acquire (LkSleep n) s) (\<lambda>s.
     bindE (wakeup (ChSleep n) (set_slock n False 0 s)) (release (LkSleep n)))"

definition holdingsleep :: "nat \<Rightarrow> 'a sched_scheme \<Rightarrow> (bool \<times> 'a sched_scheme) res" where
  "holdingsleep n s = bindE (acquire (LkSleep n) s) (\<lambda>s.
     bindE (if slocked (slocks s n) then bindE (curpid s) (\<lambda>q. Inr (spid (slocks s n) = q))
            else Inr False)
       (\<lambda>r. bindE (release (LkSleep n) s) (\<lambda>s. Inr (r, s))))"

section \<open>Lemmas\<close>

definition procs_free :: "'a mach_scheme \<Rightarrow> bool" where
  "procs_free s \<longleftrightarrow> (\<forall>i < NPROC. free_lock (LkProc i) s)"

lemma set_proc_calculus [simp]:
  "set_proc p f (taken lk s) = taken lk (set_proc p f s)"
  "set_proc p f (saved s) = saved (set_proc p f s)"
  "cpu_ok (set_proc p f s) = cpu_ok s" "free_lock lk (set_proc p f s) = free_lock lk s"
  "procs (set_proc p f s) = (procs s)(p := f (procs s p))"
  "curproc (set_proc p f s) = curproc s" "cproc (set_proc p f s) = cproc s" "hart (set_proc p f s) = hart s"
  "locks (set_proc p f s) = locks s" "noff (set_proc p f s) = noff s" "sie (set_proc p f s) = sie s"
  by (simp_all add: set_proc_def curproc_def)

lemma procs_free_simps [simp]:
  "procs_free (saved s) = procs_free s" "procs_free (set_proc p f s) = procs_free s"
  "procs_free (procs_update g s) = procs_free s"
  "procs_free (taken (LkSleep n) s) = procs_free s"
  by (simp_all add: procs_free_def)

lemma procs_freeD: "procs_free s \<Longrightarrow> i < NPROC \<Longrightarrow> free_lock (LkProc i) s"
  by (simp add: procs_free_def)

lemma wakeup_one_ok:
  "cpu_ok s \<Longrightarrow> free_lock (LkProc i) s \<Longrightarrow>
     wakeup_one c i s = Inr (saved (set_proc i (wakeup_proc c) s))"
  by (simp add: wakeup_one_def acquire_free release_taken)

lemma wakeup_fold:
  assumes "cpu_ok s" and "procs_free s" and "n \<le> NPROC"
  shows "foldE (wakeup_one c) [0..<n] s =
    Inr (if n = 0 then s
         else saved (s\<lparr>procs := (\<lambda>i. if i < n then wakeup_proc c (procs s i) else procs s i)\<rparr>))"
  using assms(3)
proof (induction n)
  case 0
  then show ?case by simp
next
  case (Suc n)
  let ?t = "s\<lparr>procs := (\<lambda>i. if i < n then wakeup_proc c (procs s i) else procs s i)\<rparr>"
  have t: "cpu_ok ?t" "free_lock (LkProc n) ?t"
    using assms Suc.prems by (auto simp: procs_free_def)
  have eq: "set_proc n (wakeup_proc c) ?t =
      s\<lparr>procs := (\<lambda>i. if i < Suc n then wakeup_proc c (procs s i) else procs s i)\<rparr>"
    by (simp add: set_proc_def fun_eq_iff less_Suc_eq)
  have t0: "n = 0 \<Longrightarrow> s = ?t" by (simp add: fun_eq_iff)
  show ?case
  proof (cases "n = 0")
    case True
    then show ?thesis using wakeup_one_ok [OF t, of c] eq t0 by simp
  next
    case False
    have "wakeup_one c n (saved ?t) = Inr (saved (set_proc n (wakeup_proc c) (saved ?t)))"
      by (rule wakeup_one_ok) (use t in simp_all)
    then show ?thesis using False Suc eq by (simp add: foldE_append)
  qed
qed

lemma wakeup_ok:
  assumes "cpu_ok s" and "procs_free s"
  shows "wakeup c s = Inr (saved
    (s\<lparr>procs := (\<lambda>i. if i < NPROC then wakeup_proc c (procs s i) else procs s i)\<rparr>))"
  using wakeup_fold [OF assms, of NPROC c] by (simp add: wakeup_def)

lemma wakeup_proc_simps [simp]:
  "pid (wakeup_proc c r) = pid r" "chan (wakeup_proc c r) = chan r"
  "parent (wakeup_proc c r) = parent r" "killed (wakeup_proc c r) = killed r"
  "xstate (wakeup_proc c r) = xstate r"
  by (simp_all add: wakeup_proc_def)

lemma kill_from_ok:
  assumes "cpu_ok s" and "\<forall>i \<in> set is. free_lock (LkProc i) s"
  shows "kill_from is q s = Inr (case find (\<lambda>i. pid (procs s i) = q) is of
      None \<Rightarrow> (-1, if is = [] then s else saved s)
    | Some i \<Rightarrow> (0, saved (set_proc i kill_proc s)))"
  using assms
proof (induction "is" arbitrary: s)
  case Nil
  then show ?case by simp
next
  case (Cons i "is")
  have ih: "kill_from is q (saved s) = Inr (case find (\<lambda>i. pid (procs (saved s) i) = q) is of
      None \<Rightarrow> (-1, if is = [] then saved s else saved (saved s))
    | Some i \<Rightarrow> (0, saved (set_proc i kill_proc (saved s))))"
    by (rule Cons.IH) (use Cons.prems in auto)
  show ?case
    using Cons.prems ih
    by (simp add: acquire_free release_taken split: option.splits)
qed

lemma release_under_taken:
  assumes "cpu_ok s" and "holds lk s" and "0 < noff s (hart s)" and "lk' \<noteq> lk"
  shows "release lk (taken lk' s) = Inr (taken lk' (dropped lk s))"
proof -
  have n0: "noff s (hart s) \<noteq> 0" and si: "(sie s)(hart s := False) = sie s"
    using assms by (auto simp: cpu_ok_def fun_upd_idem)
  have "release lk (taken lk' s) = Inr (dropped lk (taken lk' s))"
    using assms by (intro release_ok) (auto simp: cpu_ok_def)
  also have "dropped lk (taken lk' s) = s\<lparr>locks := (locks s)
      (lk' := (locks s lk')\<lparr>locked := True, lcpu := Some (hart s)\<rparr>,
       lk := (locks s lk)\<lparr>locked := False, lcpu := None\<rparr>)\<rparr>"
    using assms(4) n0 si by (auto simp: dropped_def taken_def fun_upd_idem intro!: mach.equality)
  also have "\<dots> = taken lk' (dropped lk s)"
    using assms n0 si
    by (auto simp: dropped_def taken_def fun_upd_idem fun_upd_twist cpu_ok_def
        intro!: mach.equality)
  finally show ?thesis .
qed

lemma sleep_enter_ok:
  assumes ok: "cpu_ok s" and cur: "curproc s = Some p" and fps: "free_lock (LkProc p) s"
    and lk: "lk \<noteq> LkProc p" "holds lk s" "noff s (hart s) = 1"
  shows "sleep_enter c lk s = Inr (taken (LkProc p)
    (set_proc p (\<lambda>r. r\<lparr>chan := Some c, pstate := SLEEPING\<rparr>) (dropped lk s)))"
proof -
  define d where "d = set_proc p (\<lambda>r. r\<lparr>chan := Some c, pstate := SLEEPING\<rparr>) (dropped lk s)"
  have n: "saved s = s" using lk(3) by (simp add: saved_def)
  have dok: "cpu_ok d" using cpu_ok_dropped [OF ok] lk(3) by (simp add: d_def)
  have dn: "noff d (hart d) = 0" by (simp add: d_def lk(3))
  have dp: "pstate (procs d p) = SLEEPING" by (simp add: d_def)
  have "release lk (taken (LkProc p) s) = Inr (taken (LkProc p) (dropped lk s))"
    using ok lk by (intro release_under_taken) auto
  then have enter: "sleep_enter c lk s =
      sched_check (set_proc p (\<lambda>r. r\<lparr>chan := Some c, pstate := SLEEPING\<rparr>)
        (taken (LkProc p) (dropped lk s)))"
    using ok cur lk fps n by (simp add: sleep_enter_def myproc_ok acquire_free)
  have cd: "curproc (taken (LkProc p) d) = Some p" using cur by (simp add: d_def curproc_def)
  have "sched_check (taken (LkProc p) d) = Inr (taken (LkProc p) d)"
    using dok dn dp cd by (simp add: sched_check_def myproc_ok holding_ok)
  then show ?thesis by (simp add: enter d_def)
qed

section \<open>Properties\<close>

text \<open>
  \<open>wakeup\<close> makes exactly the processes sleeping on the channel runnable. It touches
  no other field of any process, no lock stays taken, and the interrupt state is restored.
\<close>

theorem wakeup_exact:
  assumes "cpu_ok s" and "procs_free s"
  shows "\<exists>t. wakeup c s = Inr t \<and> locks t = locks s \<and> noff t = noff s \<and> sie t = sie s \<and>
     (\<forall>i < NPROC. pstate (procs t i) = RUNNABLE \<longleftrightarrow>
        pstate (procs s i) = RUNNABLE \<or> (pstate (procs s i) = SLEEPING \<and> chan (procs s i) = Some c)) \<and>
     (\<forall>i. (procs t i)\<lparr>pstate := pstate (procs s i)\<rparr> = procs s i) \<and>
     (\<forall>i \<ge> NPROC. procs t i = procs s i)"
  using wakeup_ok [OF assms, of c] by (auto simp: wakeup_proc_def)

theorem wakeup_exact_witness:
  "\<exists>t. wakeup ChLog boot_mach = Inr t \<and> procs t 100 = procs boot_mach 100"
  using wakeup_exact [of boot_mach ChLog]
  by (auto simp: cpu_ok_def procs_free_def free_lock_def boot_mach_def)

text \<open>
  \<open>kill(pid)\<close> marks the first process with that identifier as killed, wakes it if it
  sleeps, and changes nothing else; it fails exactly when no process has the identifier.
\<close>

theorem kill_exact:
  assumes "cpu_ok s" and "procs_free s"
  shows "kill q s = Inr (case first_idx (\<lambda>i. pid (procs s i) = q) NPROC of
      None \<Rightarrow> (-1, saved s)
    | Some i \<Rightarrow> (0, saved (set_proc i kill_proc s)))"
proof -
  have "\<forall>i \<in> set [0..<NPROC]. free_lock (LkProc i) s"
    using assms(2) by (auto simp: procs_free_def)
  from kill_from_ok [OF assms(1) this, of q] show ?thesis
    by (simp add: kill_def first_idx_def)
qed

theorem kill_exact_witness:
  "kill 7 boot_mach = Inr (-1, saved boot_mach)"
proof -
  have "first_idx (\<lambda>i. pid (procs boot_mach i) = 7) NPROC = None"
    by (simp add: first_idx_None boot_mach_def)
  with kill_exact [of boot_mach 7] show ?thesis
    by (simp add: cpu_ok_def procs_free_def free_lock_def boot_mach_def)
qed


definition boot_sched :: sched where
  "boot_sched = mach.extend (boot_mach\<lparr>cproc := (\<lambda>h. Some h),
       procs := (\<lambda>i. (procs boot_mach i)\<lparr>pid := i + 1, pstate := RUNNING\<rparr>)\<rparr>)
     (sched.fields (\<lambda>_. \<lparr>slocked = False, slname = [], spid = 0\<rparr>) 65 (Some 0))"

lemma boot_sched_sel [simp]:
  "hart boot_sched = 0" "cproc boot_sched h = Some h" "noff boot_sched = (\<lambda>_. 0)"
  "intena boot_sched = (\<lambda>_. False)" "sie boot_sched = (\<lambda>_. False)"
  "locks boot_sched lk = \<lparr>locked = False, lname = [], lcpu = None\<rparr>"
  "procs boot_sched i = \<lparr>pstate = RUNNING, parent = None, chan = None, killed = False,
     xstate = 0, pid = i + 1\<rparr>"
  "slocks boot_sched n = \<lparr>slocked = False, slname = [], spid = 0\<rparr>" "nextpid boot_sched = 65"
  "initproc boot_sched = Some 0"
  by (simp_all add: boot_sched_def boot_mach_def mach.defs sched.defs)

lemma boot_sched_ok [simp]:
  "cpu_ok boot_sched" "free_lock lk boot_sched" "procs_free boot_sched"
  "curproc boot_sched = Some 0"
  by (simp_all add: cpu_ok_def free_lock_def procs_free_def curproc_def)


lemma set_slock_calculus [simp]:
  "set_slock n b q (taken lk s) = taken lk (set_slock n b q s)"
  "set_slock n b q (saved s) = saved (set_slock n b q s)"
  "cpu_ok (set_slock n b q s) = cpu_ok s" "free_lock lk (set_slock n b q s) = free_lock lk s"
  "procs_free (set_slock n b q s) = procs_free s" "procs (set_slock n b q s) = procs s"
  "slocks (set_slock n b q s) = (slocks s)(n := (slocks s n)\<lparr>slocked := b, spid := q\<rparr>)"
  "curproc (set_slock n b q s) = curproc s" "hart (set_slock n b q s) = hart s"
  "cproc (set_slock n b q s) = cproc s" "noff (set_slock n b q s) = noff s"
  "locks (set_slock n b q s) = locks s"
  by (simp_all add: set_slock_def curproc_def procs_free_def)

lemma curproc_taken [simp]: "curproc (taken lk s) = curproc s"
  by (simp add: curproc_def)

lemma curpid_taken [simp]: "curpid (taken lk s) = curpid s"
  by (simp add: curpid_def cong: option.case_cong)

lemma acquiresleep_ok:
  "cpu_ok s \<Longrightarrow> free_lock (LkSleep n) s \<Longrightarrow> curpid s = Inr q \<Longrightarrow> \<not> slocked (slocks s n) \<Longrightarrow>
     acquiresleep n s = Inr (saved (set_slock n True q s))"
  by (simp add: acquiresleep_def acquire_free release_taken)

lemma holdingsleep_ok:
  "cpu_ok s \<Longrightarrow> free_lock (LkSleep n) s \<Longrightarrow> curpid s = Inr q \<Longrightarrow>
     holdingsleep n s = Inr (slocked (slocks s n) \<and> spid (slocks s n) = q, saved s)"
  by (simp add: holdingsleep_def acquire_free release_taken)

lemma releasesleep_ok:
  assumes "cpu_ok s" and "free_lock (LkSleep n) s" and "procs_free s"
  shows "releasesleep n s = Inr (saved (set_slock n False 0
    (s\<lparr>procs := (\<lambda>i. if i < NPROC then wakeup_proc (ChSleep n) (procs s i) else procs s i)\<rparr>)))"
proof -
  have "wakeup (ChSleep n) (taken (LkSleep n) (set_slock n False 0 s)) =
    Inr (saved ((taken (LkSleep n) (set_slock n False 0 s))\<lparr>procs := (\<lambda>i. if i < NPROC
       then wakeup_proc (ChSleep n) (procs (taken (LkSleep n) (set_slock n False 0 s)) i)
       else procs (taken (LkSleep n) (set_slock n False 0 s)) i)\<rparr>))"
    by (rule wakeup_ok) (use assms in simp_all)
  with assms show ?thesis
    by (simp add: releasesleep_def acquire_free release_taken cong: if_cong)
       (auto simp: set_slock_def intro!: arg_cong [where f = saved] sched.equality)
qed

text \<open>
  C37. A sleep lock belongs to the process that acquired it until that process releases it:
  \<open>holdingsleep\<close> is true for a process with the acquirer's identifier and for no other,
  every further \<open>acquiresleep\<close> (also one by the owner) sleeps, and \<open>releasesleep\<close> frees
  the lock and makes every process waiting for it runnable.
\<close>

theorem sleeplock_ownership:
  assumes ok: "cpu_ok s" "free_lock (LkSleep n) s" "procs_free s"
    and cur: "curpid s = Inr q" and fr: "\<not> slocked (slocks s n)"
  shows "\<exists>t u. acquiresleep n s = Inr t \<and> releasesleep n t = Inr u \<and>
    \<not> slocked (slocks u n) \<and>
    (\<forall>i < NPROC. pstate (procs s i) = SLEEPING \<and> chan (procs s i) = Some (ChSleep n) \<longrightarrow>
        pstate (procs u i) = RUNNABLE) \<and>
    (\<forall>h p. noff t h = 0 \<and> cproc t h = Some p \<and> p < NPROC \<longrightarrow>
        holdingsleep n (t\<lparr>hart := h\<rparr>) =
          Inr (pid (procs t p) = q, saved (t\<lparr>hart := h\<rparr>)) \<and>
        acquiresleep n (t\<lparr>hart := h\<rparr>) = Inl Blocked)"
proof -
  define t where "t = saved (set_slock n True q s)"
  have t: "acquiresleep n s = Inr t" unfolding t_def by (rule acquiresleep_ok) (use assms in simp_all)
  have tl: "slocked (slocks t n)" "spid (slocks t n) = q" by (simp_all add: t_def)
  have "cpu_ok t" "free_lock (LkSleep n) t" "procs_free t" using ok by (simp_all add: t_def)
  note u = releasesleep_ok [OF this]
  have other: "holdingsleep n (t\<lparr>hart := h\<rparr>) = Inr (pid (procs t p) = q, saved (t\<lparr>hart := h\<rparr>))
      \<and> acquiresleep n (t\<lparr>hart := h\<rparr>) = Inl Blocked"
    if h: "noff t h = 0" "cproc t h = Some p" "p < NPROC" for h p
  proof -
    let ?t = "t\<lparr>hart := h\<rparr>"
    have k: "cpu_ok ?t" "free_lock (LkSleep n) ?t" "free_lock (LkProc p) ?t" "curproc ?t = Some p"
      using ok h by (auto simp: cpu_ok_def t_def free_lock_def procs_free_def curproc_def)
    have "sleep_enter (ChSleep n) (LkSleep n) (taken (LkSleep n) ?t) =
      Inr (taken (LkProc p) (set_proc p (\<lambda>r. r\<lparr>chan := Some (ChSleep n), pstate := SLEEPING\<rparr>)
        (dropped (LkSleep n) (taken (LkSleep n) ?t))))"
      by (rule sleep_enter_ok) (use k h in simp_all)
    then show ?thesis
      using k tl by (auto simp: acquiresleep_def acquire_free sleep_def holdingsleep_ok curpid_def)
  qed
  show ?thesis
    using t u other by (intro exI [of _ t] exI conjI) (auto simp: t_def wakeup_proc_def)
qed

theorem sleeplock_ownership_witness:
  "\<exists>t u. acquiresleep 3 boot_sched = Inr t \<and> releasesleep 3 t = Inr u \<and>
     \<not> slocked (slocks u 3)"
  using sleeplock_ownership [of boot_sched 3 1] by (auto simp: curpid_def)

end
