(* ===== verification/RecoveryLocking.thy ===== *)
theory RecoveryLocking
  imports Sched
begin

text \<open>
  \<open>kernel/recovery_locking.c\<close>: recovery critical sections (R.C.S.), the per-process
  history of nested sections, the recovery locks that a recovery handler takes to keep other
  processes out of a section, and the index from buffer, file and inode objects to their
  flag. Waiting loops (\<open>sleep\<close>, busy waiting) have the outcome \<open>Blocked\<close>; an
  access outside a static array is \<open>Trap\<close>.
\<close>

section \<open>State\<close>

abbreviation RL_BCACHE :: int where "RL_BCACHE \<equiv> 1"
abbreviation RL_CONS :: int where "RL_CONS \<equiv> 2"
abbreviation RL_FTABLE :: int where "RL_FTABLE \<equiv> 3"
abbreviation RL_ICACHE :: int where "RL_ICACHE \<equiv> 4"
abbreviation RL_KMEM :: int where "RL_KMEM \<equiv> 5"
abbreviation RL_LOG :: int where "RL_LOG \<equiv> 6"
abbreviation RL_PIPE :: int where "RL_PIPE \<equiv> 7"
abbreviation RL_PR :: int where "RL_PR \<equiv> 8"
abbreviation RL_BUF :: int where "RL_BUF \<equiv> 9"
abbreviation RL_FILE :: int where "RL_FILE \<equiv> 10"
abbreviation RL_INODE :: int where "RL_INODE \<equiv> 11"
abbreviation LAST_FLAG_WO_IDX :: int where "LAST_FLAG_WO_IDX \<equiv> 8"
abbreviation RL_NFLAGS :: int where "RL_NFLAGS \<equiv> 189"
abbreviation RL_FLAG_MAX :: int where "RL_FLAG_MAX \<equiv> 189"
abbreviation LOG_COMMIT :: int where "LOG_COMMIT \<equiv> 1"
abbreviation ICACHE_FORK :: int where "ICACHE_FORK \<equiv> 2"
abbreviation RCS_HIST :: nat where "RCS_HIST \<equiv> 5"
abbreviation CONSINTR_CONS :: int where "CONSINTR_CONS \<equiv> 1"
abbreviation CONSINTR_PR :: int where "CONSINTR_PR \<equiv> 2"
abbreviation CLCKINTR_TICKSLOCK :: int where "CLCKINTR_TICKSLOCK \<equiv> 3"

record rl_idx =
  iflag :: int
  iaddr :: nat

record rcs_info =
  rpid :: nat
  hist :: "int list"   \<comment> \<open>\<open>history_idx\<close>, \<open>RCS_HIST\<close> entries, 0 when unused\<close>

record nmi_info =
  naddr :: nat
  npid :: nat
  nsp :: u64
  ns0 :: u64

record rlstate = sched +
  rl_num :: "nat \<Rightarrow> int"
  rl_exc :: "nat \<Rightarrow> int"
  buf_idx :: "nat \<Rightarrow> rl_idx"
  file_idx :: "nat \<Rightarrow> rl_idx"
  inode_idx :: "nat \<Rightarrow> rl_idx"
  rcs_infos :: "nat \<Rightarrow> rcs_info"
  bcache_at :: nat
  ftable_at :: nat
  icache_at :: nat
  nmi_queue :: "(nat \<Rightarrow> nmi_info) option"

text \<open>Addresses of the array elements, from the layout of the structs (RV64).\<close>

definition buf_at :: "nat \<Rightarrow> nat \<Rightarrow> nat" where "buf_at b i = b + 24 + 1120 * i"
definition file_at :: "nat \<Rightarrow> nat \<Rightarrow> nat" where "file_at b i = b + 24 + 40 * i"
definition inode_at :: "nat \<Rightarrow> nat \<Rightarrow> nat" where "inode_at b i = b + 24 + 136 * i"

lemma at_inject [simp]:
  "buf_at b i = buf_at b j \<longleftrightarrow> i = j" "file_at b i = file_at b j \<longleftrightarrow> i = j"
  "inode_at b i = inode_at b j \<longleftrightarrow> i = j"
  by (simp_all add: buf_at_def file_at_def inode_at_def)

section \<open>Initialisation and the object index\<close>

definition init_rcs_infos :: "nat \<Rightarrow> 'a rlstate_scheme \<Rightarrow> 'a rlstate_scheme" where
  "init_rcs_infos p s = (case first_idx (\<lambda>i. rpid (rcs_infos s i) = 0) NPROC of
      None \<Rightarrow> s
    | Some i \<Rightarrow> s\<lparr>rcs_infos := (rcs_infos s)(i := (rcs_infos s i)\<lparr>rpid := p\<rparr>)\<rparr>)"

definition init_recovery_lock_idx :: "'a rlstate_scheme \<Rightarrow> 'a rlstate_scheme" where
  "init_recovery_lock_idx s = s\<lparr>
     buf_idx := (\<lambda>i. if i < NBUF
        then \<lparr>iflag = LAST_FLAG_WO_IDX + int i + 1, iaddr = buf_at (bcache_at s) i\<rparr> else buf_idx s i),
     file_idx := (\<lambda>i. if i < NFILE
        then \<lparr>iflag = LAST_FLAG_WO_IDX + int NBUF + int i, iaddr = file_at (ftable_at s) i\<rparr>
        else file_idx s i),
     inode_idx := (\<lambda>i. if i < NINODE
        then \<lparr>iflag = LAST_FLAG_WO_IDX + int NBUF + int NFILE + int i,
              iaddr = inode_at (icache_at s) i\<rparr>
        else inode_idx s i)\<rparr>"

text \<open>The lock registration of \<open>initlock\<close> is added where the M-List is modelled.\<close>

definition init_recovery_locks :: "'a rlstate_scheme \<Rightarrow> 'a rlstate_scheme" where
  "init_recovery_locks s =
     (let f = (\<lambda>i s. initlock_fields (LkRecLk i) ''Recovery Lock's lock''
                 (initlock_fields (LkRec i) ''Recovery Lock''
                    (s\<lparr>rl_num := (rl_num s)(i := 0), rl_exc := (rl_exc s)(i := 0)\<rparr>)))
      in fold f [0..<189] s)"

definition search_recovery_idx :: "int \<Rightarrow> nat \<Rightarrow> 'a rlstate_scheme \<Rightarrow> int" where
  "search_recovery_idx flag addr s =
     (let look = (\<lambda>tab n. case first_idx (\<lambda>i. iaddr (tab i) = addr) n of
                    None \<Rightarrow> -1 | Some i \<Rightarrow> iflag (tab i))
      in if flag = RL_BUF then look (buf_idx s) NBUF
         else if flag = RL_FILE then look (file_idx s) NFILE
         else if flag = RL_INODE then look (inode_idx s) NINODE
         else -1)"

section \<open>History of nested critical sections\<close>

definition rcs_find :: "nat \<Rightarrow> 'a rlstate_scheme \<Rightarrow> nat option" where
  "rcs_find p s = first_idx (\<lambda>i. rpid (rcs_infos s i) = p) NPROC"

definition set_hist :: "nat \<Rightarrow> int list \<Rightarrow> 'a rlstate_scheme \<Rightarrow> 'a rlstate_scheme" where
  "set_hist i h s = s\<lparr>rcs_infos := (rcs_infos s)(i := (rcs_infos s i)\<lparr>hist := h\<rparr>)\<rparr>"

text \<open>Recording: the first unused entry takes the flag; a full history drops it.\<close>

definition hist_add :: "int \<Rightarrow> int list \<Rightarrow> int list" where
  "hist_add f h = (case first_idx (\<lambda>i. h ! i = 0) RCS_HIST of None \<Rightarrow> h | Some i \<Rightarrow> h[i := f])"

text \<open>Removing: clear the last entry with the flag, then close the gap.\<close>

definition hist_clear_last :: "int \<Rightarrow> int list \<Rightarrow> int list" where
  "hist_clear_last f h =
     (case find (\<lambda>i. h ! i = f) (rev [0..<RCS_HIST]) of None \<Rightarrow> h | Some i \<Rightarrow> h[i := 0])"

function hist_shift :: "nat \<Rightarrow> int list \<Rightarrow> nat \<times> int list" where
  "hist_shift i h =
     (if i < RCS_HIST - 1 then
        if h ! i = 0 then
          if h ! (i + 1) = 0 then (i, h)
          else hist_shift (i + 1) (h[i := h ! (i + 1), i + 1 := 0])
        else hist_shift (i + 1) h
      else (i, h))"
  by pat_completeness auto
termination
  by (relation "measure (\<lambda>(i, h). RCS_HIST - i)") auto

declare hist_shift.simps [simp del]

definition hist_del :: "int \<Rightarrow> int list \<Rightarrow> int list" where
  "hist_del f h = (let (i, h') = hist_shift 0 (hist_clear_last f h) in h'[i := 0])"

definition add_rcs_history :: "nat \<Rightarrow> int \<Rightarrow> 'a rlstate_scheme \<Rightarrow> 'a rlstate_scheme res" where
  "add_rcs_history p f s = (case rcs_find p s of
      None \<Rightarrow> Inl (Panic ''add_rcs_history: No corresponding R.C.S info history'')
    | Some i \<Rightarrow> Inr (set_hist i (hist_add f (hist (rcs_infos s i))) s))"

definition del_rcs_history :: "nat \<Rightarrow> int \<Rightarrow> 'a rlstate_scheme \<Rightarrow> 'a rlstate_scheme res" where
  "del_rcs_history p f s = (case rcs_find p s of
      None \<Rightarrow> Inl (Panic ''del_rcs_history: No corresponding R.C.S info history'')
    | Some i \<Rightarrow> Inr (set_hist i (hist_del f (hist (rcs_infos s i))) s))"

definition free_rcs_history :: "nat \<Rightarrow> 'a rlstate_scheme \<Rightarrow> 'a rlstate_scheme" where
  "free_rcs_history p s = (case rcs_find p s of
      None \<Rightarrow> s
    | Some i \<Rightarrow> s\<lparr>rcs_infos := (rcs_infos s)
        (i := (rcs_infos s i)\<lparr>hist := replicate RCS_HIST 0, rpid := 0\<rparr>)\<rparr>)"

definition search_rcs_history :: "nat \<Rightarrow> int \<Rightarrow> 'a rlstate_scheme \<Rightarrow> bool res" where
  "search_rcs_history p f s = (case rcs_find p s of
      None \<Rightarrow> Inl (Panic ''search_rcs_history: No corresponding R.C.S info history'')
    | Some i \<Rightarrow> Inr (f \<in> set (hist (rcs_infos s i))))"

section \<open>Entering and leaving a recovery critical section\<close>

definition bad_flag :: "int \<Rightarrow> bool" where
  "bad_flag f \<longleftrightarrow> f < 0 \<or> RL_FLAG_MAX < f"

text \<open>Waiting for the recovery process, then counting oneself in.\<close>

definition rl_count_in :: "int \<Rightarrow> int \<Rightarrow> 'a rlstate_scheme \<Rightarrow> 'a rlstate_scheme res" where
  "rl_count_in f exc s = (let n = nat f in
     bindE (acquire (LkRecLk n) s) (\<lambda>s.
     bindE (locking (LkRec n) s) (\<lambda>(l, s).
       if l then
         if exc = ICACHE_FORK then Inl (Panic ''Avoids deadlock occurrence'')
         else sleep (ChRec n) (LkRecLk n) s
       else release (LkRecLk n) (s\<lparr>rl_num := (rl_num s)(n := rl_num s n + 1),
              rl_exc := (if exc \<noteq> 0 then (rl_exc s)(n := exc) else rl_exc s)\<rparr>))))"

definition enter_recovery_critical_section ::
  "int \<Rightarrow> int \<Rightarrow> 'a rlstate_scheme \<Rightarrow> 'a rlstate_scheme res" where
  "enter_recovery_critical_section f exc s =
     (if bad_flag f then
        Inl (Panic ''enter_recovery_critical_section: Invalid recovery-locking flag.'')
      else if noff s (hart s) < 0 then
        Inl (Panic ''enter_recovery_critical_section: Invalid push_off() nesting value (noff).'')
      else if RL_NFLAGS \<le> f then Inl Trap
      else bindE (holding (LkRec (nat f)) s) (\<lambda>(h, s).
        bindE (if \<not> h then rl_count_in f exc s else Inr s) (\<lambda>s.
        bindE (myproc s) (\<lambda>(mp, s). case mp of
            None \<Rightarrow> Inr s
          | Some p \<Rightarrow> add_rcs_history (pid (procs s p)) f s))))"

definition enter_recovery_critical_section_nodes ::
  "int \<Rightarrow> nat \<Rightarrow> 'a rlstate_scheme \<Rightarrow> 'a rlstate_scheme res" where
  "enter_recovery_critical_section_nodes f addr s =
     (let flag = search_recovery_idx f addr s in
      if flag < 0 then Inl (Panic ''Invalid flag passed'')
      else if RL_NFLAGS \<le> flag then Inl Trap
      else bindE (locking (LkRec (nat flag)) s) (\<lambda>(l, s).
        bindE (if l then holding (LkRec (nat flag)) s else Inr (True, s)) (\<lambda>(h, s).
          if l \<and> \<not> h then
            Inl (Panic ''Try to enter broken node's Recovery Critical Section'')
          else enter_recovery_critical_section flag 0 s)))"

definition exit_recovery_critical_section ::
  "int \<Rightarrow> int \<Rightarrow> 'a rlstate_scheme \<Rightarrow> 'a rlstate_scheme res" where
  "exit_recovery_critical_section f exc s =
     (if bad_flag f then
        Inl (Panic ''exit_recovery_critical_section: Invalid recovery-locking flag.'')
      else if noff s (hart s) < 0 then
        Inl (Panic ''enter_recovery_critical_section: Invalid push_off() nesting value (noff).'')
      else if RL_NFLAGS \<le> f then Inl Trap
      else let n = nat f in
        bindE (acquire (LkRecLk n) s) (\<lambda>s.
        bindE (release (LkRecLk n) (s\<lparr>rl_num := (rl_num s)(n := rl_num s n - 1),
                 rl_exc := (if rl_exc s n = exc then (rl_exc s)(n := 0) else rl_exc s)\<rparr>)) (\<lambda>s.
        bindE (myproc s) (\<lambda>(mp, s). case mp of
            None \<Rightarrow> Inr s
          | Some p \<Rightarrow> del_rcs_history (pid (procs s p)) f s))))"

definition exit_recovery_critical_section_nodes ::
  "int \<Rightarrow> nat \<Rightarrow> 'a rlstate_scheme \<Rightarrow> 'a rlstate_scheme res" where
  "exit_recovery_critical_section_nodes f addr s =
     (let flag = search_recovery_idx f addr s in
      if bad_flag flag then
        Inl (Panic ''exit_recovery_critical_section_nodes: Invalid recovery-locking flag.'')
      else exit_recovery_critical_section flag 0 s)"

text \<open>Leaving every recorded section; unused entries (flag 0) are not skipped.\<close>

definition exit_all_one :: "nat \<Rightarrow> nat \<Rightarrow> 'a rlstate_scheme \<Rightarrow> 'a rlstate_scheme res" where
  "exit_all_one idx i s =
     (let h = hist (rcs_infos s idx); n = nat (h ! i) in
      bindE (acquire (LkRecLk n) s) (\<lambda>s.
      bindE (release (LkRecLk n) (s\<lparr>rl_num := (rl_num s)(n := rl_num s n - 1)\<rparr>)) (\<lambda>s.
      Inr (set_hist idx (h[i := 0]) s))))"

definition exit_recovery_critical_section_all :: "nat \<Rightarrow> 'a rlstate_scheme \<Rightarrow> 'a rlstate_scheme res" where
  "exit_recovery_critical_section_all p s = (case rcs_find p s of
      None \<Rightarrow> Inl (Panic
        ''exit_recovery_critical_section_all: No corresponding R.C.S nesting history'')
    | Some idx \<Rightarrow> foldE (exit_all_one idx) [0..<RCS_HIST] s)"

definition exit_rcs_after_recovery :: "nat \<Rightarrow> int \<Rightarrow> 'a rlstate_scheme \<Rightarrow> 'a rlstate_scheme res" where
  "exit_rcs_after_recovery p intr s =
     (if intr = CONSINTR_CONS then exit_recovery_critical_section RL_CONS 0 s
      else if intr = CONSINTR_PR then
        bindE (exit_recovery_critical_section RL_PR 0 s) (exit_recovery_critical_section RL_CONS 0)
      else if intr = CLCKINTR_TICKSLOCK then Inr s
      else exit_recovery_critical_section_all p s)"

section \<open>Recovery locks\<close>

definition acquire_recovery_lock :: "int \<Rightarrow> 'a rlstate_scheme \<Rightarrow> 'a rlstate_scheme res" where
  "acquire_recovery_lock f s =
     (if bad_flag f then Inl (Panic ''Invalid recovery_locks flag'')
      else if RL_NFLAGS \<le> f then Inl Trap
      else acquire (LkRec (nat f)) s)"

definition release_recovery_lock :: "int \<Rightarrow> 'a rlstate_scheme \<Rightarrow> 'a rlstate_scheme res" where
  "release_recovery_lock f s =
     (if bad_flag f then Inl (Panic ''Invalid recovery_locks flag'')
      else if RL_NFLAGS \<le> f then Inl Trap
      else bindE (release (LkRec (nat f)) s) (wakeup (ChRec (nat f))))"

text \<open>
  The three \<open>acquire_recovery_lock_*\<close> and the three \<open>release_recovery_lock_*\<close>: the
  giant section of the table first, then the section of the node.
\<close>

definition acquire_giant_and_node :: "int \<Rightarrow> int \<Rightarrow> nat \<Rightarrow> 'a rlstate_scheme \<Rightarrow> 'a rlstate_scheme res" where
  "acquire_giant_and_node giant f addr s =
     (let flag = search_recovery_idx f addr s in
      if bad_flag flag then Inl (Panic ''Invalid recovery-locking flag'')
      else bindE (acquire_recovery_lock giant s) (acquire_recovery_lock flag))"

definition acquire_recovery_lock_buf :: "nat \<Rightarrow> 'a rlstate_scheme \<Rightarrow> 'a rlstate_scheme res" where
  "acquire_recovery_lock_buf b = acquire_giant_and_node RL_BCACHE RL_BUF b"

definition acquire_recovery_lock_file :: "nat \<Rightarrow> 'a rlstate_scheme \<Rightarrow> 'a rlstate_scheme res" where
  "acquire_recovery_lock_file f = acquire_giant_and_node RL_FTABLE RL_FILE f"

definition acquire_recovery_lock_inode :: "nat \<Rightarrow> 'a rlstate_scheme \<Rightarrow> 'a rlstate_scheme res" where
  "acquire_recovery_lock_inode ip = acquire_giant_and_node RL_ICACHE RL_INODE ip"

definition update_recovery_lock_idx ::
  "int \<Rightarrow> nat \<Rightarrow> nat \<Rightarrow> 'a rlstate_scheme \<Rightarrow> 'a rlstate_scheme" where
  "update_recovery_lock_idx f broken new s =
     (if f = RL_BUF then s\<lparr>buf_idx := (\<lambda>i. if i < NBUF \<and> iaddr (buf_idx s i) = broken
          then (buf_idx s i)\<lparr>iaddr := new\<rparr> else buf_idx s i)\<rparr>
      else if f = RL_FILE then s\<lparr>file_idx := (\<lambda>i. if i < NFILE
          then (file_idx s i)\<lparr>iaddr := file_at (ftable_at s) i\<rparr> else file_idx s i)\<rparr>
      else if f = RL_INODE then s\<lparr>inode_idx := (\<lambda>i. if i < NINODE
          then (inode_idx s i)\<lparr>iaddr := inode_at (icache_at s) i\<rparr> else inode_idx s i)\<rparr>
      else s)"

definition release_giant_and_node :: "int \<Rightarrow> int \<Rightarrow> nat \<Rightarrow> bool \<Rightarrow> string \<Rightarrow>
    'a rlstate_scheme \<Rightarrow> 'a rlstate_scheme res" where
  "release_giant_and_node giant f addr upd msg s =
     (let old = search_recovery_idx f addr s in
      if bad_flag old then Inl (Panic msg)
      else bindE (release_recovery_lock giant (if upd then update_recovery_lock_idx f 0 0 s else s))
             (release_recovery_lock old))"

definition release_recovery_lock_buf :: "nat \<Rightarrow> 'a rlstate_scheme \<Rightarrow> 'a rlstate_scheme res" where
  "release_recovery_lock_buf b =
     release_giant_and_node RL_BCACHE RL_BUF b False ''Invalid recovery-locking flag''"

definition release_recovery_lock_file :: "nat \<Rightarrow> 'a rlstate_scheme \<Rightarrow> 'a rlstate_scheme res" where
  "release_recovery_lock_file f =
     release_giant_and_node RL_FTABLE RL_FILE f True ''Invalid recovery-locking index''"

definition release_recovery_lock_inode :: "nat \<Rightarrow> 'a rlstate_scheme \<Rightarrow> 'a rlstate_scheme res" where
  "release_recovery_lock_inode ip =
     release_giant_and_node RL_ICACHE RL_INODE ip True ''Invalid recovery-locking flag''"

section \<open>Checks of the sections by recovery handlers\<close>

definition check_and_count_procs_in_rcs :: "int \<Rightarrow> nat \<Rightarrow> 'a rlstate_scheme \<Rightarrow> int res" where
  "check_and_count_procs_in_rcs f addr s =
     (if bad_flag f then Inl (Panic ''Invalid recovery-locking flag'')
      else let g = (if RL_BUF \<le> f \<and> addr \<noteq> 0 then search_recovery_idx f addr s else f) in
        if g < 0 \<or> RL_NFLAGS \<le> g then Inl Trap else Inr (rl_num s (nat g)))"

text \<open>
  A sleeping process's channel is read as a sleep lock. For any other channel the field at
  that offset is whatever lies in memory there, a parameter (\<open>stray\<close>).
\<close>

definition chan_pid :: "(chan option \<Rightarrow> nat) \<Rightarrow> chan option \<Rightarrow> 'a sched_scheme \<Rightarrow> nat" where
  "chan_pid stray c s = (case c of Some (ChSleep n) \<Rightarrow> spid (slocks s n) | _ \<Rightarrow> stray c)"

definition waiting_rcs_icache_one ::
  "(chan option \<Rightarrow> nat) \<Rightarrow> nat \<Rightarrow> 'a rlstate_scheme \<Rightarrow> nat \<Rightarrow> bool" where
  "waiting_rcs_icache_one stray p s i =
     (if pstate (procs s i) = SLEEPING \<and> chan (procs s i) = Some (ChRec (nat RL_ICACHE)) then
        list_ex (\<lambda>j. pstate (procs s j) = SLEEPING \<and>
          chan_pid stray (chan (procs s j)) s = pid (procs s i)) [0..<NPROC]
      else pstate (procs s i) = SLEEPING \<and> chan_pid stray (chan (procs s i)) s = p)"

definition check_proc_waiting_rcs_icache ::
  "(chan option \<Rightarrow> nat) \<Rightarrow> nat \<Rightarrow> 'a rlstate_scheme \<Rightarrow> bool" where
  "check_proc_waiting_rcs_icache stray p s = list_ex (waiting_rcs_icache_one stray p s) [0..<NPROC]"

definition check_proc_in_target_rcs :: "nat \<Rightarrow> int \<Rightarrow> 'a rlstate_scheme \<Rightarrow> bool res" where
  "check_proc_in_target_rcs p f s = (case rcs_find p s of
      None \<Rightarrow> Inl (Panic ''check_proc_in_target_rcs: No corresponding R.C.S info history'')
    | Some i \<Rightarrow> Inr (f \<in> set (hist (rcs_infos s i))))"

definition waiting_one :: "(nat \<Rightarrow> nmi_info) \<Rightarrow> int \<Rightarrow> 'a rlstate_scheme \<Rightarrow> nat \<Rightarrow> int \<Rightarrow> int res" where
  "waiting_one q f s i np =
     (if naddr (q i) = 0 then Inr np
      else bindE (check_proc_in_target_rcs (npid (q i)) f s)
             (\<lambda>b. Inr (if b then np + 1 else np)))"

definition check_waiting_procs_in_nmi_queue :: "int \<Rightarrow> 'a rlstate_scheme \<Rightarrow> int res" where
  "check_waiting_procs_in_nmi_queue f s = (case nmi_queue s of
      None \<Rightarrow> Inl (Panic ''check_waiting_procs_in_nmi_queue: The NMI Queue is not valid'')
    | Some q \<Rightarrow> foldE (waiting_one q f s) [0..<NMI_QUEUE_SIZE] 0)"

definition check_and_release :: "lockid \<Rightarrow> 'a mach_scheme \<Rightarrow> 'a mach_scheme res" where
  "check_and_release lk s =
     bindE (holding lk s) (\<lambda>(h, s). if h then release lk s else Inr s)"

definition check_and_acquire :: "lockid \<Rightarrow> 'a mach_scheme \<Rightarrow> 'a mach_scheme res" where
  "check_and_acquire lk s =
     bindE (holding lk s) (\<lambda>(h, s). if h then Inr s else acquire lk s)"

definition check_and_wait_procs_in_rcs_file ::
  "nat \<Rightarrow> nat \<Rightarrow> 'a rlstate_scheme \<Rightarrow> (int \<times> 'a rlstate_scheme) res" where
  "check_and_wait_procs_in_rcs_file f ip s =
     bindE (check_and_release LkFtable s) (\<lambda>s.
     bindE (check_and_count_procs_in_rcs RL_FILE f s) (\<lambda>nf.
     bindE (if nf > 1 \<or> ip = 0 then Inr 0 else check_and_count_procs_in_rcs RL_INODE ip s) (\<lambda>ni.
       if nf > 1 \<or> ni > 1 then Inr (FAIL_STOP, s)
       else bindE (check_and_count_procs_in_rcs RL_FTABLE 0 s) (\<lambda>n.
            bindE (check_waiting_procs_in_nmi_queue RL_FTABLE s) (\<lambda>w.
              if n - w = 0 then Inr (0, s) else Inl Blocked)))))"

definition check_and_wait_procs_in_rcs_inode ::
  "(chan option \<Rightarrow> nat) \<Rightarrow> nat \<Rightarrow> nat \<Rightarrow> nat \<Rightarrow> 'a rlstate_scheme \<Rightarrow> (int \<times> 'a rlstate_scheme) res" where
  "check_and_wait_procs_in_rcs_inode stray ip f p s =
     bindE (check_and_release LkIcache s) (\<lambda>s.
     bindE (check_and_count_procs_in_rcs RL_INODE ip s) (\<lambda>ni.
     bindE (if ni > 1 then Inr 0 else check_and_count_procs_in_rcs RL_FILE f s) (\<lambda>nf.
       if ni > 1 \<or> nf > 1 then Inr (FAIL_STOP, s)
       else if check_proc_waiting_rcs_icache stray p s then
         Inl (Panic ''Fail-Stop: broken inode can't be replaced safely.'')
       else bindE (check_and_count_procs_in_rcs RL_ICACHE 0 s) (\<lambda>n.
            bindE (check_waiting_procs_in_nmi_queue RL_ICACHE s) (\<lambda>w.
              if n - w = 0 then Inr (0, s) else Inl Blocked)))))"

definition check_proc_in_log_commit :: "int \<Rightarrow> 'a rlstate_scheme \<Rightarrow> (bool \<times> 'a rlstate_scheme) res" where
  "check_proc_in_log_commit p s = (let n = nat RL_LOG in
     if rl_exc s n = p then
       bindE (acquire (LkRecLk n) s) (\<lambda>s.
       bindE (release (LkRecLk n) (s\<lparr>rl_exc := (rl_exc s)(n := 0)\<rparr>)) (\<lambda>s. Inr (False, s)))
     else if rl_num s n \<ge> 0 then Inr (rl_exc s n \<noteq> 0 \<and> LOG_COMMIT \<noteq> 0, s)
     else Inl (Panic ''Invalid Recovery-Locking process count''))"

end
