(* ===== verification/Sections.thy ===== *)
theory Sections
  imports RecoveryLocking
begin

text \<open>
  Correctness of the recovery critical sections of \<open>kernel/recovery_locking.c\<close>: the
  history as a bounded stack, nested sections as a contract (\<open>nested_sections\<close>) that the
  kernel's routines satisfy, exclusion by the recovery locks, and the object index.
\<close>

section \<open>The history as a stack\<close>

definition hist_abs :: "int list \<Rightarrow> int list" where
  "hist_abs h = takeWhile (\<lambda>f. f \<noteq> 0) h"

definition hist_ok :: "int list \<Rightarrow> bool" where
  "hist_ok h \<longleftrightarrow> length h = RCS_HIST \<and> (\<forall>i j. i < j \<and> j < RCS_HIST \<and> h ! i = 0 \<longrightarrow> h ! j = 0)"

definition remove_last :: "'a \<Rightarrow> 'a list \<Rightarrow> 'a list" where
  "remove_last f xs = rev (remove1 f (rev xs))"

lemma upt5: "[0..<RCS_HIST] = [0,1,2,3,4]" by (simp add: upt_rec)

lemma length5: "length h = RCS_HIST \<Longrightarrow> \<exists>a b c d e. h = [a,b,c,d,e]"
  by (auto simp: length_Suc_conv numeral_eq_Suc)

lemma hist_ok_append:
  assumes "length xs \<le> RCS_HIST" and "0 \<notin> set xs"
  shows "hist_ok (xs @ replicate (RCS_HIST - length xs) 0)"
  using assms by (auto simp: hist_ok_def nth_append dest: nth_mem)

lemma hist_okE:
  assumes "hist_ok h"
  obtains "h = [0,0,0,0,0]" | a where "h = [a,0,0,0,0]" "a \<noteq> 0"
    | a b where "h = [a,b,0,0,0]" "a \<noteq> 0" "b \<noteq> 0"
    | a b c where "h = [a,b,c,0,0]" "a \<noteq> 0" "b \<noteq> 0" "c \<noteq> 0"
    | a b c d where "h = [a,b,c,d,0]" "a \<noteq> 0" "b \<noteq> 0" "c \<noteq> 0" "d \<noteq> 0"
    | a b c d e where "h = [a,b,c,d,e]" "a \<noteq> 0" "b \<noteq> 0" "c \<noteq> 0" "d \<noteq> 0" "e \<noteq> 0"
proof -
  from assms have len: "length h = RCS_HIST"
    and z: "\<And>i j. i < j \<Longrightarrow> j < RCS_HIST \<Longrightarrow> h ! i = 0 \<Longrightarrow> h ! j = 0"
    unfolding hist_ok_def by blast+
  from length5 [OF len] obtain a b c d e where h: "h = [a,b,c,d,e]" by blast
  have "a = 0 \<longrightarrow> b = 0" "b = 0 \<longrightarrow> c = 0" "c = 0 \<longrightarrow> d = 0" "d = 0 \<longrightarrow> e = 0"
    using z [of 0 1] z [of 1 2] z [of 2 3] z [of 3 4] by (simp_all add: h)
  then show thesis using that h by blast
qed

lemma hist_add_5: "hist_add f [a,b,c,d,e] =
  (if a = 0 then [f,b,c,d,e] else if b = 0 then [a,f,c,d,e] else if c = 0 then [a,b,f,d,e]
   else if d = 0 then [a,b,c,f,e] else if e = 0 then [a,b,c,d,f] else [a,b,c,d,e])"
  by (simp add: hist_add_def first_idx_def upt5)

lemma hist_clear_5: "hist_clear_last f [a,b,c,d,e] =
  (if e = f then [a,b,c,d,0] else if d = f then [a,b,c,0,e] else if c = f then [a,b,0,d,e]
   else if b = f then [a,0,c,d,e] else if a = f then [0,b,c,d,e] else [a,b,c,d,e])"
  by (simp add: hist_clear_last_def upt5)

lemma hist_shift_5: "hist_shift 0 [a,b,c,d,e] = 
  (if a = 0 then
     if b = 0 then (0,[a,b,c,d,e])
     else if c = 0 then (1, [b,0,c,d,e])
     else if d = 0 then (2, [b,c,0,d,e])
     else if e = 0 then (3, [b,c,d,0,e]) else (4,[b,c,d,e,0])
   else if b = 0 then
     if c = 0 then (1,[a,b,c,d,e]) else if d = 0 then (2, [a,c,0,d,e])
     else if e = 0 then (3, [a,c,d,0,e]) else (4, [a,c,d,e,0])
   else if c = 0 then if d = 0 then (2,[a,b,c,d,e]) else if e = 0 then (3,[a,b,d,0,e]) else (4,[a,b,d,e,0])
   else if d = 0 then if e = 0 then (3, [a,b,c,d,e]) else (4,[a,b,c,e,0])
   else (4,[a,b,c,d,e]))"
  by (simp add: hist_shift.simps [of 0] hist_shift.simps [of 1] hist_shift.simps [of "Suc 0"] hist_shift.simps [of 2] hist_shift.simps [of 3] hist_shift.simps [of 4] hist_shift.simps [of "Suc (Suc 0)"] hist_shift.simps [of "Suc (Suc (Suc 0))"]
      hist_shift.simps [of "Suc (Suc (Suc (Suc 0)))"] eval_nat_numeral)

lemma hist_ok_5:
  "hist_ok [0,0,0,0,0]" "a \<noteq> 0 \<Longrightarrow> hist_ok [a,0,0,0,0]"
  "a \<noteq> 0 \<Longrightarrow> b \<noteq> 0 \<Longrightarrow> hist_ok [a,b,0,0,0]"
  "a \<noteq> 0 \<Longrightarrow> b \<noteq> 0 \<Longrightarrow> c \<noteq> 0 \<Longrightarrow> hist_ok [a,b,c,0,0]"
  "a \<noteq> 0 \<Longrightarrow> b \<noteq> 0 \<Longrightarrow> c \<noteq> 0 \<Longrightarrow> d \<noteq> 0 \<Longrightarrow> hist_ok [a,b,c,d,0]"
  "a \<noteq> 0 \<Longrightarrow> b \<noteq> 0 \<Longrightarrow> c \<noteq> 0 \<Longrightarrow> d \<noteq> 0 \<Longrightarrow> e \<noteq> 0 \<Longrightarrow> hist_ok [a,b,c,d,e]"
  using hist_ok_append [of "[]"] hist_ok_append [of "[a]"] hist_ok_append [of "[a,b]"]
    hist_ok_append [of "[a,b,c]"] hist_ok_append [of "[a,b,c,d]"] hist_ok_append [of "[a,b,c,d,e]"]
  by (simp_all add: eval_nat_numeral)

lemma hist_del_present:
  assumes "hist_ok h" and "f \<in> set (hist_abs h)"
  shows "hist_ok (hist_del f h) \<and> hist_abs (hist_del f h) = remove_last f (hist_abs h)"
proof -
  from assms(2) have f: "f \<noteq> 0" by (auto simp: hist_abs_def dest: set_takeWhileD)
  from assms(1) show ?thesis
    by (cases rule: hist_okE)
      (use assms(2) f in \<open>auto simp: hist_del_def hist_clear_5 hist_shift_5 hist_abs_def
        remove_last_def hist_ok_5\<close>)
qed

lemma hist_add_room:
  assumes "hist_ok h" and "f \<noteq> 0"
  shows "hist_ok (hist_add f h) \<and> hist_abs (hist_add f h) =
    (if length (hist_abs h) < RCS_HIST then hist_abs h @ [f] else hist_abs h)"
  using assms(1)
  by (cases rule: hist_okE)
    (use assms(2) in \<open>simp_all add: hist_add_5 hist_abs_def hist_ok_5\<close>)

lemma hist_del_absent:
  assumes "hist_ok h" and "f \<notin> set h" and "f \<noteq> 0"
  shows "hist_ok (hist_del f h) \<and> hist_abs (hist_del f h) =
    (if length (hist_abs h) < RCS_HIST then hist_abs h else butlast (hist_abs h))"
  using assms(1)
  by (cases rule: hist_okE)
    (use assms(2,3) in \<open>auto simp: hist_del_def hist_clear_5 hist_shift_5 hist_abs_def hist_ok_5\<close>)

lemma set_hist_abs: "hist_ok h \<Longrightarrow> set (hist_abs h) = set h - {0}"
  by (erule hist_okE) (auto simp: hist_abs_def)

lemma hist_abs_inject:
  assumes "hist_ok h" and "hist_ok h'" and "hist_abs h = hist_abs h'"
  shows "h = h'"
  using assms(1)
  by (cases rule: hist_okE; use assms(2) in \<open>cases rule: hist_okE\<close>)
    (use assms(3) in \<open>simp_all add: hist_abs_def\<close>)

lemma count_list_rev: "count_list (rev xs) g = count_list xs g"
  by (induction xs) auto

lemma count_list_remove1:
  "count_list (remove1 f xs) g = (if f = g then count_list xs g - 1 else count_list xs g)"
  by (induction xs) auto

lemma count_list_remove_last:
  "count_list (remove_last f xs) g = (if f = g then count_list xs g - 1 else count_list xs g)"
  by (simp add: remove_last_def count_list_rev count_list_remove1)

lemma remove_last_snoc [simp]: "remove_last f (xs @ [f]) = xs"
  by (simp add: remove_last_def)

lemma hist_del_add:
  assumes "hist_ok h" and "f \<noteq> 0" and "length (hist_abs h) < RCS_HIST"
  shows "hist_del f (hist_add f h) = h"
proof -
  have ok: "hist_ok (hist_add f h)" and abs: "hist_abs (hist_add f h) = hist_abs h @ [f]"
    using hist_add_room [OF assms(1,2)] assms(3) by simp_all
  have "hist_ok (hist_del f (hist_add f h)) \<and> hist_abs (hist_del f (hist_add f h)) = hist_abs h"
    using hist_del_present [OF ok, of f] abs by simp
  then show ?thesis using hist_abs_inject assms(1) by blast
qed

lemma rl_update_taken [simp]:
  "rl_num_update g (taken lk s) = taken lk (rl_num_update g s)"
  "rl_exc_update g (taken lk s) = taken lk (rl_exc_update g s)"
  "rcs_infos_update r (taken lk s) = taken lk (rcs_infos_update r s)"
  "rl_num_update g (saved s) = saved (rl_num_update g s)"
  "rl_exc_update g (saved s) = saved (rl_exc_update g s)"
  "rcs_infos_update r (saved s) = saved (rcs_infos_update r s)"
  by (simp_all add: taken_def saved_def)

lemma rl_sel_taken [simp]:
  "rl_num (taken lk s) = rl_num s" "rl_exc (taken lk s) = rl_exc s"
  "rcs_infos (taken lk s) = rcs_infos s" "rl_num (saved s) = rl_num s"
  "rl_exc (saved s) = rl_exc s" "rcs_infos (saved s) = rcs_infos s"
  "rl_num (dropped lk s) = rl_num s" "rl_exc (dropped lk s) = rl_exc s"
  "rcs_infos (dropped lk s) = rcs_infos s"
  by (simp_all add: taken_def saved_def dropped_def)

lemma rl_update_free [simp]:
  "cpu_ok (rl_num_update g s) = cpu_ok s" "cpu_ok (rl_exc_update g s) = cpu_ok s"
  "cpu_ok (rcs_infos_update r s) = cpu_ok s"
  "free_lock lk (rl_num_update g s) = free_lock lk s"
  "free_lock lk (rl_exc_update g s) = free_lock lk s"
  "free_lock lk (rcs_infos_update r s) = free_lock lk s"
  "holds lk (rl_num_update g s) = holds lk s" "holds lk (rl_exc_update g s) = holds lk s"
  "holds lk (rcs_infos_update r s) = holds lk s"
  "curproc (rl_num_update g s) = curproc s" "curproc (rl_exc_update g s) = curproc s"
  "curproc (rcs_infos_update r s) = curproc s"
  by (simp_all add: cpu_ok_def free_lock_def holds_def curproc_def)

text \<open>The state in which a process works with its sections.\<close>

definition counted :: "int \<Rightarrow> int \<Rightarrow> 'a rlstate_scheme \<Rightarrow> 'a rlstate_scheme" where
  "counted f exc s = s\<lparr>rl_num := (rl_num s)(nat f := rl_num s (nat f) + 1),
     rl_exc := (if exc \<noteq> 0 then (rl_exc s)(nat f := exc) else rl_exc s)\<rparr>"

definition uncounted :: "int \<Rightarrow> int \<Rightarrow> 'a rlstate_scheme \<Rightarrow> 'a rlstate_scheme" where
  "uncounted f exc s = s\<lparr>rl_num := (rl_num s)(nat f := rl_num s (nat f) - 1),
     rl_exc := (if rl_exc s (nat f) = exc then (rl_exc s)(nat f := 0) else rl_exc s)\<rparr>"

definition real_flag :: "int \<Rightarrow> bool" where
  "real_flag f \<longleftrightarrow> 0 < f \<and> f < RL_NFLAGS"

lemma enter_ok:
  assumes "cpu_ok s" and "0 \<le> f" and "f < RL_NFLAGS"
    and "free_lock (LkRecLk (nat f)) s" and "free_lock (LkRec (nat f)) s"
    and "curproc s = Some p" and "rcs_find (pid (procs s p)) s = Some i"
  shows "enter_recovery_critical_section f exc s =
    Inr (saved (set_hist i (hist_add f (hist (rcs_infos s i))) (counted f exc s)))"
  using assms
  by (simp add: enter_recovery_critical_section_def rl_count_in_def Let_def bad_flag_def
      lock_simps add_rcs_history_def rcs_find_def set_hist_def counted_def free_lock_def
      cpu_ok_def holds_def)

lemma exit_ok:
  assumes "cpu_ok s" and "0 \<le> f" and "f < RL_NFLAGS"
    and "free_lock (LkRecLk (nat f)) s"
    and "curproc s = Some p" and "rcs_find (pid (procs s p)) s = Some i"
  shows "exit_recovery_critical_section f exc s =
    Inr (saved (set_hist i (hist_del f (hist (rcs_infos s i))) (uncounted f exc s)))"
  using assms
  by (simp add: exit_recovery_critical_section_def Let_def bad_flag_def
      lock_simps del_rcs_history_def rcs_find_def set_hist_def uncounted_def
      cpu_ok_def)

definition rcs_ready :: "nat \<Rightarrow> nat \<Rightarrow> 'a rlstate_scheme \<Rightarrow> bool" where
  "rcs_ready p i s \<longleftrightarrow> cpu_ok s \<and> (\<forall>n. free_lock (LkRecLk n) s \<and> free_lock (LkRec n) s) \<and>
     curproc s = Some p \<and> rcs_find (pid (procs s p)) s = Some i \<and> hist_ok (hist (rcs_infos s i))"

definition open_sections :: "nat \<Rightarrow> 'a rlstate_scheme \<Rightarrow> int list" where
  "open_sections i s = hist_abs (hist (rcs_infos s i))"

lemma rcs_find_set_hist [simp]: "rcs_find q (set_hist i h s) = rcs_find q s"
  by (simp add: rcs_find_def set_hist_def) (metis (mono_tags, lifting) fun_upd_apply rcs_info.select_convs(1) rcs_info.surjective rcs_info.update_convs(2))

lemma rcs_find_saved [simp]: "rcs_find q (saved s) = rcs_find q s"
  "rcs_find q (counted f e s) = rcs_find q s" "rcs_find q (uncounted f e s) = rcs_find q s"
  by (simp_all add: rcs_find_def counted_def uncounted_def)

lemma counted_sel [simp]:
  "rl_num (counted f e s) = (rl_num s)(nat f := rl_num s (nat f) + 1)"
  "rcs_infos (counted f e s) = rcs_infos s" "procs (counted f e s) = procs s"
  "curproc (counted f e s) = curproc s" "cpu_ok (counted f e s) = cpu_ok s"
  "free_lock lk (counted f e s) = free_lock lk s"
  "rl_num (uncounted f e s) = (rl_num s)(nat f := rl_num s (nat f) - 1)"
  "rcs_infos (uncounted f e s) = rcs_infos s" "procs (uncounted f e s) = procs s"
  "curproc (uncounted f e s) = curproc s" "cpu_ok (uncounted f e s) = cpu_ok s"
  "free_lock lk (uncounted f e s) = free_lock lk s"
  by (auto simp: counted_def uncounted_def)

lemma set_hist_sel [simp]:
  "rl_num (set_hist i h s) = rl_num s" "rl_exc (set_hist i h s) = rl_exc s"
  "procs (set_hist i h s) = procs s"
  "curproc (set_hist i h s) = curproc s" "cpu_ok (set_hist i h s) = cpu_ok s"
  "free_lock lk (set_hist i h s) = free_lock lk s"
  "rpid (rcs_infos (set_hist i h s) j) = rpid (rcs_infos s j)"
  "hist (rcs_infos (set_hist i h s) j) = (if j = i then h else hist (rcs_infos s j))"
  by (auto simp: set_hist_def)

lemma rcs_ready_enter:
  assumes "rcs_ready p i s" and "real_flag f" and "length (open_sections i s) < RCS_HIST"
  shows "\<exists>t. enter_recovery_critical_section f 0 s = Inr t \<and> rcs_ready p i t \<and>
    open_sections i t = open_sections i s @ [f] \<and>
    (\<lambda>g. rl_num t (nat g)) = (\<lambda>g. rl_num s (nat g))(f := rl_num s (nat f) + 1)"
  using assms enter_ok [of s f p i 0] hist_add_room [of "hist (rcs_infos s i)" f]
  by (simp add: rcs_ready_def open_sections_def real_flag_def) (auto simp: fun_eq_iff)

text \<open>
  The contract of nested sections: entering appends to the record of the process and adds one
  to the count of the section; leaving removes the last such entry and takes one off.
\<close>

datatype 'f sect = Enter 'f | Leave 'f

text \<open>Properly bracketed sequences of sections, nested at most \<open>d\<close> deep.\<close>

inductive bracketed :: "('f \<Rightarrow> bool) \<Rightarrow> nat \<Rightarrow> 'f sect list \<Rightarrow> bool" for valid where
  bnil: "bracketed valid d []"
| bapp: "bracketed valid d xs \<Longrightarrow> bracketed valid d ys \<Longrightarrow> bracketed valid d (xs @ ys)"
| bsec: "bracketed valid d xs \<Longrightarrow> valid f \<Longrightarrow> bracketed valid (Suc d) (Enter f # xs @ [Leave f])"

inductive_cases bracketed_0E: "bracketed valid 0 xs"

fun sect_op :: "('f \<Rightarrow> 's \<Rightarrow> 's res) \<Rightarrow> ('f \<Rightarrow> 's \<Rightarrow> 's res) \<Rightarrow> 'f sect \<Rightarrow> 's \<Rightarrow> 's res" where
  "sect_op enter leave (Enter f) = enter f"
| "sect_op enter leave (Leave f) = leave f"

locale nested_sections =
  fixes enter leave :: "'f \<Rightarrow> 's \<Rightarrow> 's res"
    and valid :: "'f \<Rightarrow> bool"
    and ready :: "'s \<Rightarrow> bool"
    and view :: "'s \<Rightarrow> 'f list"
    and users :: "'s \<Rightarrow> 'f \<Rightarrow> int"
    and cap :: nat
  assumes enter_law: "ready s \<Longrightarrow> valid f \<Longrightarrow> length (view s) < cap \<Longrightarrow>
      \<exists>t. enter f s = Inr t \<and> ready t \<and> view t = view s @ [f] \<and>
        users t = (users s)(f := users s f + 1)"
    and leave_law: "ready s \<Longrightarrow> valid f \<Longrightarrow> f \<in> set (view s) \<Longrightarrow>
      \<exists>t. leave f s = Inr t \<and> ready t \<and> view t = remove_last f (view s) \<and>
        users t = (users s)(f := users s f - 1)"
begin

lemma bracketed_restores:
  assumes "bracketed valid d evs" and "ready s" and "length (view s) + d \<le> cap"
  shows "\<exists>t. foldE (sect_op enter leave) evs s = Inr t \<and> ready t \<and> view t = view s \<and>
    users t = users s"
  using assms
proof (induction arbitrary: s)
  case (bapp d xs ys)
  from bapp.IH(1) [OF bapp.prems] obtain t where
    t: "foldE (sect_op enter leave) xs s = Inr t" "ready t" "view t = view s" "users t = users s"
    by blast
  from bapp.IH(2) [of t] t bapp.prems obtain u where
    "foldE (sect_op enter leave) ys t = Inr u" "ready u" "view u = view s" "users u = users s"
    by auto
  with t show ?case by (auto simp: foldE_append)
next
  case (bsec d xs f)
  from enter_law [of s f] bsec obtain t where
    t: "enter f s = Inr t" "ready t" "view t = view s @ [f]"
      "users t = (users s)(f := users s f + 1)" by auto
  from bsec.IH [of t] t bsec.prems obtain u where
    u: "foldE (sect_op enter leave) xs t = Inr u" "ready u" "view u = view t" "users u = users t"
    by fastforce
  from leave_law [of u f] u t bsec obtain v where
    "leave f u = Inr v" "ready v" "view v = view s" "users v = users s" by auto
  with t u show ?case by (auto simp: foldE_append)
qed auto

text \<open>Sections left in another order than entered: what is recorded is what is counted.\<close>

lemma users_track_view:
  assumes "foldE (sect_op enter leave) evs s = Inr t" and "ready s"
    and "\<And>es e fs u. evs = es @ e # fs \<Longrightarrow> foldE (sect_op enter leave) es s = Inr u \<Longrightarrow>
       (case e of Enter f \<Rightarrow> valid f \<and> length (view u) < cap
                | Leave f \<Rightarrow> valid f \<and> f \<in> set (view u))"
  shows "ready t \<and> users t f - int (count_list (view t) f) = users s f - int (count_list (view s) f)"
  using assms
proof (induction evs arbitrary: s)
  case (Cons e evs)
  from Cons.prems(1) obtain u where u: "sect_op enter leave e s = Inr u"
    "foldE (sect_op enter leave) evs u = Inr t" by auto
  have pre: "case e of Enter f \<Rightarrow> valid f \<and> length (view s) < cap
                | Leave f \<Rightarrow> valid f \<and> f \<in> set (view s)"
    using Cons.prems(3) [of "[]" e evs s] by simp
  have one: "ready u \<and> users u f - int (count_list (view u) f) =
      users s f - int (count_list (view s) f)"
  proof (cases e)
    case (Enter g)
    with u(1) pre enter_law [of s g] Cons.prems(2) show ?thesis by auto
  next
    case (Leave g)
    with pre have "g \<in> set (view s)" by simp
    then have "0 < count_list (view s) g" by (simp add: count_list_0_iff neq0_conv [symmetric])
    with Leave u(1) pre leave_law [of s g] Cons.prems(2) show ?thesis
      by (auto simp: count_list_remove_last of_nat_diff)
  qed
  have "ready t \<and> users t f - int (count_list (view t) f) =
      users u f - int (count_list (view u) f)"
    using one Cons.prems(3) [of "e # es" for es] u
    by (intro Cons.IH [OF u(2)]) auto
  with one show ?case by simp
qed simp

end

lemma rcs_ready_exit:
  assumes "rcs_ready p i s" and "real_flag f" and "f \<in> set (open_sections i s)"
  shows "\<exists>t. exit_recovery_critical_section f 0 s = Inr t \<and> rcs_ready p i t \<and>
    open_sections i t = remove_last f (open_sections i s) \<and>
    (\<lambda>g. rl_num t (nat g)) = (\<lambda>g. rl_num s (nat g))(f := rl_num s (nat f) - 1)"
  using assms exit_ok [of s f p i 0] hist_del_present [of "hist (rcs_infos s i)" f]
  by (simp add: rcs_ready_def open_sections_def real_flag_def) (auto simp: fun_eq_iff)

text \<open>The kernel's sections satisfy the contract, for the process \<open>p\<close> with history \<open>i\<close>.\<close>

interpretation rcs: nested_sections
  "\<lambda>f. enter_recovery_critical_section f 0" "\<lambda>f. exit_recovery_critical_section f 0"
  real_flag "rcs_ready p i" "open_sections i" "\<lambda>s f. rl_num s (nat f)" RCS_HIST
  for p i
  by unfold_locales (auto intro: rcs_ready_enter rcs_ready_exit)

text \<open>
  Entering a recovery critical section and leaving it restores the machine: the count of
  the section, the history of the process and the locks are as before, and the exception code
  the section recorded is cleared. It holds while the history has a free entry.
\<close>

theorem enter_exit_restores:
  assumes "rcs_ready p i s" and "real_flag f" and "length (open_sections i s) < RCS_HIST"
  shows "bindE (enter_recovery_critical_section f exc s) (exit_recovery_critical_section f exc) =
    Inr (saved (s\<lparr>rl_exc := (if exc \<noteq> 0 then (rl_exc s)(nat f := 0) else rl_exc s)\<rparr>))"
proof -
  let ?h = "hist (rcs_infos s i)"
  let ?t = "saved (set_hist i (hist_add f ?h) (counted f exc s))"
  from assms(1) have r: "cpu_ok s" "\<And>n. free_lock (LkRecLk n) s" "\<And>n. free_lock (LkRec n) s"
    "curproc s = Some p" "rcs_find (pid (procs s p)) s = Some i" "hist_ok ?h"
    by (simp_all add: rcs_ready_def)
  have f: "0 \<le> f" "f < RL_NFLAGS" "f \<noteq> 0" using assms(2) by (auto simp: real_flag_def)
  have del: "hist_del f (hist_add f ?h) = ?h"
    using hist_del_add [OF r(6) f(3)] assms(3) by (simp add: open_sections_def)
  have "enter_recovery_critical_section f exc s = Inr ?t"
    by (rule enter_ok) (use r f in auto)
  moreover have "exit_recovery_critical_section f exc ?t =
    Inr (saved (set_hist i (hist_del f (hist (rcs_infos ?t i))) (uncounted f exc ?t)))"
    by (rule exit_ok) (use r f in auto)
  moreover have "set_hist i (hist_del f (hist (rcs_infos ?t i))) (uncounted f exc ?t) =
    saved (s\<lparr>rl_exc := (if exc \<noteq> 0 then (rl_exc s)(nat f := 0) else rl_exc s)\<rparr>)"
    by (simp add: del set_hist_def uncounted_def counted_def fun_upd_idem saved_def)
  ultimately show ?thesis by simp
qed

text \<open>
  C1. Any properly nested sequence of sections, entered and left in any shape at most as deep
  as the room in the history, runs without a panic and leaves every count and the history of
  the process as they were.
\<close>

theorem bracketed_sections_restore:
  assumes "rcs_ready p i s" and "bracketed real_flag d evs"
    and "length (open_sections i s) + d \<le> RCS_HIST"
  shows "\<exists>t. foldE (sect_op (\<lambda>f. enter_recovery_critical_section f 0)
       (\<lambda>f. exit_recovery_critical_section f 0)) evs s = Inr t \<and>
     open_sections i t = open_sections i s \<and> (\<forall>f. rl_num t (nat f) = rl_num s (nat f))"
  using rcs.bracketed_restores [OF assms(2,1,3)] by (auto simp: fun_eq_iff)

text \<open>
  C39. The history holds \<open>RCS_HIST\<close> sections. Entering and leaving one more, which finds
  no entry, removes the record of the innermost section the process is still in (its count
  stays), so a later \<open>exit_recovery_critical_section_all\<close> cannot leave that section.
\<close>

theorem full_history_loses_section:
  assumes "rcs_ready p i s" and "real_flag f" and "length (open_sections i s) = RCS_HIST"
    and "f \<notin> set (open_sections i s)"
  shows "bindE (enter_recovery_critical_section f 0 s) (exit_recovery_critical_section f 0) =
    Inr (saved (set_hist i (butlast (open_sections i s) @ [0]) s))"
proof -
  let ?h = "hist (rcs_infos s i)"
  let ?t = "saved (set_hist i (hist_add f ?h) (counted f 0 s))"
  from assms(1) have r: "cpu_ok s" "\<And>n. free_lock (LkRecLk n) s" "\<And>n. free_lock (LkRec n) s"
    "curproc s = Some p" "rcs_find (pid (procs s p)) s = Some i" "hist_ok ?h"
    by (simp_all add: rcs_ready_def)
  have f: "0 \<le> f" "f < RL_NFLAGS" "f \<noteq> 0" using assms(2) by (auto simp: real_flag_def)
  have del: "hist_del f (hist_add f ?h) = butlast (hist_abs ?h) @ [0]"
    using r(6)
    by (cases rule: hist_okE) (use assms(3,4) in \<open>auto simp: hist_add_5 hist_del_def
      hist_clear_5 hist_shift_5 hist_abs_def open_sections_def\<close>)
  have "enter_recovery_critical_section f 0 s = Inr ?t"
    by (rule enter_ok) (use r f in auto)
  moreover have "exit_recovery_critical_section f 0 ?t =
    Inr (saved (set_hist i (hist_del f (hist (rcs_infos ?t i))) (uncounted f 0 ?t)))"
    by (rule exit_ok) (use r f in auto)
  moreover have "set_hist i (hist_del f (hist (rcs_infos ?t i))) (uncounted f 0 ?t) =
    saved (set_hist i (butlast (open_sections i s) @ [0]) s)"
    by (simp add: del set_hist_def uncounted_def counted_def fun_upd_idem saved_def open_sections_def)
  ultimately show ?thesis by simp
qed

definition boot_rl :: rlstate where
  "boot_rl = sched.extend boot_sched (rlstate.fields (\<lambda>_. 0) (\<lambda>_. 0)
     (\<lambda>_. \<lparr>iflag = 0, iaddr = 0\<rparr>) (\<lambda>_. \<lparr>iflag = 0, iaddr = 0\<rparr>) (\<lambda>_. \<lparr>iflag = 0, iaddr = 0\<rparr>)
     (\<lambda>i. \<lparr>rpid = i + 1, hist = [0,0,0,0,0]\<rparr>) 40000 400000 500000 None)"

lemma boot_rl_sel [simp]:
  "hart boot_rl = 0" "cproc boot_rl h = Some h" "noff boot_rl = (\<lambda>_. 0)"
  "intena boot_rl = (\<lambda>_. False)" "sie boot_rl = (\<lambda>_. False)"
  "locks boot_rl lk = \<lparr>locked = False, lname = [], lcpu = None\<rparr>"
  "procs boot_rl i = \<lparr>pstate = RUNNING, parent = None, chan = None, killed = False,
     xstate = 0, pid = i + 1\<rparr>"
  "slocks boot_rl n = \<lparr>slocked = False, slname = [], spid = 0\<rparr>" "nextpid boot_rl = 65"
  "rl_num boot_rl = (\<lambda>_. 0)" "rl_exc boot_rl = (\<lambda>_. 0)"
  "rcs_infos boot_rl i = \<lparr>rpid = i + 1, hist = [0,0,0,0,0]\<rparr>"
  "bcache_at boot_rl = 40000" "ftable_at boot_rl = 400000" "icache_at boot_rl = 500000"
  "nmi_queue boot_rl = None"
  by (simp_all add: boot_rl_def boot_sched_def boot_mach_def mach.defs sched.defs rlstate.defs)

lemma boot_rl_ok [simp]: "cpu_ok boot_rl" "free_lock lk boot_rl" "procs_free boot_rl"
  "curproc boot_rl = Some 0"
  by (simp_all add: cpu_ok_def free_lock_def procs_free_def curproc_def)

lemma boot_rl_ready [simp]: "rcs_ready 0 0 boot_rl" "open_sections 0 boot_rl = []"
  by (simp_all add: rcs_ready_def rcs_find_def hist_ok_5 open_sections_def hist_abs_def first_idx_Some)

theorem enter_exit_restores_witness:
  "bindE (enter_recovery_critical_section RL_LOG LOG_COMMIT boot_rl)
     (exit_recovery_critical_section RL_LOG LOG_COMMIT) = Inr (saved (boot_rl\<lparr>rl_exc := \<lambda>_. 0\<rparr>))"
  using enter_exit_restores [of 0 0 boot_rl RL_LOG LOG_COMMIT]
  by (simp add: real_flag_def fun_upd_idem)

theorem bracketed_sections_restore_witness:
  "\<exists>t. foldE (sect_op (\<lambda>f. enter_recovery_critical_section f 0)
       (\<lambda>f. exit_recovery_critical_section f 0)) [Enter RL_FTABLE, Enter RL_PIPE, Leave RL_PIPE, Leave RL_FTABLE]
       boot_rl = Inr t \<and> open_sections 0 t = [] \<and> (\<forall>f. rl_num t (nat f) = 0)"
proof -
  have "bracketed real_flag 2 (Enter RL_FTABLE # (Enter RL_PIPE # [] @ [Leave RL_PIPE]) @ [Leave RL_FTABLE])"
    unfolding numeral_2_eq_2 by (intro bracketed.intros) (simp_all add: real_flag_def)
  from bracketed_sections_restore [OF boot_rl_ready(1) this] show ?thesis by simp
qed

definition deep_rl :: rlstate where
  "deep_rl = set_hist 0 [RL_LOG, RL_FTABLE, RL_ICACHE, RL_INODE, RL_BCACHE] boot_rl"

theorem full_history_loses_section_witness:
  "bindE (enter_recovery_critical_section RL_KMEM 0 deep_rl) (exit_recovery_critical_section RL_KMEM 0) =
    Inr (saved (set_hist 0 [RL_LOG, RL_FTABLE, RL_ICACHE, RL_INODE, 0] deep_rl))"
proof -
  have "rcs_ready 0 0 deep_rl"
    using boot_rl_ready(1) by (simp add: deep_rl_def rcs_ready_def hist_ok_5)
  then show ?thesis
    using full_history_loses_section [of 0 0 deep_rl RL_KMEM]
    by (simp add: real_flag_def deep_rl_def open_sections_def hist_abs_def)
qed

lemma exit_all_one_ok:
  assumes "cpu_ok s" and "\<And>n. free_lock (LkRecLk n) s"
  shows "exit_all_one idx i s = Inr (saved (set_hist idx ((hist (rcs_infos s idx))[i := 0])
     (s\<lparr>rl_num := (rl_num s)(nat (hist (rcs_infos s idx) ! i) :=
        rl_num s (nat (hist (rcs_infos s idx) ! i)) - 1)\<rparr>)))"
  using assms by (simp add: exit_all_one_def Let_def lock_simps set_hist_def)

lemma exit_all_run:
  assumes "cpu_ok s" and "\<And>n. free_lock (LkRecLk n) s" and "distinct is"
    and "\<forall>i \<in> set is. i < length (hist (rcs_infos s idx))"
  shows "\<exists>t. foldE (exit_all_one idx) is s = Inr t \<and>
    hist (rcs_infos t idx) = fold (\<lambda>i h. h[i := 0]) is (hist (rcs_infos s idx)) \<and>
    (\<forall>n. rl_num t n = rl_num s n -
       int (count_list (map (\<lambda>i. nat (hist (rcs_infos s idx) ! i)) is) n))"
  using assms
proof (induction "is" arbitrary: s)
  case (Cons i "is")
  let ?h = "hist (rcs_infos s idx)"
  let ?u = "saved (set_hist idx (?h[i := 0]) (s\<lparr>rl_num := (rl_num s)(nat (?h ! i) :=
        rl_num s (nat (?h ! i)) - 1)\<rparr>))"
  have one: "exit_all_one idx i s = Inr ?u" by (rule exit_all_one_ok) (use Cons.prems in auto)
  have same: "map (\<lambda>j. nat (?h[i := 0] ! j)) is = map (\<lambda>j. nat (?h ! j)) is"
    using Cons.prems(3) by (intro map_cong refl, subst nth_list_update_neq) auto
  have "\<exists>t. foldE (exit_all_one idx) is ?u = Inr t \<and>
    hist (rcs_infos t idx) = fold (\<lambda>i h. h[i := 0]) is (hist (rcs_infos ?u idx)) \<and>
    (\<forall>n. rl_num t n = rl_num ?u n -
       int (count_list (map (\<lambda>i. nat (hist (rcs_infos ?u idx) ! i)) is) n))"
    by (rule Cons.IH) (use Cons.prems in auto)
  then show ?case by (auto simp: one same)
qed simp

text \<open>
  \<open>exit_recovery_critical_section_all\<close> empties the history of the process and takes one
  off the count of a section per recorded entry. The unused entries are 0, and each of them
  takes one off the count of section 0.
\<close>

theorem exit_all_exact:
  assumes "rcs_ready p i s" and "rcs_find q s = Some j" and "length (hist (rcs_infos s j)) = RCS_HIST"
  shows "\<exists>t. exit_recovery_critical_section_all q s = Inr t \<and>
    hist (rcs_infos t j) = [0,0,0,0,0] \<and>
    (\<forall>n. rl_num t n = rl_num s n - int (count_list (map nat (hist (rcs_infos s j))) n))"
proof -
  from length5 [OF assms(3)] obtain a b c d e where h: "hist (rcs_infos s j) = [a,b,c,d,e]" by blast
  have "cpu_ok s" "\<And>n. free_lock (LkRecLk n) s" using assms(1) by (simp_all add: rcs_ready_def)
  from exit_all_run [OF this, of "[0..<RCS_HIST]" j] show ?thesis using assms(2)
    by (simp add: exit_recovery_critical_section_all_def h upt5 del: count_list.simps)
qed

theorem exit_all_exact_witness:
  "\<exists>t. exit_recovery_critical_section_all 1 (set_hist 0 [RL_LOG, RL_INODE, RL_LOG, 0, 0] boot_rl) = Inr t \<and>
    rl_num t 6 = -2 \<and> rl_num t 11 = -1 \<and> rl_num t 0 = -2"
proof -
  let ?s = "set_hist 0 [RL_LOG, RL_INODE, RL_LOG, 0, 0] boot_rl"
  have "rcs_ready 0 0 ?s" using boot_rl_ready(1) by (simp add: rcs_ready_def hist_ok_5)
  moreover have "rcs_find 1 ?s = Some 0" by (simp add: rcs_find_def first_idx_Some)
  ultimately obtain t where
    "exit_recovery_critical_section_all 1 ?s = Inr t"
    "\<forall>n. rl_num t n = rl_num ?s n - int (count_list (map nat (hist (rcs_infos ?s 0))) n)"
    using exit_all_exact [of 0 0 ?s 1 0] by auto
  then show ?thesis by (intro exI [of _ t]) simp
qed

lemma enter_excluded:
  assumes "cpu_ok s" and "real_flag f" and "free_lock (LkRecLk (nat f)) s"
    and "locked (locks s (LkRec (nat f)))" and "lcpu (locks s (LkRec (nat f))) = Some h"
    and "h \<noteq> hart s" and "noff s (hart s) = 0" and "curproc s = Some p" and "p < NPROC" and "procs_free s"
  shows "enter_recovery_critical_section f exc s =
     Inl (if exc = ICACHE_FORK then Panic ''Avoids deadlock occurrence'' else Blocked)"
proof -
  let ?n = "nat f"
  have enter: "\<exists>t. sleep_enter (ChRec ?n) (LkRecLk ?n) (taken (LkRecLk ?n) s) = Inr t"
    using assms by (subst sleep_enter_ok [of _ p]) (auto simp: procs_free_def)
  then show ?thesis
    using assms
    by (auto simp add: enter_recovery_critical_section_def rl_count_in_def Let_def bad_flag_def
      real_flag_def lock_simps holds_def sleep_def)
qed

text \<open>Flags of the objects.\<close>

datatype rl_object = ObjBuf nat | ObjFile nat | ObjInode nat

fun obj_exists :: "rl_object \<Rightarrow> bool" where
  "obj_exists (ObjBuf i) = (i < NBUF)"
| "obj_exists (ObjFile i) = (i < NFILE)"
| "obj_exists (ObjInode i) = (i < NINODE)"

fun flag_of :: "rl_object \<Rightarrow> 'a rlstate_scheme \<Rightarrow> int" where
  "flag_of (ObjBuf i) s = search_recovery_idx RL_BUF (buf_at (bcache_at s) i) s"
| "flag_of (ObjFile i) s = search_recovery_idx RL_FILE (file_at (ftable_at s) i) s"
| "flag_of (ObjInode i) s = search_recovery_idx RL_INODE (inode_at (icache_at s) i) s"

lemma look_at:
  assumes "i < n" and "inj addr" and "\<And>j. j < n \<Longrightarrow> iaddr (tab j) = addr j"
  shows "first_idx (\<lambda>j. iaddr (tab j) = addr i) n = Some i"
  using assms by (intro first_idx_unique) (auto dest: injD)

lemma flag_of_init:
  assumes "obj_exists x"
  shows "flag_of x (init_recovery_lock_idx s) = (case x of
     ObjBuf i \<Rightarrow> 9 + int i | ObjFile i \<Rightarrow> 38 + int i | ObjInode i \<Rightarrow> 138 + int i)"
proof -
  have inj: "inj (buf_at b)" "inj (file_at b)" "inj (inode_at b)" for b
    by (simp_all add: inj_def)
  show ?thesis using assms
    by (cases x) (simp_all add: search_recovery_idx_def init_recovery_lock_idx_def Let_def
       look_at [OF _ inj(1)] look_at [OF _ inj(2)] look_at [OF _ inj(3)])
qed

text \<open>
  The index built at boot gives every buffer, file and inode object a section of its own,
  except that the last buffer and the first file share one.
\<close>

theorem object_flags_distinct:
  assumes "obj_exists x" and "obj_exists y" and "s1 = init_recovery_lock_idx s"
  shows "real_flag (flag_of x s1) \<and> (flag_of x s1 = flag_of y s1 \<longleftrightarrow>
     x = y \<or> {x, y} = {ObjBuf 29, ObjFile 0})"
  using assms
  by (cases x; cases y) (auto simp: flag_of_init real_flag_def doubleton_eq_iff simp del: flag_of.simps)

theorem object_flags_distinct_witness:
  "flag_of (ObjBuf 29) (init_recovery_lock_idx boot_rl) =
     flag_of (ObjFile 0) (init_recovery_lock_idx boot_rl)"
  using object_flags_distinct [of "ObjBuf 29" "ObjFile 0" _ boot_rl] by (simp del: flag_of.simps)

lemma rl_idx_sel_taken [simp]:
  "buf_idx (taken lk s) = buf_idx s" "file_idx (taken lk s) = file_idx s"
  "inode_idx (taken lk s) = inode_idx s" "buf_idx (saved s) = buf_idx s"
  "file_idx (saved s) = file_idx s" "inode_idx (saved s) = inode_idx s"
  "ftable_at (taken lk s) = ftable_at s" "ftable_at (saved s) = ftable_at s"
  "icache_at (taken lk s) = icache_at s" "icache_at (saved s) = icache_at s"
  "bcache_at (taken lk s) = bcache_at s" "bcache_at (saved s) = bcache_at s"
  by (simp_all add: taken_def saved_def)

lemma search_recovery_idx_taken [simp]:
  "search_recovery_idx f a (taken lk s) = search_recovery_idx f a s"
  "search_recovery_idx f a (saved s) = search_recovery_idx f a s"
  by (simp_all add: search_recovery_idx_def cong: option.case_cong)

lemma giant_and_node_held:
  assumes "cpu_ok s" and "\<And>n. free_lock (LkRec n) s" and "giant \<in> {RL_BCACHE, RL_FTABLE, RL_ICACHE}"
    and "search_recovery_idx f a s = flag" and "real_flag flag" and "flag \<noteq> giant"
  shows "acquire_giant_and_node giant f a s =
     Inr (taken (LkRec (nat flag)) (taken (LkRec (nat giant)) s))"
  using assms
  by (auto simp: acquire_giant_and_node_def acquire_recovery_lock_def Let_def bad_flag_def
      real_flag_def lock_simps)



text \<open>
  While a process commits the log (it entered the section with its process id as the
  exception code) a recovery for any other process sees a commit in progress and waits; a
  recovery for that very process does not wait, and clears the code.
\<close>

theorem commit_window_visible:
  assumes "rcs_ready p i s" and "q \<noteq> 0" and "0 \<le> rl_num s (nat RL_LOG)" and "rl_exc s (nat RL_LOG) = 0"
  shows "\<exists>t. enter_recovery_critical_section RL_LOG q s = Inr t \<and>
    (\<forall>r. r \<noteq> q \<longrightarrow> check_proc_in_log_commit r t = Inr (True, t)) \<and>
    (\<exists>u. check_proc_in_log_commit q t = Inr (False, u) \<and> rl_exc u (nat RL_LOG) = 0 \<and>
       rl_num u = rl_num t)"
proof -
  let ?t = "saved (set_hist i (hist_add RL_LOG (hist (rcs_infos s i))) (counted RL_LOG q s))"
  from assms(1) have r: "cpu_ok s" "\<And>n. free_lock (LkRecLk n) s" "\<And>n. free_lock (LkRec n) s"
    "curproc s = Some p" "rcs_find (pid (procs s p)) s = Some i"
    by (simp_all add: rcs_ready_def)
  have "enter_recovery_critical_section RL_LOG q s = Inr ?t"
    by (rule enter_ok) (use r in auto)
  moreover have "rl_exc ?t 6 = q" using assms(2) by (simp add: counted_def)
  moreover have "0 \<le> rl_num ?t 6" using assms(3) by simp
  moreover have "cpu_ok ?t" "free_lock (LkRecLk 6) ?t" using r by simp_all
  ultimately show ?thesis
    using assms(2) by (auto simp: check_proc_in_log_commit_def Let_def lock_simps)
qed

theorem commit_window_visible_witness:
  "\<exists>t. enter_recovery_critical_section RL_LOG 5 boot_rl = Inr t \<and>
    check_proc_in_log_commit 3 t = Inr (True, t)"
  using commit_window_visible [OF boot_rl_ready(1), of 5] by auto

end
