(* ===== verification/Trans.thy ===== *)
theory Trans
  imports Sections
begin

text \<open>
  \<open>kernel/trans.c\<close>: the transaction counters that tell a recovery handler whether the
  interrupted process was between an update of a structure and the update of its replica, and
  the roll-back of the log header. \<open>check_and_handle_trans_run\<close> works on the free list
  and is in \<open>Kalloc\<close>.
\<close>

section \<open>State\<close>

record loghdr =
  lh_n :: int
  lh_block :: "nat \<Rightarrow> int"

record klog =
  lstart :: int
  lsize :: int
  outstanding :: int
  committing :: bool
  ldev :: int
  lh :: loghdr

record trans_info =
  tpid :: nat
  pagetable_ntrans :: int
  log_ntrans :: int
  run_ntrans :: int

abbreviation TRANS_LOG :: int where "TRANS_LOG \<equiv> 1"
abbreviation TRANS_PAGETABLE :: int where "TRANS_PAGETABLE \<equiv> 2"
abbreviation TRANS_RUN :: int where "TRANS_RUN \<equiv> 3"

text \<open>The array has \<open>NPROC + 1\<close> entries.\<close>

abbreviation NTRANS :: nat where "NTRANS \<equiv> 65"

record transtate = rlstate +
  tarr :: "nat \<Rightarrow> trans_info"
  log_outstanding :: int
  log_logheader :: loghdr
  log_run :: nat
  klog :: klog
  dup_lhdr :: loghdr
  dup_outstanding :: int
  dup_committing :: bool

lemma tr_fields_taken [simp]:
  "tarr (taken lk s) = tarr s" "tarr (saved s) = tarr s" "tarr (dropped lk s) = tarr s"
  "klog (taken lk s) = klog s" "klog (saved s) = klog s" "klog (dropped lk s) = klog s"
  "log_run (taken lk s) = log_run s" "log_run (saved s) = log_run s"
  "log_outstanding (taken lk s) = log_outstanding s" "log_outstanding (saved s) = log_outstanding s"
  "log_logheader (taken lk s) = log_logheader s" "log_logheader (saved s) = log_logheader s"
  "dup_lhdr (taken lk s) = dup_lhdr s" "dup_lhdr (saved s) = dup_lhdr s"
  "dup_outstanding (taken lk s) = dup_outstanding s" "dup_outstanding (saved s) = dup_outstanding s"
  by (simp_all add: taken_def saved_def dropped_def)

lemma tr_update_taken [simp]:
  "tarr_update f (taken lk s) = taken lk (tarr_update f s)"
  "tarr_update f (saved s) = saved (tarr_update f s)"
  "log_run_update g (taken lk s) = taken lk (log_run_update g s)"
  "log_run_update g (saved s) = saved (log_run_update g s)"
  "cpu_ok (tarr_update f s) = cpu_ok s" "cpu_ok (log_run_update g s) = cpu_ok s"
  "free_lock lk (tarr_update f s) = free_lock lk s"
  "free_lock lk (log_run_update g s) = free_lock lk s"
  "curproc (tarr_update f s) = curproc s" "curproc (log_run_update g s) = curproc s"
  by (simp_all add: taken_def saved_def cpu_ok_def free_lock_def curproc_def)

section \<open>The array of counters\<close>

definition init_trans_info :: "'a transtate_scheme \<Rightarrow> 'a transtate_scheme" where
  "init_trans_info s = (initlock_fields LkTrans ''transaction'' s)
     \<lparr>tarr := (\<lambda>i. if i < NTRANS
        then \<lparr>tpid = 0, pagetable_ntrans = 0, log_ntrans = 0, run_ntrans = 0\<rparr> else tarr s i)\<rparr>"

definition register_trans_info :: "nat \<Rightarrow> 'a transtate_scheme \<Rightarrow> 'a transtate_scheme res" where
  "register_trans_info p s =
     bindE (acquire LkTrans s) (\<lambda>s.
     release LkTrans (case first_idx (\<lambda>i. tpid (tarr s i) = 0) NTRANS of
         None \<Rightarrow> s
       | Some i \<Rightarrow> s\<lparr>tarr := (tarr s)(i := (tarr s i)\<lparr>tpid := p\<rparr>)\<rparr>))"

definition delete_trans_info :: "nat \<Rightarrow> 'a transtate_scheme \<Rightarrow> 'a transtate_scheme res" where
  "delete_trans_info p s =
     bindE (acquire LkTrans s) (\<lambda>s.
     release LkTrans (s\<lparr>tarr := (\<lambda>i. if i < NTRANS \<and> tpid (tarr s i) = p
        then (tarr s i)\<lparr>tpid := 0\<rparr> else tarr s i)\<rparr>))"

text \<open>The last entry with the process id wins.\<close>

definition last_trans :: "nat \<Rightarrow> 'a transtate_scheme \<Rightarrow> nat option" where
  "last_trans p s = find (\<lambda>i. tpid (tarr s i) = p) (rev [0..<NTRANS])"

definition search_trans_info ::
  "nat \<Rightarrow> 'a transtate_scheme \<Rightarrow> (nat option \<times> 'a transtate_scheme) res" where
  "search_trans_info p s =
     bindE (acquire LkTrans s) (\<lambda>s. bindE (release LkTrans s) (\<lambda>s. Inr (last_trans p s, s)))"

section \<open>Entering and leaving\<close>

text \<open>
  The entry a routine works on: entry 0 until the first user process exists, then the one of
  the running process. \<open>myproc()->pid\<close> with no process traps.
\<close>

definition my_trans ::
  "'a transtate_scheme \<Rightarrow> (nat option \<times> 'a transtate_scheme) res" where
  "my_trans s =
     (if nextpid s > 2 then
        bindE (myproc s) (\<lambda>(mp, s). case mp of
            None \<Rightarrow> Inl Trap | Some p \<Rightarrow> search_trans_info (pid (procs s p)) s)
      else Inr (Some 0, s))"

definition set_trans :: "nat \<Rightarrow> (trans_info \<Rightarrow> trans_info) \<Rightarrow> 'a transtate_scheme \<Rightarrow> 'a transtate_scheme" where
  "set_trans i g s = s\<lparr>tarr := (tarr s)(i := g (tarr s i))\<rparr>"

definition enter_trans_log :: "'a transtate_scheme \<Rightarrow> 'a transtate_scheme res" where
  "enter_trans_log s = bindE (my_trans s) (\<lambda>(mi, s). case mi of
       None \<Rightarrow> Inl Trap
     | Some i \<Rightarrow> if log_ntrans (tarr s i) < 0 then Inl (Panic ''enter_trans_log: invalid ntrans value'')
         else Inr (set_trans i (\<lambda>t. t\<lparr>log_ntrans := log_ntrans t + 1\<rparr>)
                (s\<lparr>log_logheader := lh (klog s), log_outstanding := outstanding (klog s)\<rparr>)))"

definition exit_trans_log :: "'a transtate_scheme \<Rightarrow> 'a transtate_scheme res" where
  "exit_trans_log s = bindE (my_trans s) (\<lambda>(mi, s). case mi of
       None \<Rightarrow> Inl Trap
     | Some i \<Rightarrow> if log_ntrans (tarr s i) < 1 then Inl (Panic ''exit_trans_log: invalid ntrans value'')
         else Inr (set_trans i (\<lambda>t. t\<lparr>log_ntrans := log_ntrans t - 1\<rparr>)
                (s\<lparr>log_outstanding := -1\<rparr>)))"

definition enter_trans_pagetable :: "'a transtate_scheme \<Rightarrow> 'a transtate_scheme res" where
  "enter_trans_pagetable s = bindE (my_trans s) (\<lambda>(mi, s). case mi of
       None \<Rightarrow> Inr s
     | Some i \<Rightarrow> if pagetable_ntrans (tarr s i) < 0
         then Inl (Panic ''enter_trans_pagetable: invalid ntrans value'')
         else Inr (set_trans i (\<lambda>t. t\<lparr>pagetable_ntrans := pagetable_ntrans t + 1\<rparr>) s))"

definition exit_trans_pagetable :: "'a transtate_scheme \<Rightarrow> 'a transtate_scheme res" where
  "exit_trans_pagetable s = bindE (my_trans s) (\<lambda>(mi, s). case mi of
       None \<Rightarrow> Inr s
     | Some i \<Rightarrow> if pagetable_ntrans (tarr s i) < 1
         then Inl (Panic ''exit_trans_pagetable: invalid ntrans value'')
         else Inr (set_trans i (\<lambda>t. t\<lparr>pagetable_ntrans := pagetable_ntrans t - 1\<rparr>) s))"

definition enter_trans_run :: "nat \<Rightarrow> 'a transtate_scheme \<Rightarrow> 'a transtate_scheme res" where
  "enter_trans_run addr s = bindE (my_trans s) (\<lambda>(mi, s). case mi of
       None \<Rightarrow> Inl Trap
     | Some i \<Rightarrow> if run_ntrans (tarr s i) < 0 then Inl (Panic ''enter_trans_run: invalid ntrans value'')
         else Inr (set_trans i (\<lambda>t. t\<lparr>run_ntrans := run_ntrans t + 1\<rparr>) (s\<lparr>log_run := addr\<rparr>)))"

definition exit_trans_run :: "'a transtate_scheme \<Rightarrow> 'a transtate_scheme res" where
  "exit_trans_run s = bindE (my_trans s) (\<lambda>(mi, s). case mi of
       None \<Rightarrow> Inl Trap
     | Some i \<Rightarrow> if run_ntrans (tarr s i) < 1 then Inl (Panic ''exit_trans_run: invalid ntrans value'')
         else Inr ((set_trans i (\<lambda>t. t\<lparr>run_ntrans := run_ntrans t - 1\<rparr>) s)\<lparr>log_run := 0\<rparr>))"

section \<open>Handling an interrupted transaction\<close>

definition check_inside_trans ::
  "int \<Rightarrow> nat \<Rightarrow> 'a transtate_scheme \<Rightarrow> (int \<times> 'a transtate_scheme) res" where
  "check_inside_trans target p s = bindE (search_trans_info p s) (\<lambda>(mi, s). case mi of
       None \<Rightarrow> Inl Trap
     | Some i \<Rightarrow> Inr (if target = TRANS_LOG then log_ntrans (tarr s i)
         else if target = TRANS_PAGETABLE then pagetable_ntrans (tarr s i)
         else if target = TRANS_RUN then run_ntrans (tarr s i) else -1, s))"

definition check_and_handle_trans_log ::
  "nat \<Rightarrow> 'a transtate_scheme \<Rightarrow> (int \<times> 'a transtate_scheme) res" where
  "check_and_handle_trans_log p s = bindE (check_inside_trans TRANS_LOG p s) (\<lambda>(n, s).
     if n > 0 then Inr (0, s\<lparr>klog := (klog s)\<lparr>lh := log_logheader s\<rparr>, dup_lhdr := log_logheader s,
         dup_outstanding := log_outstanding s\<rparr>)
     else if n < 0 then Inr (-1, s) else Inr (0, s))"

definition check_and_handle_trans_logheader ::
  "nat \<Rightarrow> 'a transtate_scheme \<Rightarrow> (int \<times> 'a transtate_scheme) res" where
  "check_and_handle_trans_logheader p s = bindE (check_inside_trans TRANS_LOG p s) (\<lambda>(n, s).
     if n > 0 then Inr (0, s\<lparr>dup_lhdr := log_logheader s,
         dup_outstanding := (if log_outstanding s \<ge> 0 then log_outstanding s else dup_outstanding s)\<rparr>)
     else if n < 0 then Inr (-1, s) else Inr (0, s))"

definition check_and_handle_trans_pagetable ::
  "nat \<Rightarrow> 'a transtate_scheme \<Rightarrow> (int \<times> 'a transtate_scheme) res" where
  "check_and_handle_trans_pagetable p s = bindE (check_inside_trans TRANS_PAGETABLE p s) (\<lambda>(n, s).
     if n > 0 then Inr (1, s) else if n < 0 then Inr (-1, s) else Inr (0, s))"

lemma find_rev_unique:
  assumes "i < n" and "P i" and "\<And>j. j < n \<Longrightarrow> P j \<Longrightarrow> j = i"
  shows "find P (rev [0..<n]) = Some i"
proof -
  have "find P (rev [0..<n]) \<noteq> None" using assms(1,2) by (auto simp: find_None_iff)
  then obtain k where k: "find P (rev [0..<n]) = Some k" by blast
  then have "P k" "k < n" by (auto simp: find_Some_iff rev_nth)
  with assms(3) have "k = i" by blast
  with k show ?thesis by simp
qed

section \<open>Nesting counters as a contract\<close>

text \<open>
  \<open>True\<close> in a sequence of events enters, \<open>False\<close> leaves; an unmatched leave panics.
\<close>

fun nest_op :: "('s \<Rightarrow> 's res) \<Rightarrow> ('s \<Rightarrow> 's res) \<Rightarrow> bool \<Rightarrow> 's \<Rightarrow> 's res" where
  "nest_op enter leave True = enter"
| "nest_op enter leave False = leave"

definition balance :: "bool list \<Rightarrow> int" where
  "balance evs = sum_list (map (\<lambda>b. if b then 1 else -1) evs)"

lemma balance_simps [simp]:
  "balance [] = 0" "balance (b # evs) = (if b then 1 else -1) + balance evs"
  by (simp_all add: balance_def)

locale depth_counter =
  fixes enter leave :: "'s \<Rightarrow> 's res"
    and ready :: "'s \<Rightarrow> bool"
    and depth :: "'s \<Rightarrow> int"
  assumes enter_law: "ready s \<Longrightarrow> 0 \<le> depth s \<Longrightarrow>
      \<exists>t. enter s = Inr t \<and> ready t \<and> depth t = depth s + 1"
    and leave_law: "ready s \<Longrightarrow> 1 \<le> depth s \<Longrightarrow>
      \<exists>t. leave s = Inr t \<and> ready t \<and> depth t = depth s - 1"
    and leave_fails: "ready s \<Longrightarrow> depth s < 1 \<Longrightarrow> \<exists>m. leave s = Inl (Panic m)"
begin

lemma run_depth:
  assumes "ready s" and "0 \<le> depth s"
    and "\<And>n. 0 \<le> depth s + balance (take n evs)"
  shows "\<exists>t. foldE (nest_op enter leave) evs s = Inr t \<and> ready t \<and>
    depth t = depth s + balance evs"
  using assms
proof (induction evs arbitrary: s)
  case (Cons b evs)
  have "\<exists>t. nest_op enter leave b s = Inr t \<and> ready t \<and> depth t = depth s + (if b then 1 else -1)"
    using enter_law [of s] leave_law [of s] Cons.prems(1,2) Cons.prems(3) [of 1]
    by (cases b) auto
  then obtain t where t: "nest_op enter leave b s = Inr t" "ready t"
    "depth t = depth s + (if b then 1 else -1)" by blast
  have pre: "0 \<le> depth t + balance (take n evs)" for n
    using Cons.prems(3) [of "Suc n"] t(3) by (simp add: algebra_simps)
  have "0 \<le> depth t" using pre [of 0] by simp
  from Cons.IH [OF t(2) this pre] t show ?case by (auto simp: algebra_simps)
qed simp

lemma unmatched_leave_panics:
  assumes "ready s" and "0 \<le> depth s"
  shows "\<exists>m. foldE (nest_op enter leave) (replicate (Suc (nat (depth s))) False) s = Inl (Panic m)"
  using assms
proof (induction "nat (depth s)" arbitrary: s)
  case 0
  then show ?case using leave_fails [of s] by auto
next
  case (Suc n)
  then have "1 \<le> depth s" by simp
  from leave_law [OF Suc.prems(1) this] obtain t where
    t: "leave s = Inr t" "ready t" "depth t = depth s - 1" by blast
  then have "n = nat (depth t)" "0 \<le> depth t" using Suc.hyps(2) by auto
  from Suc.hyps(1) [OF this(1) t(2) this(2)] obtain m where
    "foldE (nest_op enter leave) (replicate (Suc (nat (depth t))) False) t = Inl (Panic m)" by blast
  moreover have "nat (depth s) = Suc (nat (depth t))" using t(3) \<open>1 \<le> depth s\<close> by simp
  ultimately show ?case using t(1) by simp
qed
end

definition my_index :: "'a transtate_scheme \<Rightarrow> nat option" where
  "my_index s = (if nextpid s > 2 then (case curproc s of None \<Rightarrow> None
       | Some p \<Rightarrow> last_trans (pid (procs s p)) s) else Some 0)"

definition trans_ready :: "nat \<Rightarrow> 'a transtate_scheme \<Rightarrow> bool" where
  "trans_ready i s \<longleftrightarrow> cpu_ok s \<and> free_lock LkTrans s \<and> my_index s = Some i"

lemma my_index_saved [simp]: "my_index (saved s) = my_index s"
  by (simp add: my_index_def last_trans_def cong: option.case_cong)

lemma last_trans_set [simp]:
  assumes "\<And>t. tpid (g t) = tpid t"
  shows "last_trans p (set_trans i g s) = last_trans p s"
proof -
  have "(\<lambda>j. tpid (((tarr s)(i := g (tarr s i))) j) = p) = (\<lambda>j. tpid (tarr s j) = p)"
    using assms by (auto simp: fun_eq_iff)
  then show ?thesis by (simp add: last_trans_def set_trans_def)
qed

lemma set_trans_sel [simp]:
  "tarr (set_trans i g s) = (tarr s)(i := g (tarr s i))" "cpu_ok (set_trans i g s) = cpu_ok s"
  "free_lock lk (set_trans i g s) = free_lock lk s" "curproc (set_trans i g s) = curproc s"
  "nextpid (set_trans i g s) = nextpid s" "procs (set_trans i g s) = procs s"
  "klog (set_trans i g s) = klog s" "log_logheader (set_trans i g s) = log_logheader s"
  "log_outstanding (set_trans i g s) = log_outstanding s" "log_run (set_trans i g s) = log_run s"
  "dup_lhdr (set_trans i g s) = dup_lhdr s" "dup_outstanding (set_trans i g s) = dup_outstanding s"
  "set_trans i g (taken lk s) = taken lk (set_trans i g s)"
  "set_trans i g (saved s) = saved (set_trans i g s)"
  by (simp_all add: set_trans_def)

lemma my_index_set [simp]:
  "(\<And>t. tpid (g t) = tpid t) \<Longrightarrow> my_index (set_trans i g s) = my_index s"
  by (simp add: my_index_def cong: option.case_cong)

definition looked :: "'a transtate_scheme \<Rightarrow> 'a transtate_scheme" where
  "looked s = (if nextpid s > 2 then saved s else s)"

lemma my_trans_ok:
  assumes "cpu_ok s" and "free_lock LkTrans s" and "my_index s = Some i"
  shows "my_trans s = Inr (Some i, looked s)"
  using assms
  by (auto simp: my_trans_def my_index_def looked_def search_trans_info_def lock_simps
      last_trans_def split: if_splits option.splits)

lemma looked_sel [simp]:
  "tarr (looked s) = tarr s" "last_trans q (looked s) = last_trans q s" "cpu_ok (looked s) = cpu_ok s" "free_lock lk (looked s) = free_lock lk s"
  "my_index (looked s) = my_index s" "klog (looked s) = klog s" "curproc (looked s) = curproc s"
  "log_outstanding (looked s) = log_outstanding s" "log_logheader (looked s) = log_logheader s"
  "dup_outstanding (looked s) = dup_outstanding s" "dup_lhdr (looked s) = dup_lhdr s"
  by (simp_all add: looked_def last_trans_def)

interpretation pt_trans: depth_counter enter_trans_pagetable exit_trans_pagetable
  "\<lambda>s. trans_ready i s \<and> last_trans q s = Some i" "\<lambda>s. pagetable_ntrans (tarr s i)" for i q
  by unfold_locales
    (auto simp: trans_ready_def enter_trans_pagetable_def exit_trans_pagetable_def my_trans_ok)

lemma my_index_log [simp]:
  "my_index (log_logheader_update f s) = my_index s" "my_index (log_outstanding_update g s) = my_index s"
  "my_index (log_run_update h s) = my_index s"
  "cpu_ok (log_logheader_update f s) = cpu_ok s" "cpu_ok (log_outstanding_update g s) = cpu_ok s"
  "free_lock lk (log_logheader_update f s) = free_lock lk s" 
  "free_lock lk (log_outstanding_update g s) = free_lock lk s"
  by (simp_all add: my_index_def last_trans_def curproc_def cpu_ok_def free_lock_def cong: option.case_cong)

interpretation log_trans: depth_counter enter_trans_log exit_trans_log
  "trans_ready i" "\<lambda>s. log_ntrans (tarr s i)" for i
  by unfold_locales
    (auto simp: trans_ready_def enter_trans_log_def exit_trans_log_def my_trans_ok)

interpretation run_trans: depth_counter "enter_trans_run r" exit_trans_run
  "trans_ready i" "\<lambda>s. run_ntrans (tarr s i)" for i r
  by unfold_locales
    (auto simp: trans_ready_def enter_trans_run_def exit_trans_run_def my_trans_ok)

lemma last_trans_saved [simp]: "last_trans q (saved s) = last_trans q s" "last_trans q (taken lk s) = last_trans q s"
  by (simp_all add: last_trans_def)

lemma check_inside_ok:
  assumes "cpu_ok s" and "free_lock LkTrans s" and "last_trans q s = Some i"
  shows "check_inside_trans f q s = Inr (if f = TRANS_LOG then log_ntrans (tarr s i)
         else if f = TRANS_PAGETABLE then pagetable_ntrans (tarr s i)
         else if f = TRANS_RUN then run_ntrans (tarr s i) else -1, saved s)"
  using assms by (simp add: check_inside_trans_def search_trans_info_def lock_simps)

text \<open>
  Whatever sequence of page-table transactions a process enters and leaves (never leaving
  more than it entered), none of them panics, and a recovery handler asked about that process
  answers 1 (kill the process) exactly when one of them is still open.
\<close>

text \<open>
  Whatever sequence of page-table transactions a process enters and leaves (never leaving
  more than it entered), none of them panics, and a recovery handler asked about that process
  answers 1 (kill the process) exactly when one of them is still open.
\<close>

text \<open>
  Whatever sequence of page-table transactions a process enters and leaves (never leaving
  more than it entered), none of them panics, and a recovery handler asked about that process
  answers 1 (kill the process) exactly when one of them is still open.
\<close>

text \<open>
  Whatever sequence of page-table transactions a process enters and leaves (never leaving
  more than it entered), none of them panics, and a recovery handler asked about that process
  answers 1 (kill the process) exactly when one of them is still open.
\<close>

text \<open>
  Whatever sequence of page-table transactions a process enters and leaves (never leaving
  more than it entered), none of them panics, and a recovery handler asked about that process
  answers 1 (kill the process) exactly when one of them is still open.
\<close>

theorem pagetable_transaction_seen:
  assumes "trans_ready i s" and "last_trans q s = Some i" and "pagetable_ntrans (tarr s i) = 0"
    and "\<And>n. 0 \<le> balance (take n evs)"
  shows "\<exists>t. foldE (nest_op enter_trans_pagetable exit_trans_pagetable) evs s = Inr t \<and>
    check_and_handle_trans_pagetable q t = Inr (if balance evs > 0 then 1 else 0, saved t)"
proof -
  have "0 \<le> balance evs" using assms(4) [of "length evs"] by simp
  moreover obtain u where u: "foldE (nest_op enter_trans_pagetable exit_trans_pagetable) evs s = Inr u"
    "trans_ready i u" "last_trans q u = Some i" "pagetable_ntrans (tarr u i) = balance evs"
    using pt_trans.run_depth [of i s q evs] assms by auto
  ultimately show ?thesis
    by (simp add: check_and_handle_trans_pagetable_def check_inside_ok trans_ready_def)
qed

lemma tr_data_update [simp]:
  "cpu_ok (klog_update f s) = cpu_ok s" "free_lock lk (klog_update f s) = free_lock lk s"
  "last_trans q (klog_update f s) = last_trans q s"
  "cpu_ok (dup_lhdr_update g s) = cpu_ok s" "free_lock lk (dup_lhdr_update g s) = free_lock lk s"
  "last_trans q (dup_lhdr_update g s) = last_trans q s"
  "cpu_ok (dup_outstanding_update h s) = cpu_ok s"
  "free_lock lk (dup_outstanding_update h s) = free_lock lk s"
  "last_trans q (dup_outstanding_update h s) = last_trans q s"
  "last_trans q (log_logheader_update g s) = last_trans q s"
  "last_trans q (log_outstanding_update h s) = last_trans q s"
  by (simp_all add: cpu_ok_def free_lock_def last_trans_def)

text \<open>
  C13. A log transaction records the log header and the outstanding count on entry. Whatever the
  interrupted update left in the log and in its replica, \<open>check_and_handle_trans_logheader\<close>
  brings the replica back to the recorded values and leaves the log alone, and
  \<open>check_and_handle_trans_log\<close> also restores the log's own header.
\<close>

theorem log_transaction_rolls_back:
  assumes "trans_ready i s" and "last_trans q s = Some i" and "log_ntrans (tarr s i) = 0" and "0 \<le> outstanding (klog s)"
  shows "\<exists>t u v. enter_trans_log s = Inr t \<and>
    check_and_handle_trans_logheader q (t\<lparr>klog := l, dup_lhdr := d, dup_outstanding := n\<rparr>) = Inr (0, u) \<and>
    dup_lhdr u = lh (klog s) \<and> dup_outstanding u = outstanding (klog s) \<and> klog u = l \<and>
    check_and_handle_trans_log q (t\<lparr>klog := l, dup_lhdr := d, dup_outstanding := n\<rparr>) = Inr (0, v) \<and>
    klog v = l\<lparr>lh := lh (klog s)\<rparr> \<and> dup_lhdr v = lh (klog s) \<and> dup_outstanding v = outstanding (klog s)"
proof -
  let ?t = "set_trans i (\<lambda>t. t\<lparr>log_ntrans := log_ntrans t + 1\<rparr>)
     ((looked s)\<lparr>log_logheader := lh (klog s), log_outstanding := outstanding (klog s)\<rparr>)"
  have t: "enter_trans_log s = Inr ?t"
    using assms by (simp add: enter_trans_log_def my_trans_ok trans_ready_def)
  let ?c = "?t\<lparr>klog := l, dup_lhdr := d, dup_outstanding := n\<rparr>"
  have "cpu_ok ?c" "free_lock LkTrans ?c" "last_trans q ?c = Some i" "log_ntrans (tarr ?c i) = 1"
    using assms by (simp_all add: trans_ready_def)
  then have "check_inside_trans TRANS_LOG q ?c = Inr (1, saved ?c)" by (simp add: check_inside_ok)
  then show ?thesis using t assms(4)
    by (simp add: check_and_handle_trans_logheader_def check_and_handle_trans_log_def)
qed

text \<open>
  Deleting the entry of a process leaves its counters in place, and the next process takes
  over the entry: a process registered after one that died inside a page-table transaction is
  taken to be inside one from the start.
\<close>

text \<open>
  Deleting the entry of a process leaves its counters in place, and the next process takes
  over the entry: a process registered after one that died inside a page-table transaction is
  taken to be inside one from the start.
\<close>

text \<open>
  Deleting the entry of a process leaves its counters in place, and the next process takes
  over the entry: a process registered after one that died inside a page-table transaction is
  taken to be inside one from the start.
\<close>

text \<open>
  Deleting the entry of a process leaves its counters in place, and the next process takes
  over the entry: a process registered after one that died inside a page-table transaction is
  taken to be inside one from the start.
\<close>

text \<open>
  Deleting the entry of a process leaves its counters in place, and the next process takes
  over the entry: a process registered after one that died inside a page-table transaction is
  taken to be inside one from the start.
\<close>

theorem reused_entry_keeps_counters:
  assumes "cpu_ok s" and "free_lock LkTrans s" and "i < NTRANS" and "q \<noteq> 0" and "r \<noteq> 0"
    and "tpid (tarr s i) = q" and "\<forall>j < NTRANS. j \<noteq> i \<longrightarrow> tpid (tarr s j) \<notin> {0, q, r}"
  shows "\<exists>t u. delete_trans_info q s = Inr t \<and> register_trans_info r t = Inr u \<and>
    check_and_handle_trans_pagetable r u =
      Inr (if pagetable_ntrans (tarr s i) > 0 then 1
           else if pagetable_ntrans (tarr s i) < 0 then -1 else 0, saved u)"
proof -
  let ?arr = "\<lambda>j. if j < NTRANS \<and> tpid (tarr s j) = q then (tarr s j)\<lparr>tpid := 0\<rparr> else tarr s j"
  let ?t = "saved (s\<lparr>tarr := ?arr\<rparr>)"
  have t: "delete_trans_info q s = Inr ?t"
    using assms(1,2) by (simp add: delete_trans_info_def lock_simps cong: if_cong)
  have idx: "first_idx (\<lambda>j. tpid (?arr j) = 0) NTRANS = Some i"
    by (rule first_idx_unique) (use assms in \<open>auto split: if_splits\<close>)
  let ?u = "?t\<lparr>tarr := (tarr ?t)(i := (tarr ?t i)\<lparr>tpid := r\<rparr>)\<rparr>"
  have u: "register_trans_info r ?t = Inr ?u"
    using assms(1,2) idx by (simp add: register_trans_info_def lock_simps)
  have "last_trans r ?u = Some i"
    unfolding last_trans_def
    by (rule find_rev_unique) (use assms in \<open>auto split: if_splits\<close>)
  then have "check_inside_trans TRANS_PAGETABLE r ?u = Inr (pagetable_ntrans (tarr s i), ?u)"
    using assms by (simp add: check_inside_ok)
  with t u show ?thesis by (auto simp: check_and_handle_trans_pagetable_def)
qed

definition boot_tr :: transtate where
  "boot_tr = rlstate.extend boot_rl (transtate.fields
     (\<lambda>i. \<lparr>tpid = (if i < 3 then i + 1 else 0), pagetable_ntrans = 0, log_ntrans = 0, run_ntrans = 0\<rparr>)
     0 \<lparr>lh_n = 0, lh_block = (\<lambda>_. 0)\<rparr> 0
     \<lparr>lstart = 2, lsize = 30, outstanding = 0, committing = False, ldev = 1,
       lh = \<lparr>lh_n = 0, lh_block = (\<lambda>_. 0)\<rparr>\<rparr>
     \<lparr>lh_n = 0, lh_block = (\<lambda>_. 0)\<rparr> 0 False)"

lemma boot_tr_sel [simp]:
  "hart boot_tr = 0" "cproc boot_tr h = Some h" "noff boot_tr = (\<lambda>_. 0)"
  "sie boot_tr = (\<lambda>_. False)"
  "locks boot_tr lk = \<lparr>locked = False, lname = [], lcpu = None\<rparr>"
  "pid (procs boot_tr i) = i + 1" "nextpid boot_tr = 65"
  "tarr boot_tr i = \<lparr>tpid = (if i < 3 then i + 1 else 0), pagetable_ntrans = 0, log_ntrans = 0, run_ntrans = 0\<rparr>"
  "klog boot_tr = \<lparr>lstart = 2, lsize = 30, outstanding = 0, committing = False, ldev = 1,
       lh = \<lparr>lh_n = 0, lh_block = (\<lambda>_. 0)\<rparr>\<rparr>"
  by (simp_all add: boot_tr_def boot_rl_def boot_sched_def boot_mach_def mach.defs sched.defs
     rlstate.defs transtate.defs)

lemma boot_tr_ok [simp]: "cpu_ok boot_tr" "free_lock lk boot_tr" "curproc boot_tr = Some 0"
  "last_trans 1 boot_tr = Some 0" "trans_ready 0 boot_tr"
proof -
  show 1: "cpu_ok boot_tr" "free_lock lk boot_tr" "curproc boot_tr = Some 0"
    "last_trans 1 boot_tr = Some 0" for lk
    by (auto simp: cpu_ok_def free_lock_def curproc_def last_trans_def
      intro!: find_rev_unique split: if_splits)
  show "trans_ready 0 boot_tr" using 1 by (simp add: trans_ready_def my_index_def)
qed

theorem pagetable_transaction_seen_witness:
  "\<exists>t. foldE (nest_op enter_trans_pagetable exit_trans_pagetable) [True, True, False] boot_tr = Inr t \<and>
    check_and_handle_trans_pagetable 1 t = Inr (1, saved t)"
proof -
  have "0 \<le> balance (take n [True, True, False])" for n by (simp add: take_Cons')
  from pagetable_transaction_seen [OF boot_tr_ok(5,4) _ this] show ?thesis by simp
qed

theorem log_transaction_rolls_back_witness:
  "\<exists>t u. enter_trans_log boot_tr = Inr t \<and>
    check_and_handle_trans_logheader 1 (t\<lparr>klog := klog boot_tr, dup_lhdr := \<lparr>lh_n = 9, lh_block = (\<lambda>_. 7)\<rparr>,
      dup_outstanding := 4\<rparr>) = Inr (0, u) \<and> lh_n (dup_lhdr u) = 0 \<and> dup_outstanding u = 0"
  using log_transaction_rolls_back [OF boot_tr_ok(5,4), where l = "klog boot_tr" and
      d = "\<lparr>lh_n = 9, lh_block = (\<lambda>_. 7)\<rparr>" and n = 4]
  by auto

theorem reused_entry_keeps_counters_witness:
  "\<exists>t u. delete_trans_info 2 (set_trans 1 (\<lambda>t. t\<lparr>pagetable_ntrans := 1\<rparr>)
        (boot_tr\<lparr>tarr := (\<lambda>j. if j = 1 then tarr boot_tr 1 else (tarr boot_tr j)\<lparr>tpid := 1\<rparr>)\<rparr>)) = Inr t \<and>
    register_trans_info 9 t = Inr u \<and> check_and_handle_trans_pagetable 9 u = Inr (1, saved u)"
  using reused_entry_keeps_counters [of "set_trans 1 (\<lambda>t. t\<lparr>pagetable_ntrans := 1\<rparr>)
        (boot_tr\<lparr>tarr := (\<lambda>j. if j = 1 then tarr boot_tr 1 else (tarr boot_tr j)\<lparr>tpid := 1\<rparr>)\<rparr>)" 1 2 9]
  by simp

end
