(* ===== verification/Kalloc.thy ===== *)
theory Kalloc
  imports Trans
begin

text \<open>
  The page allocator (\<open>kernel/kalloc.c\<close>) and the memory-object lists that shadow it
  (\<open>kernel/mlist.c\<close>). Physical memory is one function from (8-byte aligned) addresses to
  64-bit words, read as natural numbers; a null pointer that is followed is \<open>Trap\<close>.
\<close>

section \<open>State\<close>

datatype mlkind = MLbuf | MLfil | MLino | MLlog | MLlhd | MLpip | MLslp | MLspn | MLcon | MLdev
  | MLpr | MLkmm | MLrun

type_synonym memory = "nat \<Rightarrow> nat"

record memstate = transtate +
  mem :: memory
  kmem_at :: nat            \<comment> \<open>the pointer \<open>kmem\<close>\<close>
  freelist :: nat           \<comment> \<open>\<open>kmem->freelist\<close>\<close>
  mhead :: "mlkind \<Rightarrow> nat"  \<comment> \<open>header nodes of \<open>mlist\<close>, 0 before \<open>mlistinit\<close>\<close>
  ptb_list :: nat
  kend :: nat               \<comment> \<open>the linker symbol \<open>end\<close>\<close>
  lock_at :: "lockid \<Rightarrow> nat" \<comment> \<open>addresses of the spinlock objects\<close>
  slock_at :: "nat \<Rightarrow> nat"   \<comment> \<open>addresses of the sleeplock objects\<close>

abbreviation PHYSTOP :: nat where "PHYSTOP \<equiv> 0x88000000"
abbreviation EMPTY :: nat where "EMPTY \<equiv> 0x0101010101010101"
abbreviation JUNK :: nat where "JUNK \<equiv> 0x0505050505050505"

text \<open>\<open>memset(pa, c, PGSIZE)\<close> on the words of a page.\<close>

definition page_fill :: "nat \<Rightarrow> nat \<Rightarrow> memory \<Rightarrow> memory" where
  "page_fill pa w m = (\<lambda>a. if pa \<le> a \<and> a < pa + PGSIZE then w else m a)"

section \<open>Nodes of the M-List\<close>

text \<open>
  A node is two words, \<open>addr\<close> and \<open>next\<close>; the lists are circular through their header.
  Registering first looks for an unused node in the list's pages. The search follows the
  chain of pages and does not end if that chain does not.
\<close>

datatype slot = FreeSlot nat | PageEnd nat | Present | BadPtr

partial_function (option) find_slot :: "memory \<Rightarrow> nat \<Rightarrow> nat \<Rightarrow> slot option" where
  "find_slot m a r =
     (let r1 = (if m r = 0 then m (r + 8) else r) in
      if r1 mod 4096 = 0xff0 then Some (PageEnd r1)
      else if r1 = 0 then Some BadPtr
      else if m r1 = EMPTY \<or> m r1 = JUNK then Some (FreeSlot r1)
      else if m r1 = a then Some Present
      else find_slot m a (r1 + 16))"

datatype found = Node nat nat | NoNode | BadNext

text \<open>The node before the one to delete, and that node.\<close>

partial_function (option) find_prev ::
  "memory \<Rightarrow> nat \<Rightarrow> (nat \<Rightarrow> bool) \<Rightarrow> nat \<Rightarrow> found option" where
  "find_prev m h P b =
     (let d = m (b + 8) in
      if d = h then Some NoNode
      else if d = 0 then Some BadNext
      else if P (m d) then Some (Node b d)
      else find_prev m h P d)"

definition ml_insert :: "nat \<Rightarrow> nat \<Rightarrow> nat \<Rightarrow> memory \<Rightarrow> memory" where
  "ml_insert h r a m = (let m = m(r := a); m = m(r + 8 := m (h + 8)) in m(h + 8 := r))"

definition ml_unlink :: "nat \<Rightarrow> nat \<Rightarrow> memory \<Rightarrow> memory" where
  "ml_unlink b d m = (let m = m(b + 8 := m (d + 8)); m = m(d := EMPTY) in m(d + 8 := EMPTY))"

definition match_addr :: "nat \<Rightarrow> nat \<Rightarrow> nat \<Rightarrow> bool" where
  "match_addr a sz x = (if sz = 0 then x = a else a \<le> x \<and> x \<le> a + sz)"

definition delete_memobj :: "nat \<Rightarrow> nat \<Rightarrow> nat \<Rightarrow> 'a memstate_scheme \<Rightarrow> 'a memstate_scheme res" where
  "delete_memobj a h sz s =
     bindE (holding LkGiant s) (\<lambda>(held, s).
     bindE (if \<not> held then acquire LkGiant s else Inr s) (\<lambda>s.
     let fin = (\<lambda>s. bindE (holding LkGiant s) (\<lambda>(r, s).
                  if r \<and> \<not> held then release LkGiant s else Inr s)) in
     case find_prev (mem s) h (match_addr a sz) h of
       None \<Rightarrow> Inl Blocked
     | Some BadNext \<Rightarrow> Inl Trap
     | Some NoNode \<Rightarrow> fin s
     | Some (Node b d) \<Rightarrow> fin (s\<lparr>mem := ml_unlink b d (mem s)\<rparr>)))"

section \<open>Pages for the M-List itself\<close>

text \<open>A run of \<open>i\<close> pages going down from \<open>r\<close> in the free list.\<close>

fun contig :: "memory \<Rightarrow> nat \<Rightarrow> nat \<Rightarrow> nat \<Rightarrow> (nat \<times> nat \<times> nat) option" where
  "contig m r low 0 = Some (0, r, low)"
| "contig m r low (Suc i) =
     (if r = 0 then None
      else if r = m r + PGSIZE then contig m (m r) r i
      else Some (Suc i, r, low))"

datatype pages = Pages nat nat | NoPages | BadRun

text \<open>The search of \<open>my_kalloc\<close> for \<open>multi\<close> contiguous pages, from the node \<open>br\<close>.\<close>

partial_function (option) multi_scan :: "memory \<Rightarrow> nat \<Rightarrow> nat \<Rightarrow> nat \<Rightarrow> pages option" where
  "multi_scan m fl n br =
     (if br = 0 then Some BadRun
      else let r = m br in
        if r = fl \<and> r = 0 then Some NoPages
        else case contig m r 0 n of
            None \<Rightarrow> Some BadRun
          | Some (i, r1, low) \<Rightarrow>
              if i = 0 then Some (Pages br low)
              else if r = 0 then Some NoPages
              else if m r1 = 0 then Some BadRun
              else multi_scan m fl n (m (m r1)))"

definition single_page :: "nat \<Rightarrow> 'a memstate_scheme \<Rightarrow> (nat \<times> 'a memstate_scheme) res" where
  "single_page avoid s = (let r = freelist s in
     if r = avoid then
       if r = 0 then Inl Trap
       else let r2 = mem s r in
         Inr (r2, if r2 \<noteq> 0 then s\<lparr>mem := (mem s)(r := mem s r2)\<rparr> else s)
     else Inr (r, if r \<noteq> 0 then s\<lparr>freelist := mem s r\<rparr> else s))"

definition multi_page :: "nat \<Rightarrow> 'a memstate_scheme \<Rightarrow> (nat \<times> bool \<times> 'a memstate_scheme) res" where
  "multi_page n s = (case multi_scan (mem s) (freelist s) n (freelist s) of
       None \<Rightarrow> Inl Blocked
     | Some BadRun \<Rightarrow> Inl Trap
     | Some NoPages \<Rightarrow> Inr (0, True, s)
     | Some (Pages br low) \<Rightarrow> Inr (low, False, s\<lparr>mem := (mem s)(br := mem s low)\<rparr>))"

definition my_kalloc :: "nat \<Rightarrow> int \<Rightarrow> 'a memstate_scheme \<Rightarrow> (nat \<times> 'a memstate_scheme) res" where
  "my_kalloc avoid multi s =
     bindE (acquire LkKmem s) (\<lambda>s.
     bindE (if multi > 1 then multi_page (nat multi) s
            else bindE (single_page avoid s) (\<lambda>(r, s). Inr (r, False, s))) (\<lambda>(r, early, s).
       if early then Inr (0, s)
       else bindE (holding LkKmem s) (\<lambda>(h, s).
            bindE (if h then release LkKmem s else Inr s) (\<lambda>s.
            bindE (if r \<noteq> 0 \<and> mhead s MLrun \<noteq> 0 then delete_memobj r (mhead s MLrun) 0 s else Inr s)
              (\<lambda>s. Inr (r, s))))))"

definition register_memobj :: "nat \<Rightarrow> nat \<Rightarrow> 'a memstate_scheme \<Rightarrow> 'a memstate_scheme res" where
  "register_memobj a h s =
     bindE (acquire LkGiant s) (\<lambda>s.
     case find_slot (mem s) a (h + 16) of
       None \<Rightarrow> Inl Blocked
     | Some BadPtr \<Rightarrow> Inl Trap
     | Some Present \<Rightarrow> release LkGiant s
     | Some (FreeSlot r) \<Rightarrow> release LkGiant (s\<lparr>mem := ml_insert h r a (mem s)\<rparr>)
     | Some (PageEnd r) \<Rightarrow> bindE (my_kalloc a 0 s) (\<lambda>(pg, s).
         if pg = 0 then Inl Trap
         else release LkGiant (s\<lparr>mem :=
           ml_insert h pg a ((mem s)(pg := EMPTY, r := 0, r + 8 := pg))\<rparr>)))"

section \<open>The page allocator\<close>

definition kfree :: "nat \<Rightarrow> 'a memstate_scheme \<Rightarrow> 'a memstate_scheme res" where
  "kfree pa s =
     (if pa mod PGSIZE \<noteq> 0 \<or> pa < kend s \<or> PHYSTOP \<le> pa then Inl (Panic ''kfree'')
      else bindE (enter_recovery_critical_section RL_KMEM 0 (s\<lparr>mem := page_fill pa EMPTY (mem s)\<rparr>)) (\<lambda>s.
        bindE (acquire LkKmem s) (\<lambda>s.
        bindE (enter_trans_run pa s) (\<lambda>s.
        bindE (if mhead s MLrun \<noteq> 0 then register_memobj pa (mhead s MLrun) s else Inr s) (\<lambda>s.
        bindE (exit_trans_run (s\<lparr>mem := (mem s)(pa := freelist s), freelist := pa\<rparr>)) (\<lambda>s.
        bindE (release LkKmem s) (exit_recovery_critical_section RL_KMEM 0)))))))"

definition kalloc :: "'a memstate_scheme \<Rightarrow> (nat \<times> 'a memstate_scheme) res" where
  "kalloc s =
     bindE (enter_recovery_critical_section RL_KMEM 0 s) (\<lambda>s.
     bindE (acquire LkKmem s) (\<lambda>s. let r = freelist s; s = (if r \<noteq> 0 then s\<lparr>freelist := mem s r\<rparr> else s) in
     bindE (if r \<noteq> 0 \<and> mhead s MLrun \<noteq> 0 then delete_memobj r (mhead s MLrun) 0 s else Inr s) (\<lambda>s.
     bindE (release LkKmem s) (\<lambda>s.
     bindE (exit_recovery_critical_section RL_KMEM 0 s) (\<lambda>s.
       Inr (r, if r \<noteq> 0 then s\<lparr>mem := page_fill r JUNK (mem s)\<rparr> else s))))))"

function freerange_from :: "nat \<Rightarrow> nat \<Rightarrow> 'a memstate_scheme \<Rightarrow> 'a memstate_scheme res" where
  "freerange_from p e s =
     (if p + PGSIZE \<le> e then bindE (kfree p s) (freerange_from (p + PGSIZE) e) else Inr s)"
  by pat_completeness auto
termination
  by (relation "measure (\<lambda>(p, e, s). e - p)") auto

declare freerange_from.simps [simp del]

definition pgroundup :: "nat \<Rightarrow> nat" where
  "pgroundup a = (a + (PGSIZE - 1)) div PGSIZE * PGSIZE"

definition freerange :: "nat \<Rightarrow> nat \<Rightarrow> 'a memstate_scheme \<Rightarrow> 'a memstate_scheme res" where
  "freerange a e s = freerange_from (pgroundup a) e s"

text \<open>Initialising a lock registers it once the M-List of spinlocks exists.\<close>

definition initlock :: "lockid \<Rightarrow> string \<Rightarrow> 'a memstate_scheme \<Rightarrow> 'a memstate_scheme res" where
  "initlock lk name s = (let s = initlock_fields lk name s in
     if mhead s MLspn \<noteq> 0 then register_memobj (lock_at s lk) (mhead s MLspn) s else Inr s)"

definition initsleeplock :: "nat \<Rightarrow> string \<Rightarrow> 'a memstate_scheme \<Rightarrow> 'a memstate_scheme res" where
  "initsleeplock n name s =
     bindE (initlock (LkSleep n) ''sleep lock'' s) (\<lambda>s.
     let s = s\<lparr>slocks := (slocks s)(n := \<lparr>slocked = False, slname = name, spid = 0\<rparr>)\<rparr> in
     if mhead s MLslp \<noteq> 0 then register_memobj (slock_at s n) (mhead s MLslp) s else Inr s)"

definition kinit :: "'a memstate_scheme \<Rightarrow> 'a memstate_scheme res" where
  "kinit s = bindE (initlock LkKmem ''kmem'' s) (\<lambda>s. freerange (kend s) PHYSTOP s)"

text \<open>\<open>trans.c\<close>: a run caught between the free list and the M-List goes back to both.\<close>

definition check_and_handle_trans_run :: "nat \<Rightarrow> 'a memstate_scheme \<Rightarrow> 'a memstate_scheme res" where
  "check_and_handle_trans_run p s = bindE (check_inside_trans TRANS_RUN p s) (\<lambda>(n, s).
     if n > 0 \<and> kmem_at s \<noteq> log_run s then
       bindE (acquire LkKmem s) (\<lambda>s.
       if log_run s = 0 then Inl Trap else
       bindE (register_memobj (log_run s) (mhead s MLrun)
         (s\<lparr>mem := (mem s)(log_run s := freelist s), freelist := log_run s\<rparr>)) (\<lambda>s.
       bindE (release LkKmem s) exit_trans_run))
     else if n < 0 then Inl (Panic ''check_and_handle_trans_run: Invalid ntrans value.'')
     else Inr s)"

end
