(* ===== verification/MList.thy ===== *)
theory MList
  imports Kalloc
begin

text \<open>
  The memory-object lists as lists: what \<open>ml_insert\<close> and \<open>ml_unlink\<close> do to the nodes
  of a list, what the search for an unused node finds, and with them what
  \<open>register_memobj\<close> and \<open>delete_memobj\<close> do to the set of registered objects.
\<close>

section \<open>Lists in memory\<close>

text \<open>\<open>nodes m h b ns\<close>: from node \<open>b\<close> the list runs through \<open>ns\<close> back to the header.\<close>

fun nodes :: "memory \<Rightarrow> nat \<Rightarrow> nat \<Rightarrow> nat list \<Rightarrow> bool" where
  "nodes m h b [] \<longleftrightarrow> m (b + 8) = h"
| "nodes m h b (n # ns) \<longleftrightarrow> m (b + 8) = n \<and> n \<noteq> h \<and> n \<noteq> 0 \<and> nodes m h n ns"

definition spaced :: "nat list \<Rightarrow> bool" where
  "spaced ns \<longleftrightarrow> distinct ns \<and> (\<forall>n \<in> set ns. n mod 16 = 0)"

definition mlist_at :: "memory \<Rightarrow> nat \<Rightarrow> nat list \<Rightarrow> bool" where
  "mlist_at m h ns \<longleftrightarrow> nodes m h h ns \<and> spaced (h # ns)"

lemma nodes_frame:
  assumes "nodes m h b ns" and "\<And>x. x \<in> set (b # ns) \<Longrightarrow> m' (x + 8) = m (x + 8)"
  shows "nodes m' h b ns"
  using assms by (induction ns arbitrary: b) auto

lemma nodes_append:
  "nodes m h b (xs @ d # ys) \<longleftrightarrow>
     nodes m d b xs \<and> d \<noteq> h \<and> d \<noteq> 0 \<and> h \<notin> set xs \<and> nodes m h d ys" if "d \<notin> set xs"
  using that by (induction xs arbitrary: b) auto

lemma find_prev_Node:
  assumes "nodes m h b (xs @ d # ys)" and "\<And>x. x \<in> set xs \<Longrightarrow> \<not> P (m x)" and "P (m d)"
  shows "find_prev m h P b = Some (Node (last (b # xs)) d)"
  using assms
proof (induction xs arbitrary: b)
  case Nil
  then show ?case by (subst find_prev.simps) (simp add: Let_def)
next
  case (Cons x xs)
  then show ?case by (subst find_prev.simps) (simp add: Let_def)
qed

lemma find_prev_NoNode:
  assumes "nodes m h b ns" and "\<And>x. x \<in> set ns \<Longrightarrow> \<not> P (m x)"
  shows "find_prev m h P b = Some NoNode"
  using assms by (induction ns arbitrary: b) (subst find_prev.simps, simp add: Let_def)+

lemma spaced_apart:
  assumes "spaced ns" and "x \<in> set ns" and "y \<in> set ns"
  shows "x + 8 \<noteq> y" and "(x + 8 = y + 8) = (x = y)"
proof -
  have "x mod 16 = 0" "y mod 16 = 0" using assms by (auto simp: spaced_def)
  then show "x + 8 \<noteq> y" by presburger
qed simp

lemma ml_insert_ok:
  assumes "mlist_at m h ns" and "spaced (r # h # ns)" and "r \<noteq> 0"
  shows "mlist_at (ml_insert h r a m) h (r # ns)"
    and "map (ml_insert h r a m) (r # ns) = a # map m ns"
proof -
  have ap: "x + 8 \<noteq> y" if "x \<in> set (r # h # ns)" "y \<in> set (r # h # ns)" for x y
    using spaced_apart(1) [OF assms(2) that] .
  have d: "r \<noteq> h" "r \<notin> set ns" "h \<notin> set ns" using assms(2) by (auto simp: spaced_def)
  have hd: "m (h + 8) = (case ns of [] \<Rightarrow> h | n # _ \<Rightarrow> n)"
    using assms(1) by (cases ns) (auto simp: mlist_at_def)
  let ?m = "ml_insert h r a m"
  have same: "?m (x + 8) = m (x + 8)" if "x \<in> set ns" for x
    using that d ap [of x r] by (auto simp: ml_insert_def Let_def)
  have "nodes ?m h r ns"
  proof (cases ns)
    case Nil
    then show ?thesis using hd ap [of h r] d by (simp add: ml_insert_def Let_def)
  next
    case (Cons n ns')
    have "nodes m h n ns'" "n \<noteq> h" "n \<noteq> 0" using assms(1) Cons by (auto simp: mlist_at_def)
    moreover have "nodes ?m h n ns'"
      by (rule nodes_frame [OF \<open>nodes m h n ns'\<close>]) (use same Cons in auto)
    ultimately show ?thesis using hd Cons ap [of h r] d by (simp add: ml_insert_def Let_def)
  qed
  moreover have "?m (h + 8) = r" by (simp add: ml_insert_def Let_def)
  ultimately show "mlist_at ?m h (r # ns)"
    using assms d by (auto simp: mlist_at_def spaced_def)
  have "?m x = m x" if "x \<in> set ns" for x
    using that d ap [of r x] ap [of h x] by (auto simp: ml_insert_def Let_def)
  moreover have "?m r = a" using ap [of r r] ap [of h r] by (auto simp: ml_insert_def Let_def)
  ultimately show "map ?m (r # ns) = a # map m ns" by simp
qed

lemma ml_unlink_ok:
  assumes "mlist_at m h (xs @ d # ys)"
  defines "m' \<equiv> ml_unlink (last (h # xs)) d m"
  shows "mlist_at m' h (xs @ ys)" and "map m' (xs @ ys) = map m (xs @ ys)"
    and "m' d = EMPTY"
proof -
  let ?b = "last (h # xs)"
  have sp: "spaced (h # xs @ d # ys)" using assms(1) by (simp add: mlist_at_def)
  have ap: "x + 8 \<noteq> y" if "x \<in> set (h # xs @ d # ys)" "y \<in> set (h # xs @ d # ys)" for x y
    using spaced_apart(1) [OF sp that] .
  have b: "?b \<in> set (h # xs)" by (rule last_in_set) simp
  have d: "d \<notin> set (h # xs)" "d \<notin> set ys" "h \<notin> set (xs @ ys)" "distinct (xs @ ys)"
    using sp by (auto simp: spaced_def)
  have same8: "m' (x + 8) = m (x + 8)" if "x \<in> set (h # xs @ ys)" "x \<noteq> ?b" for x
    using that d ap [of x d] by (auto simp: m'_def ml_unlink_def Let_def)
  have b8: "m' (?b + 8) = m (d + 8)"
    using ap [of ?b d] b d by (auto simp: m'_def ml_unlink_def Let_def)
  have split: "nodes m d h xs" "nodes m h d ys" "h \<notin> set xs"
    using assms(1) d nodes_append [of d xs m h h ys] by (auto simp: mlist_at_def)
  have chain: "nodes m' h c (zs @ ys)"
    if "nodes m d c zs" "nodes m h d ys" "distinct (c # zs)" "last (c # zs) = ?b"
      "set (c # zs) \<subseteq> set (h # xs)" "h \<notin> set zs" for c zs
    using that
  proof (induction zs arbitrary: c)
    case Nil
    then have c: "c = ?b" by simp
    show ?case
    proof (cases ys)
      case Nil
      then show ?thesis using that(2) b8 c by simp
    next
      case (Cons y ys')
      have "nodes m h y ys'" "m (d + 8) = y" "y \<noteq> h" "y \<noteq> 0" using that(2) Cons by auto
      moreover have "nodes m' h y ys'"
      proof (rule nodes_frame [OF \<open>nodes m h y ys'\<close>])
        fix x assume "x \<in> set (y # ys')"
        then have "x \<in> set ys" using Cons by simp
        moreover have "x \<noteq> ?b" using calculation b sp by (auto simp: spaced_def)
        ultimately show "m' (x + 8) = m (x + 8)" using same8 by auto
      qed
      ultimately show ?thesis using b8 c Cons by simp
    qed
  next
    case (Cons z zs)
    have "c \<noteq> ?b"
    proof
      assume "c = ?b"
      moreover have "last (c # z # zs) \<in> set (z # zs)" by (metis last_ConsR last_in_set list.distinct(1))
      ultimately show False using Cons.prems(3,4) by auto
    qed
    then have "m' (c + 8) = z" using same8 [of c] Cons.prems by auto
    moreover have "nodes m' h z (zs @ ys)" by (rule Cons.IH) (use Cons.prems in auto)
    moreover have "z \<noteq> 0" using Cons.prems by auto
    ultimately show ?case using Cons.prems by auto
  qed
  have "nodes m' h h (xs @ ys)" by (rule chain) (use split sp in \<open>auto simp: spaced_def\<close>)
  then show "mlist_at m' h (xs @ ys)" using sp by (auto simp: mlist_at_def spaced_def)
  have "m' x = m x" if "x \<in> set (xs @ ys)" for x
    using that d ap [of ?b x] ap [of d x] b by (auto simp: m'_def ml_unlink_def Let_def)
  then show "map m' (xs @ ys) = map m (xs @ ys)" by simp
  show "m' d = EMPTY" using ap [of d d] by (simp add: m'_def ml_unlink_def Let_def)
qed

section \<open>The search for an unused node\<close>

text \<open>
  A chain of pages of nodes: 255 nodes each and a last node whose \<open>addr\<close> is 0 and whose
  \<open>next\<close> is the next page; in the last page that node is not 0.
\<close>

fun slot_pages :: "memory \<Rightarrow> nat \<Rightarrow> nat list \<Rightarrow> bool" where
  "slot_pages m p ps \<longleftrightarrow> p mod 4096 = 0 \<and> p \<noteq> 0 \<and> (\<forall>k < 255. m (p + 16 * k) \<noteq> 0) \<and>
     (case ps of [] \<Rightarrow> m (p + 0xff0) \<noteq> 0
      | q # qs \<Rightarrow> m (p + 0xff0) = 0 \<and> m (p + 0xff8) = q \<and> slot_pages m q qs)"

declare slot_pages.simps [simp del]

definition page_nodes :: "nat \<Rightarrow> nat \<Rightarrow> nat list" where
  "page_nodes p k = map (\<lambda>j. p + 16 * j) [k..<255]"

text \<open>The nodes in the order of the search: the header's page from its second node on.\<close>

definition search_order :: "nat \<Rightarrow> nat list \<Rightarrow> nat list" where
  "search_order h ps = page_nodes h 1 @ concat (map (\<lambda>q. page_nodes q 0) ps)"

definition stops_at :: "memory \<Rightarrow> nat \<Rightarrow> nat \<Rightarrow> bool" where
  "stops_at m a r \<longleftrightarrow> m r \<in> {EMPTY, JUNK, a}"

definition slot_at :: "memory \<Rightarrow> nat \<Rightarrow> slot" where
  "slot_at m r = (if m r = EMPTY \<or> m r = JUNK then FreeSlot r else Present)"

lemma find_slot_step:
  assumes "m r \<noteq> 0" and "r mod 4096 \<noteq> 0xff0" and "r \<noteq> 0"
  shows "find_slot m a r = (if stops_at m a r then Some (slot_at m r) else find_slot m a (r + 16))"
  using assms by (subst find_slot.simps) (auto simp: stops_at_def slot_at_def)

lemma find_slot_link:
  assumes "m x = 0" and "m (x + 8) = q" and "m q \<noteq> 0"
  shows "find_slot m a x = find_slot m a q"
  using assms by (subst find_slot.simps, subst (2) find_slot.simps) (simp add: Let_def)

lemma page_addr_mod:
  fixes p :: nat
  assumes "p mod 4096 = 0" and "k < 255"
  shows "(p + 16 * k) mod 4096 \<noteq> 0xff0"
proof -
  obtain c where "p = 4096 * c" using assms(1) by blast
  then have "(p + 16 * k) mod 4096 = 16 * k" using assms(2) by simp
  then show ?thesis using assms(2) by auto
qed

lemma find_slot_page:
  assumes "p mod 4096 = 0" and "p \<noteq> 0" and "\<forall>j < 255. m (p + 16 * j) \<noteq> 0" and "k \<le> 255"
  shows "find_slot m a (p + 16 * k) = (case find (stops_at m a) (page_nodes p k) of
     Some r \<Rightarrow> Some (slot_at m r) | None \<Rightarrow> find_slot m a (p + 0xff0))"
  using assms(4)
proof (induction "255 - k" arbitrary: k)
  case 0
  then have "k = 255" by simp
  then show ?case by (simp add: page_nodes_def)
next
  case (Suc n)
  then have k: "k < 255" by simp
  have cons: "page_nodes p k = (p + 16 * k) # page_nodes p (Suc k)"
    using k by (simp add: page_nodes_def upt_conv_Cons)
  have "find_slot m a (p + 16 * k) = (if stops_at m a (p + 16 * k) then Some (slot_at m (p + 16 * k))
      else find_slot m a (p + 16 * Suc k))"
  proof -
    have e: "p + 16 * Suc k = p + 16 * k + 16" by simp
    show ?thesis unfolding e by (rule find_slot_step) (use k assms page_addr_mod in auto)
  qed
  moreover have "find_slot m a (p + 16 * Suc k) = (case find (stops_at m a) (page_nodes p (Suc k)) of
     Some r \<Rightarrow> Some (slot_at m r) | None \<Rightarrow> find_slot m a (p + 0xff0))"
    by (rule Suc.hyps(1)) (use Suc.hyps(2) k in auto)
  ultimately show ?case unfolding cons by simp
qed

lemma find_append:
  "find P (xs @ ys) = (case find P xs of None \<Rightarrow> find P ys | Some x \<Rightarrow> Some x)"
  by (induction xs) auto

text \<open>
  The search ends, at the first node that is unused or holds the address already, and
  otherwise at the last node of the last page.
\<close>

lemma find_slot_pages:
  assumes "slot_pages m p ps" and "k \<le> 255"
  shows "find_slot m a (p + 16 * k) =
    Some (case find (stops_at m a) (page_nodes p k @ concat (map (\<lambda>q. page_nodes q 0) ps)) of
       Some r \<Rightarrow> slot_at m r | None \<Rightarrow> PageEnd (last (p # ps) + 0xff0))"
  using assms
proof (induction ps arbitrary: p k)
  case Nil
  from Nil.prems(1) have p: "p mod 4096 = 0" "p \<noteq> 0" "\<forall>j < 255. m (p + 16 * j) \<noteq> 0" "m (p + 0xff0) \<noteq> 0"
    by (auto simp: slot_pages.simps)
  obtain c where "p = 4096 * c" using p(1) by blast
  then have "(p + 0xff0) mod 4096 = 0xff0" by simp
  then have "find_slot m a (p + 0xff0) = Some (PageEnd (p + 0xff0))"
    using p(4) by (subst find_slot.simps) (simp add: Let_def)
  then show ?case
    using find_slot_page [OF p(1-3) Nil.prems(2)] by (simp split: option.split)
next
  case (Cons q qs)
  from Cons.prems(1) have p: "p mod 4096 = 0" "p \<noteq> 0" "\<forall>j < 255. m (p + 16 * j) \<noteq> 0"
    "m (p + 0xff0) = 0" "m (p + 0xff8) = q" "slot_pages m q qs"
    by (auto simp: slot_pages.simps [of m p])
  then have q: "q mod 4096 = 0" "q \<noteq> 0" "m q \<noteq> 0"
    by (auto simp: slot_pages.simps [of m q] dest: spec [of _ 0])
  have "find_slot m a (p + 0xff0) = find_slot m a q"
    by (rule find_slot_link) (use p(4,5) q in \<open>simp_all add: add.commute\<close>)
  also have "\<dots> = Some (case find (stops_at m a) (page_nodes q 0 @ concat (map (\<lambda>q. page_nodes q 0) qs)) of
       Some r \<Rightarrow> slot_at m r | None \<Rightarrow> PageEnd (last (q # qs) + 0xff0))"
    using Cons.IH [OF p(6), of 0] by simp
  finally have nxt: "find_slot m a (p + 0xff0) = \<dots>" .
  show ?case
    using find_slot_page [OF p(1-3) Cons.prems(2)]
    by (simp add: nxt find_append split: option.split)
qed

section \<open>Registering and deleting\<close>

lemma mem_fields_taken [simp]:
  "mem (taken lk s) = mem s" "mem (saved s) = mem s" "mem (dropped lk s) = mem s"
  "freelist (taken lk s) = freelist s" "freelist (saved s) = freelist s"
  "mhead (taken lk s) = mhead s" "mhead (saved s) = mhead s"
  "kmem_at (taken lk s) = kmem_at s" "kmem_at (saved s) = kmem_at s"
  "kend (taken lk s) = kend s" "kend (saved s) = kend s"
  by (simp_all add: taken_def saved_def dropped_def)

lemma mem_update_taken [simp]:
  "mem_update f (taken lk s) = taken lk (mem_update f s)" "mem_update f (saved s) = saved (mem_update f s)"
  "freelist_update g (taken lk s) = taken lk (freelist_update g s)"
  "freelist_update g (saved s) = saved (freelist_update g s)"
  "cpu_ok (mem_update f s) = cpu_ok s" "cpu_ok (freelist_update g s) = cpu_ok s"
  "free_lock lk (mem_update f s) = free_lock lk s" "free_lock lk (freelist_update g s) = free_lock lk s"
  "curproc (mem_update f s) = curproc s" "curproc (freelist_update g s) = curproc s"
  "holds lk (mem_update f s) = holds lk s" "holds lk (freelist_update g s) = holds lk s"
  by (simp_all add: taken_def saved_def cpu_ok_def free_lock_def curproc_def holds_def)

lemma free_not_holds: "free_lock lk s \<Longrightarrow> \<not> holds lk s"
  by (simp add: free_lock_def holds_def)

lemma delete_memobj_ok:
  assumes "cpu_ok s" and "free_lock LkGiant s"
  shows "find_prev (mem s) h (match_addr a sz) h = Some (Node b d) \<Longrightarrow>
      delete_memobj a h sz s = Inr (saved (s\<lparr>mem := ml_unlink b d (mem s)\<rparr>))"
    and "find_prev (mem s) h (match_addr a sz) h = Some NoNode \<Longrightarrow>
      delete_memobj a h sz s = Inr (saved s)"
  using assms
  by (simp_all add: delete_memobj_def lock_simps free_not_holds Let_def)

lemma register_memobj_ok:
  assumes "cpu_ok s" and "free_lock LkGiant s"
  shows "find_slot (mem s) a (h + 16) = Some (FreeSlot r) \<Longrightarrow>
      register_memobj a h s = Inr (saved (s\<lparr>mem := ml_insert h r a (mem s)\<rparr>))"
    and "find_slot (mem s) a (h + 16) = Some Present \<Longrightarrow> register_memobj a h s = Inr (saved s)"
    and "find_slot (mem s) a (h + 16) = Some (PageEnd r) \<Longrightarrow> holds LkKmem s \<Longrightarrow>
      register_memobj a h s = Inl (Panic ''acquire'')"
  using assms
  by (simp_all add: register_memobj_def lock_simps my_kalloc_def acquire_self)

text \<open>A list of registered objects with the pages its nodes are searched in.\<close>

definition registry :: "memory \<Rightarrow> nat \<Rightarrow> nat list \<Rightarrow> nat list \<Rightarrow> bool" where
  "registry m h ps ns \<longleftrightarrow> mlist_at m h ns \<and> slot_pages m h ps \<and> distinct (h # ps) \<and>
     set ns \<subseteq> set (search_order h ps) \<and>
     (\<forall>r \<in> set (search_order h ps). r \<notin> set ns \<longrightarrow> m r = EMPTY \<or> m r = JUNK) \<and>
     (\<forall>n \<in> set ns. m n \<noteq> EMPTY \<and> m n \<noteq> JUNK)"

lemma registry_find_slot:
  assumes "registry m h ps ns"
  shows "find_slot m a (h + 16) = Some (case find (stops_at m a) (search_order h ps) of
     Some r \<Rightarrow> slot_at m r | None \<Rightarrow> PageEnd (last (h # ps) + 0xff0))"
  using find_slot_pages [of m h ps 1 a] assms by (simp add: registry_def search_order_def)

lemma slot_pages_frame:
  assumes "slot_pages m p ps"
    and "\<And>q k. q \<in> set (p # ps) \<Longrightarrow> k < 255 \<Longrightarrow> m' (q + 16 * k) \<noteq> 0"
    and "\<And>q. q \<in> set (p # ps) \<Longrightarrow> m' (q + 0xff0) = m (q + 0xff0) \<and> m' (q + 0xff8) = m (q + 0xff8)"
  shows "slot_pages m' p ps"
  using assms
proof (induction ps arbitrary: p)
  case Nil
  then show ?case by (simp add: slot_pages.simps)
next
  case (Cons q qs)
  from Cons.prems(1) have "p mod 4096 = 0" "p \<noteq> 0" "m (p + 0xff0) = 0" "m (p + 0xff8) = q"
    "slot_pages m q qs" by (simp_all add: slot_pages.simps [of m p])
  moreover have "slot_pages m' q qs" by (rule Cons.IH) (use \<open>slot_pages m q qs\<close> Cons.prems in auto)
  ultimately show ?case using Cons.prems(2,3) [of p] by (subst slot_pages.simps) simp
qed

lemma slot_pages_pages:
  assumes "slot_pages m p ps" and "q \<in> set (p # ps)"
  shows "q mod 4096 = 0" and "q \<noteq> 0" and "k < 255 \<Longrightarrow> m (q + 16 * k) \<noteq> 0"
  using assms
proof (induction ps arbitrary: p)
  case (Cons x xs)
  { case 1 then show ?case using Cons.IH(1) [of x] by (auto simp: slot_pages.simps [of m p]) }
  { case 2 then show ?case using Cons.IH(2) [of x] by (auto simp: slot_pages.simps [of m p]) }
  { case 3 then show ?case using Cons.IH(3) [of x] by (auto simp: slot_pages.simps [of m p]) }
qed (auto simp: slot_pages.simps)

lemma set_search_order:
  "x \<in> set (search_order h ps) \<longleftrightarrow>
     (\<exists>k. 0 < k \<and> k < 255 \<and> x = h + 16 * k) \<or> (\<exists>q \<in> set ps. \<exists>k < 255. x = q + 16 * k)"
  by (auto simp: search_order_def page_nodes_def image_iff Bex_def)

lemma search_orderD:
  assumes "slot_pages m h ps" and "distinct (h # ps)" and "x \<in> set (search_order h ps)"
  shows "x mod 16 = 0" and "x mod 4096 \<noteq> 0xff0" and "x \<noteq> 0" and "x \<noteq> h"
proof -
  from assms(3) obtain q k where q: "q \<in> set (h # ps)" "k < 255" "x = q + 16 * k" "q = h \<longrightarrow> 0 < k"
    using assms(2) unfolding set_search_order by auto
  note pg = slot_pages_pages [OF assms(1) q(1)]
  note hg = slot_pages_pages [OF assms(1), of h]
  show "x mod 4096 \<noteq> 0xff0" using page_addr_mod [OF pg(1) q(2)] q(3) by simp
  show "x \<noteq> 0" using pg(2) q(3) by simp
  obtain c where c: "q = 4096 * c" using pg(1) by blast
  obtain e where e: "h = 4096 * e" using hg(1) by auto
  have "x = 16 * (256 * c + k)" using c q(3) by simp
  then show "x mod 16 = 0" by simp
  show "x \<noteq> h"
  proof
    assume "x = h"
    then have "4096 * c + 16 * k = 4096 * e" using q(3) c e by simp
    then have "256 * c + k = 256 * e" by simp
    then have "(256 * c + k) mod 256 = 256 * e mod 256" by (rule arg_cong)
    then have "k = 0" using q(2) by simp
    then show False using \<open>x = h\<close> q(3,4) by simp
  qed
qed

lemma search_orderI:
  assumes "q \<in> set (h # ps)" and "k < 255" and "q + 16 * k \<noteq> h"
  shows "q + 16 * k \<in> set (search_order h ps)"
proof (cases "q = h")
  case True
  with assms(2,3) have "0 < k" by (cases k) auto
  with True assms(2) show ?thesis unfolding set_search_order by blast
next
  case False
  with assms(1,2) show ?thesis unfolding set_search_order by auto
qed

text \<open>An update of memory that keeps the words a registry rests on.\<close>

lemma registry_step:
  assumes reg: "registry m h ps ns" and ml: "mlist_at m' h ns'"
    and sub: "set ns' \<subseteq> set (search_order h ps)"
    and own: "\<And>x. x \<in> set (search_order h ps) \<Longrightarrow>
        if x \<in> set ns' then m' x \<notin> {0, EMPTY, JUNK} else m' x \<in> {EMPTY, JUNK}"
    and hd: "m' h = m h"
    and link: "\<And>y. y mod 4096 = 0xff0 \<Longrightarrow> m' y = m y \<and> m' (y + 8) = m (y + 8)"
  shows "registry m' h ps ns'"
proof -
  have sp: "slot_pages m h ps" and di: "distinct (h # ps)" using reg by (simp_all add: registry_def)
  have "slot_pages m' h ps"
  proof (rule slot_pages_frame [OF sp])
    fix q k :: nat assume q: "q \<in> set (h # ps)" and k: "k < 255"
    show "m' (q + 16 * k) \<noteq> 0"
    proof (cases "q + 16 * k = h")
      case True
      then show ?thesis using hd slot_pages_pages(3) [OF sp q k] by simp
    next
      case False
      then show ?thesis using own [OF search_orderI [OF q k False]] by (auto split: if_splits)
    qed
  next
    fix q assume q: "q \<in> set (h # ps)"
    obtain c where "q = 4096 * c" using slot_pages_pages(1) [OF sp q] by blast
    then have "(q + 0xff0) mod 4096 = 0xff0" by simp
    from link [OF this] show "m' (q + 0xff0) = m (q + 0xff0) \<and> m' (q + 0xff8) = m (q + 0xff8)"
      by (simp add: add.commute)
  qed
  moreover have "m' n \<noteq> EMPTY \<and> m' n \<noteq> JUNK" if "n \<in> set ns'" for n
    using own [of n] that sub by (auto split: if_splits)
  moreover have "m' r = EMPTY \<or> m' r = JUNK" if "r \<in> set (search_order h ps)" "r \<notin> set ns'" for r
    using own [OF that(1)] that(2) by simp
  ultimately show ?thesis using ml sub di by (auto simp: registry_def)
qed

lemma mod_4096_16: "(y :: nat) mod 4096 = 0xff0 \<Longrightarrow> y mod 16 = 0"
proof -
  assume "y mod 4096 = 0xff0"
  moreover have "y mod 16 = (y mod 4096) mod 16" by (rule mod_mod_cancel [symmetric]) simp
  ultimately show ?thesis by simp
qed

lemma apart8: "(x :: nat) mod 16 = 0 \<Longrightarrow> y mod 16 = 0 \<Longrightarrow> x + 8 \<noteq> y \<and> y \<noteq> x + 8"
  by presburger

lemma registry_insert:
  assumes reg: "registry m h ps ns" and r: "r \<in> set (search_order h ps)" "r \<notin> set ns"
    and a: "a \<notin> {0, EMPTY, JUNK}"
  shows "registry (ml_insert h r a m) h ps (r # ns)"
    and "map (ml_insert h r a m) (r # ns) = a # map m ns"
proof -
  have sp: "slot_pages m h ps" and di: "distinct (h # ps)" and ml: "mlist_at m h ns"
    using reg by (simp_all add: registry_def)
  note rD = search_orderD [OF sp di r(1)]
  have h16: "h mod 16 = 0" using ml by (simp add: mlist_at_def spaced_def)
  have spc: "spaced (r # h # ns)"
    using ml rD r(2) by (auto simp: mlist_at_def spaced_def)
  note ins = ml_insert_ok [OF ml spc rD(3), of a]
  let ?m = "ml_insert h r a m"
  have keep: "?m y = m y" if "y mod 16 = 0" "y \<noteq> r" for y
    using that apart8 [OF rD(1) that(1)] apart8 [OF h16 that(1)]
    by (simp add: ml_insert_def Let_def)
  have keep8: "?m (y + 8) = m (y + 8)" if "y mod 16 = 0" "y \<noteq> r" "y \<noteq> h" for y
    using that apart8 [OF that(1) rD(1)] by (simp add: ml_insert_def Let_def)
  have mr: "?m r = a" using apart8 [OF h16 rD(1)] by (simp add: ml_insert_def Let_def)
  have node: "\<And>n. n \<in> set ns \<Longrightarrow> n \<in> set (search_order h ps) \<and> m n \<noteq> EMPTY \<and> m n \<noteq> JUNK"
    and unused: "\<And>x. x \<in> set (search_order h ps) \<Longrightarrow> x \<notin> set ns \<Longrightarrow> m x \<in> {EMPTY, JUNK}"
    using reg by (auto simp: registry_def)
  have nz: "m x \<noteq> 0" if x: "x \<in> set (search_order h ps)" for x
  proof -
    from x obtain q k where "q \<in> set (h # ps)" "k < 255" "x = q + 16 * k"
      unfolding set_search_order by auto
    then show ?thesis using slot_pages_pages(3) [OF sp] by simp
  qed
  show "registry ?m h ps (r # ns)"
  proof (rule registry_step [OF reg ins(1)])
    show "set (r # ns) \<subseteq> set (search_order h ps)" using node r(1) by auto
    fix x assume x: "x \<in> set (search_order h ps)"
    show "if x \<in> set (r # ns) then ?m x \<notin> {0, EMPTY, JUNK} else ?m x \<in> {EMPTY, JUNK}"
    proof (cases "x = r")
      case True
      then show ?thesis using mr a by simp
    next
      case False
      then have "?m x = m x" using keep search_orderD(1) [OF sp di x] by simp
      then show ?thesis using False nz [OF x] node [of x] unused [OF x] by auto
    qed
  next
    show "?m h = m h" using keep [of h] h16 rD(4) by simp
    fix y :: nat assume y: "y mod 4096 = 0xff0"
    have "h mod 4096 = 0" using slot_pages_pages(1) [OF sp, of h] by simp
    then have "y \<noteq> r" "y \<noteq> h" using y rD(2) by auto
    then show "?m y = m y \<and> ?m (y + 8) = m (y + 8)" using keep keep8 mod_4096_16 [OF y] by simp
  qed
  show "map ?m (r # ns) = a # map m ns" by (rule ins(2))
qed

lemma registry_remove:
  assumes reg: "registry m h ps (xs @ d # ys)"
  defines "m' \<equiv> ml_unlink (last (h # xs)) d m"
  shows "registry m' h ps (xs @ ys)" and "map m' (xs @ ys) = map m (xs @ ys)" and "m' d = EMPTY"
proof -
  have sp: "slot_pages m h ps" and di: "distinct (h # ps)" and ml: "mlist_at m h (xs @ d # ys)"
    using reg by (simp_all add: registry_def)
  note un = ml_unlink_ok [OF ml, folded m'_def]
  have node: "\<And>n. n \<in> set (xs @ d # ys) \<Longrightarrow> n \<in> set (search_order h ps) \<and> m n \<noteq> EMPTY \<and> m n \<noteq> JUNK"
    and unused: "\<And>x. x \<in> set (search_order h ps) \<Longrightarrow> x \<notin> set (xs @ d # ys) \<Longrightarrow> m x \<in> {EMPTY, JUNK}"
    using reg unfolding registry_def by blast+
  have h16: "h mod 16 = 0" using ml by (simp add: mlist_at_def spaced_def)
  let ?b = "last (h # xs)"
  have b: "?b \<in> set (h # xs)" by (rule last_in_set) simp
  have d: "d \<in> set (search_order h ps)" using node by simp
  note dD = search_orderD [OF sp di d]
  have b16: "?b mod 16 = 0" and b4: "?b mod 4096 \<noteq> 0xff0"
  proof -
    have "?b = h \<or> ?b \<in> set (search_order h ps)" using b node by auto
    moreover have "h mod 4096 \<noteq> 0xff0" using slot_pages_pages(1) [OF sp, of h] by simp
    ultimately show "?b mod 16 = 0" "?b mod 4096 \<noteq> 0xff0"
      using h16 search_orderD(1,2) [OF sp di] by metis+
  qed
  have keep: "m' y = m y" if "y mod 16 = 0" "y \<noteq> d" for y
    using that apart8 [OF dD(1) that(1)] apart8 [OF b16 that(1)]
    by (simp add: m'_def ml_unlink_def Let_def)
  have keep8: "m' (y + 8) = m (y + 8)" if "y mod 16 = 0" "y \<noteq> d" "y \<noteq> ?b" for y
    using that apart8 [OF that(1) dD(1)] by (simp add: m'_def ml_unlink_def Let_def)
  have nz: "m x \<noteq> 0" if x: "x \<in> set (search_order h ps)" for x
  proof -
    from x obtain q k where "q \<in> set (h # ps)" "k < 255" "x = q + 16 * k"
      unfolding set_search_order by auto
    then show ?thesis using slot_pages_pages(3) [OF sp] by simp
  qed
  have dn: "d \<notin> set (xs @ ys)" using ml by (auto simp: mlist_at_def spaced_def)
  show "registry m' h ps (xs @ ys)"
  proof (rule registry_step [OF reg un(1)])
    show "set (xs @ ys) \<subseteq> set (search_order h ps)" using node by auto
    fix x assume x: "x \<in> set (search_order h ps)"
    show "if x \<in> set (xs @ ys) then m' x \<notin> {0, EMPTY, JUNK} else m' x \<in> {EMPTY, JUNK}"
    proof (cases "x = d")
      case True
      then show ?thesis using un(3) dn by simp
    next
      case False
      then have "m' x = m x" using keep search_orderD(1) [OF sp di x] by simp
      then show ?thesis using False nz [OF x] node [of x] unused [OF x] by auto
    qed
  next
    show "m' h = m h" using keep [of h] h16 dD(4) by simp
    fix y :: nat assume y: "y mod 4096 = 0xff0"
    then have "y \<noteq> d" "y \<noteq> ?b" using dD(2) b4 by auto
    then show "m' y = m y \<and> m' (y + 8) = m (y + 8)" using keep keep8 mod_4096_16 [OF y] by simp
  qed
  show "map m' (xs @ ys) = map m (xs @ ys)" "m' d = EMPTY" by (rule un(2), rule un(3))
qed

definition objs :: "nat \<Rightarrow> nat list \<Rightarrow> 'a memstate_scheme \<Rightarrow> nat list" where
  "objs h ns s = map (mem s) ns"

lemma register_hole:
  assumes "cpu_ok s" and "free_lock LkGiant s" and reg: "registry (mem s) h ps ns"
    and a: "a \<notin> {0, EMPTY, JUNK}" and so: "search_order h ps = pre @ r # post"
    and pre: "\<And>x. x \<in> set pre \<Longrightarrow> x \<in> set ns \<and> mem s x \<noteq> a" and r: "r \<notin> set ns"
  shows "register_memobj a h s = Inr (saved (s\<lparr>mem := ml_insert h r a (mem s)\<rparr>))"
    and "registry (ml_insert h r a (mem s)) h ps (r # ns)"
    and "map (ml_insert h r a (mem s)) (r # ns) = a # map (mem s) ns"
proof -
  have mr: "mem s r = EMPTY \<or> mem s r = JUNK" using reg r so by (simp add: registry_def)
  have "\<not> stops_at (mem s) a x" if "x \<in> set pre" for x
    using pre [OF that] reg by (auto simp: stops_at_def registry_def)
  then have "find (stops_at (mem s) a) pre = None" by (auto simp: find_None_iff)
  moreover have "stops_at (mem s) a r" using mr by (auto simp: stops_at_def)
  ultimately have "find (stops_at (mem s) a) (search_order h ps) = Some r"
    by (simp add: so find_append)
  then have "find_slot (mem s) a (h + 16) = Some (FreeSlot r)"
    using registry_find_slot [OF reg, of a] mr by (simp add: slot_at_def)
  then show "register_memobj a h s = Inr (saved (s\<lparr>mem := ml_insert h r a (mem s)\<rparr>))"
    by (rule register_memobj_ok(1) [OF assms(1,2)])
  show "registry (ml_insert h r a (mem s)) h ps (r # ns)"
    "map (ml_insert h r a (mem s)) (r # ns) = a # map (mem s) ns"
    using registry_insert [OF reg _ r a] so by simp_all
qed

lemma delete_node:
  assumes "cpu_ok s" and "free_lock LkGiant s" and reg: "registry (mem s) h ps (xs @ d # ys)"
    and "mem s d = a" and "a \<notin> mem s ` set xs"
  defines "m' \<equiv> ml_unlink (last (h # xs)) d (mem s)"
  shows "delete_memobj a h 0 s = Inr (saved (s\<lparr>mem := m'\<rparr>))"
    and "registry m' h ps (xs @ ys)" and "map m' (xs @ ys) = map (mem s) (xs @ ys)"
proof -
  have "nodes (mem s) h h (xs @ d # ys)" using reg by (simp add: registry_def mlist_at_def)
  then have "find_prev (mem s) h (match_addr a 0) h = Some (Node (last (h # xs)) d)"
    by (rule find_prev_Node) (use assms(4,5) in \<open>auto simp: match_addr_def image_iff\<close>)
  then show "delete_memobj a h 0 s = Inr (saved (s\<lparr>mem := m'\<rparr>))"
    unfolding m'_def by (rule delete_memobj_ok(1) [OF assms(1,2)])
  show "registry m' h ps (xs @ ys)" "map m' (xs @ ys) = map (mem s) (xs @ ys)"
    using registry_remove [OF reg] by (simp_all add: m'_def)
qed

lemma first_hole:
  assumes "registry m h ps ns" and "\<exists>r \<in> set (search_order h ps). r \<notin> set ns"
  obtains pre r post where "search_order h ps = pre @ r # post" "set pre \<subseteq> set ns" "r \<notin> set ns"
  using split_list_first_prop [OF assms(2)] by (metis subsetI)

end
