(* ===== verification/Allocator.thy ===== *)
theory Allocator
  imports MList
begin

text \<open>
  Correctness of the page allocator together with its shadow, the M-List of runs: both
  describe the same free pages in the same order, and \<open>kalloc\<close> and \<open>kfree\<close> keep it so.
  The contract of a page source (\<open>page_source\<close>) is interpreted on \<open>kalloc\<close>.
\<close>

section \<open>The free list\<close>

fun fchain :: "memory \<Rightarrow> nat \<Rightarrow> nat list \<Rightarrow> bool" where
  "fchain m x [] \<longleftrightarrow> x = 0"
| "fchain m x (p # ps) \<longleftrightarrow> x = p \<and> p \<noteq> 0 \<and> fchain m (m p) ps"

lemma fchain_frame:
  "(\<And>p. p \<in> set ps \<Longrightarrow> m' p = m p) \<Longrightarrow> fchain m x ps \<Longrightarrow> fchain m' x ps"
  by (induction ps arbitrary: x) auto

text \<open>
  The free pages \<open>fs\<close>, as the free list chains them and as the M-List of runs records
  them, in the same order.
\<close>

definition run_pool :: "memory \<Rightarrow> nat \<Rightarrow> nat \<Rightarrow> nat list \<Rightarrow> nat list \<Rightarrow> nat list \<Rightarrow> bool" where
  "run_pool m fl h pgs ns fs \<longleftrightarrow> registry m h pgs ns \<and> map m ns = fs \<and> fchain m fl fs \<and> distinct fs \<and>
     (\<forall>p \<in> set fs. p mod 4096 = 0 \<and> p \<notin> set (h # pgs))"

lemma page_cases:
  fixes p q :: nat
  assumes "p mod 4096 = 0" and "q mod 4096 = 0" and "p \<noteq> q" and "q \<le> x" and "x < q + 4096"
  shows "\<not> (p \<le> x \<and> x < p + 4096)"
proof -
  obtain a b where "p = 4096 * a" "q = 4096 * b" using assms(1,2) by blast
  with assms(3-5) show ?thesis by auto
qed

lemma registry_frame:
  assumes reg: "registry m h ps ns"
    and same: "\<And>q x. q \<in> set (h # ps) \<Longrightarrow> q \<le> x \<Longrightarrow> x < q + 4096 \<Longrightarrow> m' x = m x"
  shows "registry m' h ps ns" and "map m' ns = map m ns"
proof -
  have sp: "slot_pages m h ps" and di: "distinct (h # ps)" and ml: "mlist_at m h ns"
    and sub: "set ns \<subseteq> set (search_order h ps)"
    using reg by (simp_all add: registry_def)
  have so: "m' x = m x \<and> m' (x + 8) = m (x + 8)" if "x \<in> set (h # search_order h ps)" for x
  proof -
    from that obtain q k where "q \<in> set (h # ps)" "k < 255" "x = q + 16 * k"
      unfolding set_search_order by (auto simp: set_search_order) (metis add.right_neutral mult_zero_right zero_less_numeral)
    then show ?thesis using same [of q x] same [of q "x + 8"] by simp
  qed
  have pg: "m' (q + 16 * k) = m (q + 16 * k)" if "q \<in> set (h # ps)" "k < 255" for q k
    using same [of q "q + 16 * k"] that by simp
  have "slot_pages m' h ps"
  proof (rule slot_pages_frame [OF sp])
    fix q k :: nat assume "q \<in> set (h # ps)" "k < 255"
    then show "m' (q + 16 * k) \<noteq> 0" using pg slot_pages_pages(3) [OF sp] by simp
  next
    fix q assume "q \<in> set (h # ps)"
    then show "m' (q + 0xff0) = m (q + 0xff0) \<and> m' (q + 0xff8) = m (q + 0xff8)"
      using same [of q "q + 0xff0"] same [of q "q + 0xff8"] by simp
  qed
  moreover have "nodes m' h h ns"
    by (rule nodes_frame [of m]) (use ml so sub in \<open>auto simp: mlist_at_def\<close>)
  moreover have eq: "m' n = m n" if "n \<in> set ns" for n using so [of n] that sub by auto
  ultimately show "registry m' h ps ns"
    using reg so unfolding registry_def mlist_at_def by simp
  show "map m' ns = map m ns" using eq by simp
qed

lemma page_fill_other:
  assumes "p mod 4096 = 0" and "q mod 4096 = 0" and "p \<noteq> q" and "q \<le> x" and "x < q + 4096"
  shows "page_fill p w m x = m x"
  using page_cases [OF assms] by (auto simp: page_fill_def)

lemma page_16: "(x :: nat) mod 4096 = 0 \<Longrightarrow> x mod 16 = 0"
proof -
  assume "x mod 4096 = 0"
  moreover have "x mod 16 = (x mod 4096) mod 16" by (rule mod_mod_cancel [symmetric]) simp
  ultimately show ?thesis by simp
qed

lemma run_pool_alloc:
  assumes pool: "run_pool m p h pgs (n # ns) (p # fs)"
  shows "run_pool (page_fill p JUNK (ml_unlink h n m)) (m p) h pgs ns fs"
proof -
  have reg: "registry m h pgs ([] @ n # ns)" and mp: "m n = p" "map m ns = fs"
    and fc: "fchain m (m p) fs" and di: "distinct (p # fs)"
    and al: "\<And>q. q \<in> set (p # fs) \<Longrightarrow> q mod 4096 = 0 \<and> q \<notin> set (h # pgs)"
    using pool unfolding run_pool_def by auto
  let ?m1 = "ml_unlink h n m" and ?m2 = "page_fill p JUNK (ml_unlink h n m)"
  note rem = registry_remove [OF reg, simplified]
  have sp: "slot_pages m h pgs" and dp: "distinct (h # pgs)"
    and nso: "n \<in> set (search_order h pgs)" using reg by (simp_all add: registry_def)
  have pgm: "q mod 4096 = 0" if "q \<in> set (h # pgs)" for q using slot_pages_pages(1) [OF sp that] .
  have same: "?m2 x = ?m1 x" if "q \<in> set (h # pgs)" "q \<le> x" "x < q + 4096" for q x
    by (rule page_fill_other [of p q]) (use al [of p] pgm that in auto)
  have reg2: "registry ?m2 h pgs ns" "map ?m2 ns = map ?m1 ns"
    by (rule registry_frame [OF rem(1) same]; assumption)+
  have "?m2 x = m x" if x: "x \<in> set fs" for x
  proof -
    have xa: "x mod 4096 = 0" "x \<notin> set (h # pgs)" "x \<noteq> p" using al [of x] x di by auto
    have "?m2 x = ?m1 x" by (rule page_fill_other [of p x]) (use al [of p] xa in auto)
    moreover have "x mod 16 = 0" by (rule page_16 [OF xa(1)])
    moreover have "x \<noteq> n"
    proof
      assume "x = n"
      with nso obtain q k where q: "q \<in> set (h # pgs)" "k < 255" "x = q + 16 * k"
        unfolding set_search_order by auto
      have "x \<noteq> q" using xa(2) q(1) by blast
      have "\<not> (x \<le> x \<and> x < x + 4096)"
        by (rule page_cases [OF xa(1) pgm [OF q(1)] \<open>x \<noteq> q\<close>]) (use q(2,3) in simp_all)
      then show False by simp
    qed
    moreover have "n mod 16 = 0" "h mod 16 = 0"
      using search_orderD(1) [OF sp dp nso] reg by (auto simp: registry_def mlist_at_def spaced_def)
    ultimately show ?thesis using apart8 by (auto simp: ml_unlink_def Let_def)
  qed
  then have "fchain ?m2 (m p) fs" using fchain_frame [OF _ fc] by blast
  moreover have "map ?m2 ns = map m ns" unfolding map_eq_conv using reg2(2) rem(2) by simp
  then have "map ?m2 ns = fs" using mp(2) by (rule trans)
  ultimately show ?thesis using reg2(1) di al by (auto simp: run_pool_def)
qed

lemma run_pool_free:
  assumes pool: "run_pool m fl h pgs ns fs" and room: "\<exists>r \<in> set (search_order h pgs). r \<notin> set ns"
    and pa: "pa mod 4096 = 0" "pa \<noteq> 0" "pa < PHYSTOP" "pa \<notin> set (h # pgs)" "pa \<notin> set fs"
  shows "\<exists>r. find_slot (page_fill pa EMPTY m) pa (h + 16) = Some (FreeSlot r) \<and>
    run_pool ((ml_insert h r pa (page_fill pa EMPTY m))(pa := fl)) pa h pgs (r # ns) (pa # fs)"
proof -
  have reg: "registry m h pgs ns" and mp: "map m ns = fs"
    and fc: "fchain m fl fs" and di: "distinct fs"
    and al: "\<And>q. q \<in> set fs \<Longrightarrow> q mod 4096 = 0 \<and> q \<notin> set (h # pgs)"
    using pool unfolding run_pool_def by auto
  have sp: "slot_pages m h pgs" and dp: "distinct (h # pgs)" using reg by (simp_all add: registry_def)
  have pgm: "q mod 4096 = 0" if "q \<in> set (h # pgs)" for q using slot_pages_pages(1) [OF sp that] .
  let ?m0 = "page_fill pa EMPTY m"
  have same: "?m0 x = m x" if "q \<in> set (h # pgs)" "q \<le> x" "x < q + 4096" for q x
    by (rule page_fill_other [of pa q]) (use pa pgm that in auto)
  have reg0: "registry ?m0 h pgs ns" "map ?m0 ns = map m ns"
    by (rule registry_frame [OF reg same]; assumption)+
  obtain pre r post where so: "search_order h pgs = pre @ r # post" "set pre \<subseteq> set ns" "r \<notin> set ns"
    using first_hole [OF reg room] by blast
  have rso: "r \<in> set (search_order h pgs)" using so(1) by simp
  have mr: "?m0 r = EMPTY \<or> ?m0 r = JUNK" using reg0(1) rso so(3) by (simp add: registry_def)
  have "\<not> stops_at ?m0 pa x" if "x \<in> set pre" for x
  proof -
    have x: "x \<in> set ns" using that so(2) by auto
    then have "?m0 x \<in> set fs" using reg0(2) mp by (metis image_eqI list.set_map)
    then show ?thesis using x pa(5) reg0(1) by (auto simp: stops_at_def registry_def)
  qed
  then have "find (stops_at ?m0 pa) pre = None" by (auto simp: find_None_iff)
  moreover have "stops_at ?m0 pa r" using mr by (auto simp: stops_at_def)
  ultimately have "find (stops_at ?m0 pa) (search_order h pgs) = Some r" by (simp add: so find_append)
  then have fs: "find_slot ?m0 pa (h + 16) = Some (FreeSlot r)"
    using registry_find_slot [OF reg0(1), of pa] mr by (simp add: slot_at_def)
  have "pa \<notin> {0, EMPTY, JUNK}" using pa(2,3) by auto
  note ins = registry_insert [OF reg0(1) rso so(3) this]
  let ?m1 = "ml_insert h r pa ?m0" and ?m2 = "(ml_insert h r pa (page_fill pa EMPTY m))(pa := fl)"
  have same2: "?m2 x = ?m1 x" if "q \<in> set (h # pgs)" "q \<le> x" "x < q + 4096" for q x
  proof -
    have "pa \<noteq> q" using that(1) pa(4) by auto
    from page_cases [OF pa(1) pgm [OF that(1)] this that(2,3)] show ?thesis by auto
  qed
  have reg2: "registry ?m2 h pgs (r # ns)" "map ?m2 (r # ns) = map ?m1 (r # ns)"
    by (rule registry_frame [OF ins(1) same2]; assumption)+
  have "?m2 x = m x" if x: "x \<in> set fs" for x
  proof -
    have xa: "x mod 4096 = 0" "x \<notin> set (h # pgs)" "x \<noteq> pa" using al [of x] x pa(5) by auto
    have r16: "r mod 16 = 0" "h mod 16 = 0"
      using search_orderD(1) [OF sp dp rso] reg by (auto simp: registry_def mlist_at_def spaced_def)
    have "x \<noteq> r"
    proof
      assume "x = r"
      with rso obtain q k where q: "q \<in> set (h # pgs)" "k < 255" "x = q + 16 * k"
        unfolding set_search_order by auto
      have "x \<noteq> q" using xa(2) q(1) by blast
      have "\<not> (x \<le> x \<and> x < x + 4096)"
        by (rule page_cases [OF xa(1) pgm [OF q(1)] \<open>x \<noteq> q\<close>]) (use q(2,3) in simp_all)
      then show False by simp
    qed
    then have "?m2 x = ?m0 x"
      using xa(3) apart8 [OF r16(1) page_16 [OF xa(1)]] apart8 [OF r16(2) page_16 [OF xa(1)]]
      by (simp add: ml_insert_def Let_def)
    moreover have "?m0 x = m x" by (rule page_fill_other [OF pa(1) xa(1)]) (use xa(3) in simp_all)
    ultimately show ?thesis by simp
  qed
  then have "fchain ?m2 fl fs" using fchain_frame [OF _ fc] by blast
  then have "fchain ?m2 pa (pa # fs)" using pa(2) by simp
  moreover have "map ?m2 (r # ns) = pa # fs" by (simp only: reg2(2) ins(2) reg0(2) mp)
  ultimately have "run_pool ?m2 pa h pgs (r # ns) (pa # fs)"
    using reg2(1) di al pa by (auto simp: run_pool_def)
  with fs show ?thesis by blast
qed

section \<open>Allocating and freeing\<close>

lemma mem_sel_sections [simp]:
  "mem (set_hist i h s) = mem s" "mem (counted f e s) = mem s" "mem (uncounted f e s) = mem s"
  "freelist (set_hist i h s) = freelist s" "freelist (counted f e s) = freelist s"
  "freelist (uncounted f e s) = freelist s"
  "mhead (set_hist i h s) = mhead s" "mhead (counted f e s) = mhead s" "mhead (uncounted f e s) = mhead s"
  "tarr (set_hist i h s) = tarr s" "tarr (counted f e s) = tarr s" "tarr (uncounted f e s) = tarr s"
  "my_index (set_hist i h s) = my_index s" "my_index (counted f e s) = my_index s"
  "my_index (uncounted f e s) = my_index s"
  by (simp_all add: set_hist_def counted_def uncounted_def my_index_def last_trans_def curproc_def
      cong: option.case_cong)

lemma mem_sel_trans [simp]:
  "mem (set_trans i g s) = mem s" "freelist (set_trans i g s) = freelist s"
  "mhead (set_trans i g s) = mhead s" "mem (looked s) = mem s" "freelist (looked s) = freelist s"
  "mhead (looked s) = mhead s" "rcs_infos (looked s) = rcs_infos s" "rl_num (looked s) = rl_num s"
  "rl_exc (looked s) = rl_exc s"
  "rcs_infos (set_trans i g s) = rcs_infos s" "rl_num (set_trans i g s) = rl_num s"
  "rl_exc (set_trans i g s) = rl_exc s" "procs (looked s) = procs s"
  by (simp_all add: set_trans_def looked_def)

lemma my_index_mem [simp]:
  "my_index (mem_update f s) = my_index s" "my_index (freelist_update g s) = my_index s"
  "my_index (taken lk s) = my_index s"
  "rcs_find q (mem_update f s) = rcs_find q s" "rcs_find q (freelist_update g s) = rcs_find q s"
  "rcs_find q (taken lk s) = rcs_find q s" 
  "rcs_find q (set_trans i h s) = rcs_find q s" "rcs_find q (looked s) = rcs_find q s"
  "rcs_find q (log_run_update g s) = rcs_find q s"
  by (simp_all add: my_index_def last_trans_def curproc_def rcs_find_def set_trans_def looked_def
     cong: option.case_cong)

definition alloc_ready :: "nat \<Rightarrow> nat \<Rightarrow> nat \<Rightarrow> 'a memstate_scheme \<Rightarrow> bool" where
  "alloc_ready p i j s \<longleftrightarrow> rcs_ready p i s \<and> length (open_sections i s) < RCS_HIST \<and>
     trans_ready j s \<and> 0 \<le> run_ntrans (tarr s j) \<and> free_lock LkKmem s \<and> free_lock LkGiant s \<and>
     mhead s MLrun \<noteq> 0"

lemma kalloc_ok:
  assumes "alloc_ready p i j s" 
    and pool: "run_pool (mem s) (freelist s) (mhead s MLrun) pgs (n # ns) (q # fs)"
  shows "\<exists>t. kalloc s = Inr (q, t) \<and> alloc_ready p i j t \<and> mhead t = mhead s \<and>
     run_pool (mem t) (freelist t) (mhead t MLrun) pgs ns fs"
proof -
  let ?h = "hist (rcs_infos s i)" and ?r = "mhead s MLrun"
  have r: "cpu_ok s" "\<And>n. free_lock (LkRecLk n) s" "\<And>n. free_lock (LkRec n) s"
    "curproc s = Some p" "rcs_find (pid (procs s p)) s = Some i" "hist_ok ?h"
    and a: "free_lock LkKmem s" "free_lock LkGiant s" "?r \<noteq> 0" "freelist s = q" "q \<noteq> 0"
    and room: "length (hist_abs ?h) < RCS_HIST"
    using assms by (simp_all add: alloc_ready_def rcs_ready_def run_pool_def open_sections_def)
  let ?s1 = "set_hist i (hist_add RL_KMEM ?h) (counted RL_KMEM 0 s)"
  have enter: "enter_recovery_critical_section RL_KMEM 0 s = Inr (saved ?s1)"
    by (rule enter_ok) (use r in auto)
  let ?s2 = "?s1\<lparr>freelist := mem s q\<rparr>"
  have "mem s n = q" "nodes (mem s) ?r ?r ([] @ n # ns)"
    using pool by (auto simp: run_pool_def registry_def mlist_at_def)
  then have fp: "find_prev (mem s) ?r (match_addr q 0) ?r = Some (Node ?r n)"
    using find_prev_Node [of "mem s" ?r ?r "[]" n ns] by (simp add: match_addr_def)
  let ?m = "ml_unlink ?r n (mem s)"
  let ?s3 = "?s2\<lparr>mem := ?m\<rparr>"
  have del: "delete_memobj q ?r 0 (taken LkKmem ?s2) = Inr (taken LkKmem ?s3)"
    using delete_memobj_ok(1) [of "taken LkKmem ?s2" ?r q 0 ?r n] r a fp by simp
  have rel: "release LkKmem (taken LkKmem ?s3) = Inr (saved ?s3)"
    by (rule release_taken) (use r a in auto)
  let ?s4 = "saved (set_hist i (hist_del RL_KMEM (hist_add RL_KMEM ?h)) (uncounted RL_KMEM 0 (saved ?s3)))"
  have ex: "exit_recovery_critical_section RL_KMEM 0 (saved ?s3) = Inr ?s4"
    using exit_ok [of "saved ?s3" RL_KMEM p i 0] r by simp
  let ?t = "?s4\<lparr>mem := page_fill q JUNK ?m\<rparr>"
  have k: "kalloc s = Inr (q, ?t)"
    using r a by (simp add: kalloc_def enter lock_simps Let_def del [simplified] rel [simplified] ex [simplified])
  have hd: "hist_del RL_KMEM (hist_add RL_KMEM ?h) = ?h" by (rule hist_del_add [OF r(6) _ room]) simp
  have "run_pool (mem ?t) (freelist ?t) (mhead ?t MLrun) pgs ns fs"
    using run_pool_alloc [of "mem s" q ?r pgs n ns fs] pool a by simp
  moreover have "alloc_ready p i j ?t" using assms(1) hd
    by (simp add: alloc_ready_def rcs_ready_def trans_ready_def open_sections_def)
  ultimately show ?thesis using k by (intro exI [of _ ?t]) simp
qed

lemma looked_taken [simp]: "cpu_ok s \<Longrightarrow> looked (taken lk s) = taken lk s"
  by (simp add: looked_def)

lemma run_update_calculus [simp]:
  "log_run_update g (set_trans i h s) = set_trans i h (log_run_update g s)"
  "mem (log_run_update g s) = mem s" "freelist (log_run_update g s) = freelist s"
  "mhead (log_run_update g s) = mhead s" "tarr (mem_update f s) = tarr s"
  "tarr (freelist_update u s) = tarr s" "tarr (log_run_update g s) = tarr s"
  by (simp_all add: set_trans_def)

lemma kfree_ok:
  assumes ar: "alloc_ready p i j s"
    and pool: "run_pool (mem s) (freelist s) (mhead s MLrun) pgs ns fs"
    and room: "\<exists>r \<in> set (search_order (mhead s MLrun) pgs). r \<notin> set ns"
    and pa: "pa mod PGSIZE = 0" "kend s \<le> pa" "0 < pa" "pa < PHYSTOP"
      "pa \<notin> set (mhead s MLrun # pgs)" "pa \<notin> set fs"
  shows "\<exists>t r. kfree pa s = Inr t \<and> alloc_ready p i j t \<and> mhead t = mhead s \<and>
     run_pool (mem t) (freelist t) (mhead t MLrun) pgs (r # ns) (pa # fs)"
proof -
  let ?h = "hist (rcs_infos s i)" and ?r = "mhead s MLrun"
  have r: "cpu_ok s" "\<And>n. free_lock (LkRecLk n) s" "\<And>n. free_lock (LkRec n) s"
    "curproc s = Some p" "rcs_find (pid (procs s p)) s = Some i" "hist_ok ?h"
    and a: "free_lock LkKmem s" "free_lock LkGiant s" "free_lock LkTrans s" "?r \<noteq> 0"
    and tr: "my_index s = Some j" "0 \<le> run_ntrans (tarr s j)"
    and hroom: "length (hist_abs ?h) < RCS_HIST"
    using ar by (simp_all add: alloc_ready_def rcs_ready_def open_sections_def trans_ready_def)
  have "pa \<noteq> 0" using pa(3) by simp
  from run_pool_free [OF pool room pa(1) this pa(4-6)] obtain n where
    fs: "find_slot (page_fill pa EMPTY (mem s)) pa (?r + 16) = Some (FreeSlot n)"
    and pool': "run_pool ((ml_insert ?r n pa (page_fill pa EMPTY (mem s)))(pa := freelist s)) pa ?r pgs
      (n # ns) (pa # fs)" by blast
  let ?s0 = "s\<lparr>mem := page_fill pa EMPTY (mem s)\<rparr>"
  let ?s1 = "set_hist i (hist_add RL_KMEM ?h) (counted RL_KMEM 0 ?s0)"
  have enter: "enter_recovery_critical_section RL_KMEM 0 ?s0 = Inr (saved ?s1)"
    using enter_ok [of ?s0 RL_KMEM p i 0] r by simp
  let ?s2 = "set_trans j (\<lambda>t. t\<lparr>run_ntrans := run_ntrans t + 1\<rparr>) (?s1\<lparr>log_run := pa\<rparr>)"
  have entert: "enter_trans_run pa (taken LkKmem ?s1) = Inr (taken LkKmem ?s2)"
    using r a tr by (simp add: enter_trans_run_def my_trans_ok)
  let ?s3 = "?s2\<lparr>mem := ml_insert ?r n pa (page_fill pa EMPTY (mem s))\<rparr>"
  have reg: "register_memobj pa ?r (taken LkKmem ?s2) = Inr (taken LkKmem ?s3)"
    using register_memobj_ok(1) [of "taken LkKmem ?s2" pa ?r n] r a fs by simp
  let ?s4 = "?s3\<lparr>mem := (mem ?s3)(pa := freelist s), freelist := pa\<rparr>"
  let ?s5 = "(set_trans j (\<lambda>t. t\<lparr>run_ntrans := run_ntrans t - 1\<rparr>) ?s4)\<lparr>log_run := 0\<rparr>"
  have exitt: "exit_trans_run (taken LkKmem ?s4) = Inr (taken LkKmem ?s5)"
    using r a tr by (simp add: exit_trans_run_def my_trans_ok)
  have rel: "release LkKmem (taken LkKmem ?s5) = Inr (saved ?s5)"
    by (rule release_taken) (use r a in auto)
  let ?t = "saved (set_hist i (hist_del RL_KMEM (hist_add RL_KMEM ?h)) (uncounted RL_KMEM 0 (saved ?s5)))"
  have ex: "exit_recovery_critical_section RL_KMEM 0 (saved ?s5) = Inr ?t"
    using exit_ok [of "saved ?s5" RL_KMEM p i 0] r by simp
  have k: "kfree pa s = Inr ?t"
    using r a pa(1,2,4)
    by (simp add: kfree_def enter lock_simps entert [simplified] reg [simplified] exitt [simplified]
        rel [simplified] ex [simplified])
  have hd: "hist_del RL_KMEM (hist_add RL_KMEM ?h) = ?h" by (rule hist_del_add [OF r(6) _ hroom]) simp
  have "run_pool (mem ?t) (freelist ?t) (mhead ?t MLrun) pgs (n # ns) (pa # fs)"
    using pool' by simp
  moreover have "alloc_ready p i j ?t" using ar hd
    by (simp add: alloc_ready_def rcs_ready_def trans_ready_def open_sections_def)
  ultimately show ?thesis using k by (intro exI [of _ ?t] exI [of _ n]) simp
qed

section \<open>A source of pages\<close>

fun alloc_n :: "('s \<Rightarrow> (nat \<times> 's) res) \<Rightarrow> nat \<Rightarrow> 's \<Rightarrow> (nat list \<times> 's) res" where
  "alloc_n alloc 0 s = Inr ([], s)"
| "alloc_n alloc (Suc n) s = bindE (alloc s) (\<lambda>(q, s). bindE (alloc_n alloc n s) (\<lambda>(qs, s). Inr (q # qs, s)))"

locale page_source =
  fixes alloc :: "'s \<Rightarrow> (nat \<times> 's) res"
    and avail :: "'s \<Rightarrow> nat list \<Rightarrow> bool"
  assumes alloc_law: "avail s (q # fs) \<Longrightarrow> \<exists>t. alloc s = Inr (q, t) \<and> avail t fs"
    and avail_distinct: "avail s fs \<Longrightarrow> distinct fs \<and> 0 \<notin> set fs"
begin

lemma alloc_n_take:
  assumes "avail s fs" and "n \<le> length fs"
  shows "\<exists>t. alloc_n alloc n s = Inr (take n fs, t) \<and> avail t (drop n fs)"
  using assms
proof (induction n arbitrary: s fs)
  case (Suc n)
  then obtain q gs where fs: "fs = q # gs" by (cases fs) auto
  from alloc_law [of s q gs] Suc.prems(1) fs obtain t where
    t: "alloc s = Inr (q, t)" "avail t gs" by auto
  from Suc.IH [OF t(2)] Suc.prems(2) fs obtain u where
    "alloc_n alloc n t = Inr (take n gs, u)" "avail u (drop n gs)" by auto
  with t(1) fs show ?case by auto
qed simp

lemma alloc_n_distinct:
  assumes "avail s fs" and "n \<le> length fs"
  shows "\<exists>qs t. alloc_n alloc n s = Inr (qs, t) \<and> length qs = n \<and> distinct qs \<and> 0 \<notin> set qs \<and>
    avail t (drop n fs) \<and> set qs \<inter> set (drop n fs) = {}"
proof -
  obtain t where t: "alloc_n alloc n s = Inr (take n fs, t)" "avail t (drop n fs)"
    using alloc_n_take [OF assms] by blast
  moreover have "distinct fs" "0 \<notin> set fs" using avail_distinct [OF assms(1)] by simp_all
  moreover have "set (take n fs) \<inter> set (drop n fs) = {}" using \<open>distinct fs\<close> by (rule set_take_disj_set_drop_if_distinct) simp
  ultimately show ?thesis using assms(2)
    by (intro exI [of _ "take n fs"] exI [of _ t]) (auto dest: in_set_takeD)
qed
end

definition free_pages :: "nat \<Rightarrow> nat \<Rightarrow> nat \<Rightarrow> nat \<Rightarrow> nat list \<Rightarrow> 'a memstate_scheme \<Rightarrow> nat list \<Rightarrow> bool" where
  "free_pages p i j h pgs s fs \<longleftrightarrow> alloc_ready p i j s \<and> mhead s MLrun = h \<and>
     (\<exists>ns. run_pool (mem s) (freelist s) h pgs ns fs)"

lemma fchain_not_0: "fchain m x ps \<Longrightarrow> 0 \<notin> set ps"
  by (induction ps arbitrary: x) auto

interpretation kalloc_source: page_source kalloc "free_pages p i j h pgs" for p i j h pgs
proof
  fix s :: "'a memstate_scheme" and q fs
  assume "free_pages p i j h pgs s (q # fs)"
  then obtain ns where s: "alloc_ready p i j s" "mhead s MLrun = h"
    "run_pool (mem s) (freelist s) (mhead s MLrun) pgs ns (q # fs)" by (auto simp: free_pages_def)
  moreover from this obtain n ms where "ns = n # ms" by (cases ns) (auto simp: run_pool_def)
  ultimately show "\<exists>t. kalloc s = Inr (q, t) \<and> free_pages p i j h pgs t fs"
    using kalloc_ok [of p i j s pgs n ms q fs] by (auto simp: free_pages_def)
next
  fix s :: "'a memstate_scheme" and fs
  assume "free_pages p i j h pgs s fs"
  then show "distinct fs \<and> 0 \<notin> set fs"
    by (auto simp: free_pages_def run_pool_def dest: fchain_not_0)
qed

text \<open>
  C6. While the free list and the M-List of runs agree on the free pages, \<open>n\<close> calls of
  \<open>kalloc\<close> return \<open>n\<close> different non-null pages, none of which is still free afterwards,
  and the two lists still agree.
\<close>

theorem kalloc_distinct_pages:
  assumes "free_pages p i j h pgs s fs" and "n \<le> length fs"
  shows "\<exists>qs t. alloc_n kalloc n s = Inr (qs, t) \<and> length qs = n \<and> distinct qs \<and> 0 \<notin> set qs \<and>
    free_pages p i j h pgs t (drop n fs) \<and> set qs \<inter> set (drop n fs) = {}"
  using kalloc_source.alloc_n_distinct [OF assms] .

text \<open>
  C35. Freeing a page that is not free, with an unused node in the M-List of runs, puts it at the
  head of both the free list and the M-List; the next \<open>kalloc\<close> returns that page and leaves
  both lists as they were.
\<close>

theorem kfree_kalloc_roundtrip:
  assumes "alloc_ready p i j s" and "run_pool (mem s) (freelist s) (mhead s MLrun) pgs ns fs"
    and "\<exists>r \<in> set (search_order (mhead s MLrun) pgs). r \<notin> set ns"
    and "pa mod PGSIZE = 0" and "kend s \<le> pa" and "0 < pa" and "pa < PHYSTOP"
    and "pa \<notin> set (mhead s MLrun # pgs)" and "pa \<notin> set fs"
  shows "\<exists>t u ms. kfree pa s = Inr t \<and> run_pool (mem t) (freelist t) (mhead s MLrun) pgs ms (pa # fs) \<and>
     kalloc t = Inr (pa, u) \<and> run_pool (mem u) (freelist u) (mhead s MLrun) pgs ns fs"
proof -
  from kfree_ok [OF assms] obtain t r where
    t: "kfree pa s = Inr t" "alloc_ready p i j t" "mhead t = mhead s"
      "run_pool (mem t) (freelist t) (mhead t MLrun) pgs (r # ns) (pa # fs)" by blast
  from kalloc_ok [OF t(2,4)] obtain u where "kalloc t = Inr (pa, u)"
    "run_pool (mem u) (freelist u) (mhead u MLrun) pgs ns fs" "mhead u = mhead t" by blast
  with t show ?thesis by auto
qed

text \<open>
  When every node of the M-List of runs is in use, \<open>kfree\<close> of any valid page panics:
  \<open>register_memobj\<close> asks \<open>my_kalloc\<close> for a page, which takes \<open>kmem->lock\<close> a second
  time.
\<close>

text \<open>
  When every node of the M-List of runs is in use, \<open>kfree\<close> of any valid page panics:
  \<open>register_memobj\<close> asks \<open>my_kalloc\<close> for a page, which takes \<open>kmem->lock\<close> a second
  time.
\<close>

text \<open>
  When every node of the M-List of runs is in use, \<open>kfree\<close> of any valid page panics:
  \<open>register_memobj\<close> asks \<open>my_kalloc\<close> for a page, which takes \<open>kmem->lock\<close> a second
  time.
\<close>

text \<open>
  When every node of the M-List of runs is in use, \<open>kfree\<close> of any valid page panics:
  \<open>register_memobj\<close> asks \<open>my_kalloc\<close> for a page, which takes \<open>kmem->lock\<close> a second
  time.
\<close>

theorem kfree_panics_without_node:
  assumes "alloc_ready p i j s" and "registry (mem s) (mhead s MLrun) pgs ns"
    and "set (search_order (mhead s MLrun) pgs) \<subseteq> set ns"
    and "pa mod PGSIZE = 0" and "kend s \<le> pa" and "pa < PHYSTOP"
    and "pa \<notin> set (mhead s MLrun # pgs)" and "pa \<notin> set (map (mem s) ns)"
  shows "kfree pa s = Inl (Panic ''acquire'')"
proof -
  let ?h = "hist (rcs_infos s i)" and ?r = "mhead s MLrun"
  have r: "cpu_ok s" "\<And>n. free_lock (LkRecLk n) s" "\<And>n. free_lock (LkRec n) s"
    "curproc s = Some p" "rcs_find (pid (procs s p)) s = Some i"
    and a: "free_lock LkKmem s" "free_lock LkGiant s" "free_lock LkTrans s" "?r \<noteq> 0"
    and tr: "my_index s = Some j" "0 \<le> run_ntrans (tarr s j)"
    using assms(1) by (simp_all add: alloc_ready_def rcs_ready_def trans_ready_def)
  have sp: "slot_pages (mem s) ?r pgs" using assms(2) by (simp add: registry_def)
  let ?m0 = "page_fill pa EMPTY (mem s)"
  have same: "?m0 x = mem s x" if "q \<in> set (?r # pgs)" "q \<le> x" "x < q + 4096" for q x
    by (rule page_fill_other [of pa q]) (use assms(4,7) slot_pages_pages(1) [OF sp] that in auto)
  have reg: "registry ?m0 ?r pgs ns" "map ?m0 ns = map (mem s) ns"
    by (rule registry_frame [OF assms(2) same]; assumption)+
  have "\<not> stops_at ?m0 pa x" if "x \<in> set (search_order ?r pgs)" for x
  proof -
    have x: "x \<in> set ns" using that assms(3) by auto
    then have "?m0 x \<in> set (map ?m0 ns)" by simp
    then have "?m0 x \<noteq> pa" using assms(8) unfolding reg(2) by metis
    then show ?thesis using x reg(1) by (auto simp: stops_at_def registry_def)
  qed
  then have "find (stops_at ?m0 pa) (search_order ?r pgs) = None" by (auto simp: find_None_iff)
  then have fs: "find_slot ?m0 pa (?r + 16) = Some (PageEnd (last (?r # pgs) + 0xff0))"
    using registry_find_slot [OF reg(1), of pa] by simp
  let ?s0 = "s\<lparr>mem := ?m0\<rparr>"
  let ?s1 = "set_hist i (hist_add RL_KMEM ?h) (counted RL_KMEM 0 ?s0)"
  have enter: "enter_recovery_critical_section RL_KMEM 0 ?s0 = Inr (saved ?s1)"
    using enter_ok [of ?s0 RL_KMEM p i 0] r by simp
  let ?s2 = "set_trans j (\<lambda>t. t\<lparr>run_ntrans := run_ntrans t + 1\<rparr>) (?s1\<lparr>log_run := pa\<rparr>)"
  have entert: "enter_trans_run pa (taken LkKmem ?s1) = Inr (taken LkKmem ?s2)"
    using r a tr by (simp add: enter_trans_run_def my_trans_ok)
  have "register_memobj pa ?r (taken LkKmem ?s2) = Inl (Panic ''acquire'')"
    using register_memobj_ok(3) [of "taken LkKmem ?s2" pa ?r] r a fs by simp
  then show ?thesis
    using r a assms(4-6)
    by (simp add: kfree_def enter lock_simps entert [simplified])
qed

section \<open>Concrete states\<close>

definition demo_mem :: memory where
  "demo_mem a = (if a = 0x80100008 then 0x80100030 else if a = 0x80100038 then 0x80100020
     else if a = 0x80100028 then 0x80100010 else if a = 0x80100018 then 0x80100000
     else if a = 0x80100030 then 0x80203000 else if a = 0x80100020 then 0x80202000
     else if a = 0x80100010 then 0x80201000
     else if a = 0x80203000 then 0x80202000 else if a = 0x80202000 then 0x80201000
     else if 0x80100000 \<le> a \<and> a < 0x80101000 then JUNK else 0)"

definition boot_mem :: "memory \<Rightarrow> nat \<Rightarrow> memstate" where
  "boot_mem m fl = transtate.extend boot_tr (memstate.fields m 0x80050000 fl
     (\<lambda>_. 0x80100000) 0x80110000 0x80060000 (\<lambda>_. 0x80040000) (\<lambda>_. 0x80045000))"

lemma boot_mem_sel [simp]:
  "hart (boot_mem m fl) = 0" "cproc (boot_mem m fl) h = Some h" "noff (boot_mem m fl) = (\<lambda>_. 0)"
  "sie (boot_mem m fl) = (\<lambda>_. False)"
  "locks (boot_mem m fl) lk = \<lparr>locked = False, lname = [], lcpu = None\<rparr>"
  "pid (procs (boot_mem m fl) i) = i + 1" "nextpid (boot_mem m fl) = 65"
  "rcs_infos (boot_mem m fl) i = \<lparr>rpid = i + 1, hist = [0,0,0,0,0]\<rparr>"
  "tarr (boot_mem m fl) i =
     \<lparr>tpid = (if i < 3 then i + 1 else 0), pagetable_ntrans = 0, log_ntrans = 0, run_ntrans = 0\<rparr>"
  "mem (boot_mem m fl) = m" "freelist (boot_mem m fl) = fl" "mhead (boot_mem m fl) k = 0x80100000"
  "kend (boot_mem m fl) = 0x80060000"
  by (simp_all add: boot_mem_def boot_tr_def boot_rl_def boot_sched_def boot_mach_def mach.defs
     sched.defs rlstate.defs transtate.defs memstate.defs)

lemma boot_mem_ok [simp]: "cpu_ok (boot_mem m fl)" "free_lock lk (boot_mem m fl)"
  "curproc (boot_mem m fl) = Some 0" "alloc_ready 0 0 0 (boot_mem m fl)"
proof -
  show 1: "cpu_ok (boot_mem m fl)" "free_lock lk (boot_mem m fl)" "curproc (boot_mem m fl) = Some 0" for lk
    by (simp_all add: cpu_ok_def free_lock_def curproc_def)
  have "last_trans (Suc 0) (boot_mem m fl) = Some 0"
    by (auto simp: last_trans_def intro!: find_rev_unique split: if_splits)
  moreover have "rcs_find (Suc 0) (boot_mem m fl) = Some 0" by (simp add: rcs_find_def first_idx_Some)
  ultimately show "alloc_ready 0 0 0 (boot_mem m fl)" using 1
    by (simp add: alloc_ready_def rcs_ready_def hist_ok_5 open_sections_def hist_abs_def trans_ready_def
       my_index_def)
qed

lemma demo_node: "0 < k \<Longrightarrow> k < 255 \<Longrightarrow> k > 3 \<Longrightarrow> demo_mem (0x80100000 + 16 * k) = JUNK"
  by (simp add: demo_mem_def)

lemma demo_nonzero: "k < 255 \<Longrightarrow> demo_mem (0x80100000 + 16 * k) \<noteq> 0"
  by (simp add: demo_mem_def)

lemma demo_registry: "registry demo_mem 0x80100000 [] [0x80100030, 0x80100020, 0x80100010]"
proof -
  have "demo_mem r = JUNK" if "r \<in> set (search_order 0x80100000 [])"
    "r \<notin> {0x80100030, 0x80100020, 0x80100010}" for r
  proof -
    from that(1) obtain k where k: "0 < k" "k < 255" "r = 0x80100000 + 16 * k"
      unfolding set_search_order by auto
    have "k \<noteq> 1" "k \<noteq> 2" "k \<noteq> 3" using that(2) k(3) by auto
    then have "3 < k" using k(1) by simp
    then show ?thesis using demo_node k by simp
  qed
  moreover have "x \<in> set (search_order 0x80100000 [])"
    if "x \<in> {0x80100030, 0x80100020, 0x80100010}" for x :: nat
  proof -
    from that have "x = 0x80100000 + 16 * 3 \<or> x = 0x80100000 + 16 * 2 \<or> x = 0x80100000 + 16 * 1" by simp
    then show ?thesis unfolding set_search_order by fastforce
  qed
  moreover have "slot_pages demo_mem 0x80100000 []"
    using demo_nonzero by (simp add: slot_pages.simps demo_mem_def)
  moreover have "mlist_at demo_mem 0x80100000 [0x80100030, 0x80100020, 0x80100010]"
    by (simp add: mlist_at_def spaced_def demo_mem_def)
  ultimately show ?thesis unfolding registry_def by (simp add: demo_mem_def)
qed

lemma demo_pool: "run_pool demo_mem 0x80203000 0x80100000 [] [0x80100030, 0x80100020, 0x80100010]
    [0x80203000, 0x80202000, 0x80201000]"
  using demo_registry by (simp add: run_pool_def demo_mem_def)

lemma demo_free: "free_pages 0 0 0 0x80100000 [] (boot_mem demo_mem 0x80203000)
    [0x80203000, 0x80202000, 0x80201000]"
  using demo_pool by (auto simp: free_pages_def)

text \<open>
  C29. Registering an object that is not in a list, while the list has an unused node, puts it at
  the head of the registered objects; deleting it gives back the same objects in the same
  nodes.
\<close>

theorem register_delete_roundtrip:
  assumes "cpu_ok s" and "free_lock LkGiant s" and "registry (mem s) h ps ns"
    and "a \<notin> {0, EMPTY, JUNK}" and "a \<notin> set (objs h ns s)"
    and "\<exists>r \<in> set (search_order h ps). r \<notin> set ns"
  shows "\<exists>t u ms. register_memobj a h s = Inr t \<and> registry (mem t) h ps ms \<and>
     objs h ms t = a # objs h ns s \<and>
     delete_memobj a h 0 t = Inr u \<and> registry (mem u) h ps ns \<and> objs h ns u = objs h ns s"
proof -
  obtain pre r post where so: "search_order h ps = pre @ r # post" "set pre \<subseteq> set ns" "r \<notin> set ns"
    using first_hole assms(3,6) by blast
  have "\<And>x. x \<in> set pre \<Longrightarrow> x \<in> set ns \<and> mem s x \<noteq> a" using so(2) assms(5) by (auto simp: objs_def)
  note R = register_hole [OF assms(1-4) so(1) this so(3)]
  let ?t = "saved (s\<lparr>mem := ml_insert h r a (mem s)\<rparr>)"
  have reg: "registry (mem ?t) h ps ([] @ r # ns)" using R(2) by simp
  have "mem ?t r = a" using R(3) by simp
  note D = delete_node [of ?t, OF _ _ reg this]
  let ?m = "ml_unlink (last [h]) r (mem ?t)"
  have del: "delete_memobj a h 0 ?t = Inr (saved (?t\<lparr>mem := ?m\<rparr>))" "registry ?m h ps ns"
    "map ?m ns = map (mem ?t) ns" using D assms(1,2) by simp_all
  have old: "map (mem ?t) ns = map (mem s) ns" using R(3) by simp
  show ?thesis
    by (intro exI [of _ ?t] exI [of _ "saved (?t\<lparr>mem := ?m\<rparr>)"] exI [of _ "r # ns"])
      (use R del old in \<open>simp add: objs_def\<close>)
qed

text \<open>
  The check for an object that is already registered stops at the first unused node: an
  object registered behind a node that was deleted is registered a second time.
\<close>

text \<open>
  The check for an object that is already registered stops at the first unused node: an
  object registered behind a node that was deleted is registered a second time.
\<close>

text \<open>
  The check for an object that is already registered stops at the first unused node: an
  object registered behind a node that was deleted is registered a second time.
\<close>

text \<open>
  The check for an object that is already registered stops at the first unused node: an
  object registered behind a node that was deleted is registered a second time.
\<close>

theorem register_duplicates_after_hole:
  assumes "cpu_ok s" and "free_lock LkGiant s" and "registry (mem s) h ps ns"
    and "a \<notin> {0, EMPTY, JUNK}" and "a \<in> set (objs h ns s)" and "search_order h ps = pre @ r # post"
    and "r \<notin> set ns" and "\<forall>x \<in> set pre. x \<in> set ns \<and> mem s x \<noteq> a"
  shows "\<exists>t ms. register_memobj a h s = Inr t \<and> registry (mem t) h ps ms \<and>
     objs h ms t = a # objs h ns s \<and> \<not> distinct (objs h ms t)"
proof -
  have "\<And>x. x \<in> set pre \<Longrightarrow> x \<in> set ns \<and> mem s x \<noteq> a" using assms(8) by simp
  note R = register_hole [OF assms(1-4,6) this assms(7)]
  let ?t = "saved (s\<lparr>mem := ml_insert h r a (mem s)\<rparr>)"
  show ?thesis
    by (intro exI [of _ ?t] exI [of _ "r # ns"]) (use R assms(5) in \<open>simp add: objs_def\<close>)
qed

theorem register_delete_roundtrip_witness:
  "\<exists>t u. register_memobj 0x80204000 0x80100000 (boot_mem demo_mem 0x80203000) = Inr t \<and>
     delete_memobj 0x80204000 0x80100000 0 t = Inr u"
proof -
  have "(0x80100000 :: nat) + 16 * 4 \<in> set (search_order 0x80100000 [])"
    unfolding set_search_order by fastforce
  then have "\<exists>r \<in> set (search_order 0x80100000 []). r \<notin> {0x80100030, 0x80100020, 0x80100010}"
    by (rule bexI [rotated]) simp
  then show ?thesis
    using register_delete_roundtrip [OF boot_mem_ok(1) boot_mem_ok(2), of demo_mem "0x80203000" "0x80100000" "[]"
      "[0x80100030, 0x80100020, 0x80100010]" "0x80204000"] demo_registry
    by (auto simp: objs_def demo_mem_def)
qed

text \<open>The same list after its first node was deleted: the hole precedes the other nodes.\<close>

definition hole_mem :: memory where
  "hole_mem = ml_unlink 0x80100020 0x80100010 demo_mem"

lemma hole_registry: "registry hole_mem 0x80100000 [] [0x80100030, 0x80100020]"
  using registry_remove(1) [of demo_mem "0x80100000" "[]" "[0x80100030, 0x80100020]" "0x80100010" "[]"]
    demo_registry by (simp add: hole_mem_def)

theorem register_duplicates_after_hole_witness:
  "\<exists>t ms. register_memobj 0x80203000 0x80100000 (boot_mem hole_mem 0x80203000) = Inr t \<and>
     objs 0x80100000 ms t = [0x80203000, 0x80203000, 0x80202000]"
proof -
  have "hole_mem 0x80100030 = 0x80203000" "hole_mem 0x80100020 = 0x80202000"
    by (simp_all add: hole_mem_def ml_unlink_def demo_mem_def Let_def)
  moreover have "search_order 0x80100000 [] = [] @ 0x80100010 # page_nodes 0x80100000 2"
  proof -
    have up: "[1..<255] = 1 # [2..<(255 :: nat)]" by (subst upt_conv_Cons) (simp_all add: numeral_2_eq_2)
    have one: "0x80100000 + 16 * 1 = (0x80100010 :: nat)" by simp
    show ?thesis
      by (simp only: search_order_def page_nodes_def up list.map concat.simps append_Nil2 append_Nil one)
  qed
  moreover have "objs 0x80100000 [0x80100030, 0x80100020] (boot_mem hole_mem 0x80203000) =
      [0x80203000, 0x80202000]"
    using calculation by (simp add: objs_def)
  ultimately show ?thesis
    using register_duplicates_after_hole [OF boot_mem_ok(1) boot_mem_ok(2), of hole_mem "0x80203000" "0x80100000" "[]"
      "[0x80100030, 0x80100020]" "0x80203000" "[]" "0x80100010"] hole_registry
    by fastforce
qed

theorem kalloc_distinct_pages_witness:
  "\<exists>qs t. alloc_n kalloc 2 (boot_mem demo_mem 0x80203000) = Inr (qs, t) \<and> length qs = 2 \<and> distinct qs"
  using kalloc_distinct_pages [OF demo_free, of 2] by auto

theorem kfree_kalloc_roundtrip_witness:
  "\<exists>t u. kfree 0x80204000 (boot_mem demo_mem 0x80203000) = Inr t \<and> kalloc t = Inr (0x80204000, u)"
proof -
  have "(0x80100000 :: nat) + 16 * 4 \<in> set (search_order 0x80100000 [])"
    unfolding set_search_order by fastforce
  then have "\<exists>r \<in> set (search_order 0x80100000 []). r \<notin> {0x80100030, 0x80100020, 0x80100010}"
    by (rule bexI [rotated]) simp
  then show ?thesis
    using kfree_kalloc_roundtrip [OF boot_mem_ok(4) [of demo_mem "0x80203000"], where pgs = "[]" and
      ns = "[0x80100030, 0x80100020, 0x80100010]" and
      fs = "[0x80203000, 0x80202000, 0x80201000]" and pa = "0x80204000"] demo_pool
    by auto
qed

text \<open>A list of runs whose only page of nodes is full.\<close>

definition full_mem :: memory where
  "full_mem a =
     (if a = 0x80100008 then 0x80100010 else if a = 0x80100fe8 then 0x80100000
      else if 0x80100000 < a \<and> a < 0x80100ff0 then
        (if a mod 16 = 0 then 0x80200000 + 256 * (a - 0x80100000) else a + 8)
      else JUNK)"

lemma full_nodes:
  assumes "k \<le> 254" and "0 < k"
  shows "nodes full_mem 0x80100000 (0x80100000 + 16 * k)
    (map (\<lambda>j. 0x80100000 + 16 * j) [Suc k..<255])"
  using assms
proof (induction "254 - k" arbitrary: k)
  case 0
  then have "k = 254" by simp
  then show ?case by (simp add: full_mem_def)
next
  case (Suc n)
  then have k: "k < 254" by simp
  have "(0x80100000 + 16 * k + 8) mod 16 = 8"
  proof -
    have e: "0x80100000 + 16 * k + 8 = 16 * (0x8010000 + k) + (8 :: nat)" by simp
    show ?thesis unfolding e by simp
  qed
  then have step: "full_mem (0x80100000 + 16 * k + 8) = 0x80100000 + 16 * Suc k"
    using k Suc.prems(2) by (simp add: full_mem_def)
  have up: "[Suc k..<255] = Suc k # [Suc (Suc k)..<255]" using k by (simp add: upt_conv_Cons)
  have "nodes full_mem 0x80100000 (0x80100000 + 16 * Suc k)
    (map (\<lambda>j. 0x80100000 + 16 * j) [Suc (Suc k)..<255])"
    by (rule Suc.hyps(1)) (use Suc.hyps(2) k in auto)
  then show ?case unfolding up using step by simp
qed

lemma full_addr: "0 < k \<Longrightarrow> k < 255 \<Longrightarrow> full_mem (0x80100000 + 16 * k) = 0x80200000 + 4096 * k"
proof -
  assume k: "0 < k" "k < 255"
  have "(0x80100000 + 16 * k) mod 16 = 0"
  proof -
    have e: "0x80100000 + 16 * k = 16 * (0x8010000 + k)" by simp
    show ?thesis unfolding e by simp
  qed
  then show ?thesis using k by (simp add: full_mem_def)
qed

lemma full_search: "set (search_order 0x80100000 []) = set (map (\<lambda>j. 0x80100000 + 16 * j) [1..<255])"
  by (simp add: search_order_def page_nodes_def)

lemma full_registry: "registry full_mem 0x80100000 [] (map (\<lambda>j. 0x80100000 + 16 * j) [1..<255])"
proof -
  have "nodes full_mem 0x80100000 0x80100000 (map (\<lambda>j. 0x80100000 + 16 * j) [1..<255])"
  proof -
    have up: "[1..<255] = 1 # [Suc 1..<255]" by (simp add: upt_conv_Cons)
    show ?thesis unfolding up using full_nodes [of 1] by (simp add: full_mem_def)
  qed
  moreover have "spaced (0x80100000 # map (\<lambda>j. 0x80100000 + 16 * j) [1..<255])"
  proof -
    have e: "(0x80100000 + 16 * j) mod 16 = (0 :: nat)" for j
    proof -
      have e: "0x80100000 + 16 * j = 16 * (0x8010000 + j)" by simp
      show ?thesis unfolding e by simp
    qed
    show ?thesis by (auto simp: spaced_def distinct_map inj_on_def e)
  qed
  moreover have "slot_pages full_mem 0x80100000 []"
  proof -
    have "full_mem (0x80100000 + 16 * k) \<noteq> 0" if "k < 255" for k
      using full_addr [of k] that by (cases "k = 0") (simp_all add: full_mem_def)
    then show ?thesis by (simp add: slot_pages.simps full_mem_def)
  qed
  moreover have "full_mem x \<noteq> EMPTY \<and> full_mem x \<noteq> JUNK"
    if "x \<in> set (map (\<lambda>j. 0x80100000 + 16 * j) [1..<255])" for x
  proof -
    from that obtain k where "0 < k" "k < 255" "x = 0x80100000 + 16 * k" by auto
    with full_addr [of k] show ?thesis by simp
  qed
  ultimately show ?thesis unfolding registry_def full_search by (auto simp: mlist_at_def)
qed

theorem kfree_panics_without_node_witness:
  "kfree 0x80200000 (boot_mem full_mem 0) = Inl (Panic ''acquire'')"
proof -
  have "(0x80200000 :: nat) \<notin> set (map full_mem (map (\<lambda>j. 0x80100000 + 16 * j) [1..<255]))"
    using full_addr by auto
  then show ?thesis
    using kfree_panics_without_node [OF boot_mem_ok(4) [of full_mem "0"], where pgs = "[]" and
      ns = "map (\<lambda>j. 0x80100000 + 16 * j) [1..<255]" and pa = "0x80200000"] full_registry full_search
    by (simp del: set_map set_upt)
qed

end
