(* ===== verification/Nmi.thy ===== *)
theory Nmi
  imports Allocator
begin

text \<open>
  \<open>kernel/nmi_handle.c\<close> and \<open>ret_and_search_nmiqueue\<close> of
  \<open>kernel/mlist_tracker.c\<close>: which handler a memory-error interrupt goes to, the queue of
  pending errors in the kernel stack of the first interrupted process, and the polling protocol
  by which the other interrupted processes receive their result.
\<close>

section \<open>State\<close>

datatype nmi_next = NextPanic | NextFirst | NextFollow

datatype fault_handler = FhTracker | FhPanic

record nmistate = memstate +
  nmi_next :: nmi_next              \<comment> \<open>\<open>mem_nmi_handle_next\<close>\<close>
  fault_handler :: fault_handler    \<comment> \<open>\<open>handler_for_mem_fault\<close>\<close>

type_synonym nmi_queue = "nat \<Rightarrow> nmi_info"

abbreviation no_nmi :: nmi_info where "no_nmi \<equiv> \<lparr>naddr = 0, npid = 0, nsp = 0, ns0 = 0\<rparr>"

section \<open>The queue\<close>

definition nmiq_first :: "nmi_info \<Rightarrow> nmi_queue" where
  "nmiq_first e = (\<lambda>_. no_nmi)(0 := e)"

text \<open>
  A follower takes the first entry without an address, from entry 1 on. With none left it
  panics, unless the last entry has its address: then it goes on without an entry.
\<close>

definition nmiq_follow :: "nmi_info \<Rightarrow> nmi_queue \<Rightarrow> nmi_queue res" where
  "nmiq_follow e q = (case find (\<lambda>i. naddr (q i) = 0) [1..<NMI_QUEUE_SIZE] of
       Some i \<Rightarrow> Inr (q(i := e))
     | None \<Rightarrow> if naddr (q (NMI_QUEUE_SIZE - 1)) \<noteq> naddr e
         then Inl (Panic ''Fail-Stop: Too many NMIs occuer'') else Inr q)"

definition nmiq_status :: "int \<Rightarrow> int \<Rightarrow> nmi_queue \<Rightarrow> nmi_queue" where
  "nmiq_status st irq q = q(0 := (q 0)\<lparr>nsp := of_int st, ns0 := of_int irq\<rparr>)"

text \<open>What the polling loop of a follower waits for, and what it takes.\<close>

definition nmiq_ready :: "nat \<Rightarrow> nmi_queue \<Rightarrow> bool" where
  "nmiq_ready p q \<longleftrightarrow> npid (q 0) = p \<and> of_int SYSCALL_SUCCESS \<le> nsp (q 0) \<and>
     nsp (q 0) \<le> of_int RETURN_TO_KERNEL"

definition nmiq_take :: "nmi_queue \<Rightarrow> nmi_queue" where
  "nmiq_take q = q(0 := no_nmi)"

text \<open>The entries move up until one that is empty has been moved.\<close>

function nmiq_shift_from :: "nat \<Rightarrow> nmi_queue \<Rightarrow> nmi_queue" where
  "nmiq_shift_from i q =
     (if i < NMI_QUEUE_SIZE - 1 then
        let q' = q(i := q (i + 1)) in
        if naddr (q (i + 1)) = 0 \<and> npid (q (i + 1)) = 0 then q' else nmiq_shift_from (i + 1) q'
      else q)"
  by pat_completeness auto
termination
  by (relation "measure (\<lambda>(i, q). NMI_QUEUE_SIZE - i)") auto

declare nmiq_shift_from.simps [simp del]

definition nmiq_shift :: "nmi_queue \<Rightarrow> nmi_queue" where
  "nmiq_shift q = nmiq_shift_from 0 q"

section \<open>The interrupt handlers\<close>

text \<open>The loop of \<open>nmi_handle\<close> over the process table, from entry \<open>i\<close> on.\<close>

function nmi_scan :: "nat \<Rightarrow> 'a nmistate_scheme \<Rightarrow> 'a nmistate_scheme res" where
  "nmi_scan i s =
     (if NPROC \<le> i then Inr s
      else if pstate (procs s i) = UNUSED then nmi_scan (i + 1) s
      else bindE (check_and_acquire (LkProc i) s) (\<lambda>s.
        if pstate (procs s i) = RECOVERING \<or> nmi_queue s \<noteq> None then
          bindE (acquire LkNmi s) (\<lambda>s.
          bindE (release LkNmi (s\<lparr>nmi_next := NextFollow\<rparr>)) (release (LkProc i)))
        else bindE (release (LkProc i) s) (nmi_scan (i + 1))))"
  by pat_completeness auto
termination
  by (relation "measure (\<lambda>(i, s). NPROC - i)") auto

declare nmi_scan.simps [simp del]

definition nmi_handle :: "'a nmistate_scheme \<Rightarrow> 'a nmistate_scheme res" where
  "nmi_handle s =
     (if nmi_next s = NextPanic then Inl (Panic ''Fail-Stop: NMI handler can't handle this NMI'')
      else bindE (myproc (s\<lparr>nmi_next := NextPanic\<rparr>)) (\<lambda>(mp, s). case mp of
          None \<Rightarrow> Inl (Panic ''Fail-Stop: NMI is occurred in the scheduler or boot scheme.'')
        | Some p \<Rightarrow>
            if pstate (procs s p) = RECOVERING then
              Inl (Panic ''Fail-Stop: NMI on recovering process or recovery waiting process'')
            else bindE (nmi_scan 0 s) (\<lambda>s.
              if nmi_next s \<noteq> NextFollow then
                bindE (acquire LkNmi s) (\<lambda>s. release LkNmi (s\<lparr>nmi_next := NextFirst\<rparr>))
              else Inr s)))"

text \<open>Entering the queue: \<open>mem_nmi_handle_first\<close> up to the call of the tracker.\<close>

definition set_recovering :: "nat \<Rightarrow> 'a nmistate_scheme \<Rightarrow> 'a nmistate_scheme res" where
  "set_recovering p s =
     bindE (acquire (LkProc p) s) (\<lambda>s.
       release (LkProc p) (set_proc p (\<lambda>r. r\<lparr>pstate := RECOVERING\<rparr>) s))"

definition nmi_put ::
  "nat \<Rightarrow> u64 \<Rightarrow> u64 \<Rightarrow> nat \<Rightarrow> nmi_queue \<Rightarrow> 'a nmistate_scheme \<Rightarrow> 'a nmistate_scheme res" where
  "nmi_put broken sp s0 p q s =
     bindE (nmiq_follow \<lparr>naddr = broken, npid = pid (procs s p), nsp = sp, ns0 = s0\<rparr> q)
       (\<lambda>q. bindE (release LkNmiQueue (s\<lparr>nmi_queue := Some q\<rparr>)) (set_recovering p))"

definition mem_nmi_handle_first_enter ::
  "nat \<Rightarrow> u64 \<Rightarrow> u64 \<Rightarrow> 'a nmistate_scheme \<Rightarrow> 'a nmistate_scheme res" where
  "mem_nmi_handle_first_enter broken sp s0 s =
     bindE (acquire LkNmi s) (\<lambda>s.
     bindE (release LkNmi (s\<lparr>nmi_next := NextPanic\<rparr>)) (\<lambda>s.
     bindE (myproc s) (\<lambda>(mp, s). case mp of None \<Rightarrow> Inl Trap | Some p \<Rightarrow>
     bindE (acquire LkNmiQueue s) (\<lambda>s. case nmi_queue s of
         Some _ \<Rightarrow>
           bindE (release LkNmiQueue s) (\<lambda>s.
           bindE (acquire LkNmiQueue s) (\<lambda>s. case nmi_queue s of
               None \<Rightarrow> Inl Trap | Some q \<Rightarrow> nmi_put broken sp s0 p q s))
       | None \<Rightarrow>
           bindE (release LkNmiQueue (s\<lparr>nmi_queue := Some (nmiq_first
               \<lparr>naddr = broken, npid = pid (procs s p), nsp = sp, ns0 = s0\<rparr>)\<rparr>)) (\<lambda>s.
           bindE (set_recovering p s) (\<lambda>s.
           bindE (acquire LkNmi s) (\<lambda>s.
           bindE (release LkNmi (s\<lparr>nmi_next := NextFirst\<rparr>)) (\<lambda>s.
             if fault_handler s = FhPanic
             then Inl (Panic ''Fail-Stop: Multiple processes try to enter recovery handlers in parallel.'')
             else Inr s))))))))"

text \<open>\<open>mem_nmi_handle_follow\<close> up to the polling loop.\<close>

definition mem_nmi_handle_follow_enter ::
  "nat \<Rightarrow> u64 \<Rightarrow> u64 \<Rightarrow> 'a nmistate_scheme \<Rightarrow> 'a nmistate_scheme res" where
  "mem_nmi_handle_follow_enter broken sp s0 s =
     bindE (myproc s) (\<lambda>(mp, s). case mp of None \<Rightarrow> Inl Trap | Some p \<Rightarrow>
     bindE (acquire LkNmiQueue s) (\<lambda>s. case nmi_queue s of
         None \<Rightarrow> bindE (release LkNmiQueue s) (mem_nmi_handle_first_enter broken sp s0)
       | Some q \<Rightarrow> nmi_put broken sp s0 p q s))"

text \<open>One look of a follower's polling loop: the status and interrupt number, once there.\<close>

definition follow_poll ::
  "nat \<Rightarrow> u64 \<Rightarrow> u64 \<Rightarrow> nat \<Rightarrow> 'a nmistate_scheme \<Rightarrow>
     ((u64 \<times> u64) option \<times> 'a nmistate_scheme) res" where
  "follow_poll broken sp s0 p s =
     bindE (acquire LkNmiQueue s) (\<lambda>s. case nmi_queue s of
         None \<Rightarrow> bindE (mem_nmi_handle_first_enter broken sp s0 s) (\<lambda>s. Inr (None, s))
       | Some q \<Rightarrow> bindE (release LkNmiQueue s) (\<lambda>s.
           if nmiq_ready p q then
             bindE (acquire LkNmiQueue s) (\<lambda>s.
             bindE (release LkNmiQueue (s\<lparr>nmi_queue := Some (nmiq_take q)\<rparr>)) (\<lambda>s.
               Inr (Some (nsp (q 0), ns0 (q 0)), s)))
           else Inr (None, s)))"

datatype nmi_exit = ExitSyscall u64 | ExitKill | ExitUser nat u64 | ExitKernel u64 u64 u64

definition nmi_exit_of :: "u64 \<Rightarrow> u64 \<Rightarrow> nat \<Rightarrow> u64 \<Rightarrow> u64 \<Rightarrow> nmi_exit res" where
  "nmi_exit_of st irq p sp s0 =
     (if st \<in> {of_int SYSCALL_SUCCESS, of_int SYSCALL_FAIL, of_int SYSCALL_REDO,
               of_int REOPEN_SYSCALL_FAIL, of_int REOPEN_SYSCALL_REDO} then Inr (ExitSyscall st)
      else if st = of_int PROCESS_KILL then Inr ExitKill
      else if st = of_int RETURN_TO_USER then Inr (ExitUser p irq)
      else if st = of_int RETURN_TO_KERNEL then Inr (ExitKernel sp s0 irq)
      else Inl (Panic ''Fail-Stop: Invalid recovery result is passed''))"

text \<open>
  \<open>ret_and_search_nmiqueue\<close>: publish the result, wait until a follower has taken it, move
  the queue up, and return the address that is first then.
\<close>

definition ret_publish :: "int \<Rightarrow> int \<Rightarrow> 'a nmistate_scheme \<Rightarrow> 'a nmistate_scheme res" where
  "ret_publish st irq s =
     bindE (acquire LkNmiQueue s) (\<lambda>s. case nmi_queue s of
         None \<Rightarrow> Inl Trap
       | Some q \<Rightarrow> release LkNmiQueue (s\<lparr>nmi_queue := Some (nmiq_status st irq q)\<rparr>))"

definition ret_shift :: "'a nmistate_scheme \<Rightarrow> (nat \<times> 'a nmistate_scheme) res" where
  "ret_shift s =
     bindE (acquire LkNmiQueue s) (\<lambda>s. case nmi_queue s of
         None \<Rightarrow> Inl Trap
       | Some q \<Rightarrow> bindE (release LkNmiQueue (s\<lparr>nmi_queue := Some (nmiq_shift q)\<rparr>)) (\<lambda>s.
           Inr (naddr (nmiq_shift q 0), s)))"

definition ret_and_search_nmiqueue ::
  "int \<Rightarrow> int \<Rightarrow> 'a nmistate_scheme \<Rightarrow> (nat \<times> 'a nmistate_scheme) res" where
  "ret_and_search_nmiqueue st irq s =
     bindE (ret_publish st irq s) (\<lambda>s.
     bindE (myproc s) (\<lambda>(mp, s). case mp of None \<Rightarrow> Inl Trap | Some p \<Rightarrow>
       (case nmi_queue s of None \<Rightarrow> Inl Trap | Some q \<Rightarrow>
         if npid (q 0) \<noteq> pid (procs s p) \<and> naddr (q 0) \<noteq> 0 then Inl Blocked
         else ret_shift s)))"

section \<open>The protocol between the recovering process and the followers\<close>

datatype wait = Idle | Waiting nat | Got u64

datatype phase = Track | Await | Shifting

record proto =
  pq :: "nmi_queue option"
  who :: "nat \<Rightarrow> wait"
  boss :: nat
  phase :: phase
  handled :: "(nat \<times> nat \<times> u64) list"   \<comment> \<open>pid, address and result, newest first\<close>

definition in_range :: "u64 \<Rightarrow> bool" where
  "in_range st \<longleftrightarrow> of_int SYSCALL_SUCCESS \<le> st \<and> st \<le> of_int RETURN_TO_KERNEL"

text \<open>A new error report: a pointer into a kernel stack is no status.\<close>

definition report :: "nmi_info \<Rightarrow> bool" where
  "report e \<longleftrightarrow> naddr e \<noteq> 0 \<and> npid e \<noteq> 0 \<and> \<not> in_range (nsp e)"

inductive nmi_arrive :: "proto \<Rightarrow> proto \<Rightarrow> bool" where
  first: "pq x = None \<Longrightarrow> report e \<Longrightarrow> who x (npid e) = Idle \<Longrightarrow>
    nmi_arrive x (x\<lparr>pq := Some (nmiq_first e), boss := npid e, phase := Track\<rparr>)"
| follow: "pq x = Some q \<Longrightarrow> report e \<Longrightarrow> who x (npid e) = Idle \<Longrightarrow> npid e \<noteq> boss x \<Longrightarrow>
    nmiq_follow e q = Inr q' \<Longrightarrow>
    nmi_arrive x (x\<lparr>pq := Some q', who := (who x)(npid e := Waiting (naddr e))\<rparr>)"
| resume: "who x p = Got r \<Longrightarrow> nmi_arrive x (x\<lparr>who := (who x)(p := Idle)\<rparr>)"

inductive nmi_work :: "proto \<Rightarrow> proto \<Rightarrow> bool" where
  handle: "pq x = Some q \<Longrightarrow> phase x = Track \<Longrightarrow> st \<in> {2..10} \<Longrightarrow>
    nmi_work x (x\<lparr>pq := Some (nmiq_status st irq q),
       phase := (if npid (q 0) = boss x then Shifting else Await),
       handled := (npid (q 0), naddr (q 0), of_int st) # handled x\<rparr>)"
| poll: "pq x = Some q \<Longrightarrow> who x p = Waiting a \<Longrightarrow> nmiq_ready p q \<Longrightarrow>
    nmi_work x (x\<lparr>pq := Some (nmiq_take q), who := (who x)(p := Got (nsp (q 0)))\<rparr>)"
| await: "pq x = Some q \<Longrightarrow> phase x = Await \<Longrightarrow> naddr (q 0) = 0 \<Longrightarrow>
    nmi_work x (x\<lparr>phase := Shifting\<rparr>)"
| shift: "pq x = Some q \<Longrightarrow> phase x = Shifting \<Longrightarrow> q' = nmiq_shift q \<Longrightarrow>
    nmi_work x (if naddr (q' 0) \<noteq> 0 then x\<lparr>pq := Some q', phase := Track\<rparr>
       else x\<lparr>pq := None, phase := Track\<rparr>)"

definition quiet :: proto where
  "quiet = \<lparr>pq = None, who = (\<lambda>_. Idle), boss = 0, phase = Track, handled = []\<rparr>"

text \<open>Executions in which the last entry of the queue is never used.\<close>

definition room :: "proto \<Rightarrow> bool" where
  "room x = (case pq x of None \<Rightarrow> True | Some q \<Rightarrow> naddr (q (NMI_QUEUE_SIZE - 1)) = 0)"

inductive nmi_run :: "proto \<Rightarrow> bool" where
  start: "nmi_run quiet"
| step: "nmi_run x \<Longrightarrow> nmi_arrive x y \<or> nmi_work x y \<Longrightarrow> room y \<Longrightarrow> nmi_run y"

definition qrep :: "nmi_queue \<Rightarrow> nmi_info list \<Rightarrow> bool" where
  "qrep q es \<longleftrightarrow> length es < NMI_QUEUE_SIZE \<and>
     (\<forall>i < NMI_QUEUE_SIZE. q i = (if i < length es then es ! i else no_nmi))"

definition live :: "nat \<Rightarrow> nmi_info \<Rightarrow> nmi_info list \<Rightarrow> nmi_info set" where
  "live b h es = set es \<union> (if npid h \<noteq> 0 \<and> npid h \<noteq> b then {h} else {})"

definition head_ok :: "phase \<Rightarrow> nat \<Rightarrow> (nat \<times> nat \<times> u64) set \<Rightarrow> nmi_info \<Rightarrow> bool" where
  "head_ok ph b done h = (case ph of
        Track \<Rightarrow> report h
      | Await \<Rightarrow> h = no_nmi \<or> (npid h \<noteq> b \<and> npid h \<noteq> 0 \<and> naddr h \<noteq> 0 \<and> in_range (nsp h) \<and>
           (npid h, naddr h, nsp h) \<in> done)
      | Shifting \<Rightarrow> h = no_nmi \<or> npid h = b)"

definition waiters :: "(nat \<Rightarrow> wait) \<Rightarrow> nmi_info set \<Rightarrow> bool" where
  "waiters w es \<longleftrightarrow> (\<forall>p a. w p = Waiting a \<longleftrightarrow> (\<exists>e \<in> es. npid e = p \<and> naddr e = a))"

definition queue_inv :: "proto \<Rightarrow> nmi_info \<Rightarrow> nmi_info list \<Rightarrow> bool" where
  "queue_inv x h es \<longleftrightarrow> (\<forall>e \<in> set es. report e) \<and> distinct (map npid es) \<and>
     npid h \<notin> npid ` set es \<and> boss x \<notin> npid ` set es \<and> boss x \<noteq> 0 \<and>
     waiters (who x) (live (boss x) h es) \<and> head_ok (phase x) (boss x) (set (handled x)) h"

definition proto_inv :: "proto \<Rightarrow> bool" where
  "proto_inv x \<longleftrightarrow> (\<forall>p r. who x p = Got r \<longrightarrow> (\<exists>a. (p, a, r) \<in> set (handled x))) \<and>
     (case pq x of
        None \<Rightarrow> (\<forall>p a. who x p \<noteq> Waiting a)
      | Some q \<Rightarrow> \<exists>h es. qrep q (h # es) \<and> queue_inv x h es)"

lemma qrep_shift:
  assumes "qrep q (h # es)" and "\<And>e. e \<in> set es \<Longrightarrow> report e"
  shows "qrep (nmiq_shift q) es"
proof -
  have q: "q i = (if i < Suc (length es) then (h # es) ! i else no_nmi)" if "i < 5" for i
    using assms(1) that by (simp add: qrep_def)
  have len: "length es < 4" using assms(1) by (simp add: qrep_def)
  have ne: "naddr (es ! i) \<noteq> 0" if "i < length es" for i
    using assms(2) [of "es ! i"] that by (simp add: report_def)
  have cases: "length es = 0 \<or> length es = 1 \<or> length es = 2 \<or> length es = 3" using len by arith
  show ?thesis
    unfolding qrep_def nmiq_shift_def
    using cases q [of 0] q [of 1] q [of 2] q [of 3] q [of 4] ne [of 0] ne [of 1] ne [of 2]
    apply (elim disjE)
       apply (simp_all add: nmiq_shift_from.simps Let_def less_Suc_eq numeral_eq_Suc all_conj_distrib)
    done
qed

lemma in_range_status: "st \<in> {2..10} \<Longrightarrow> in_range (of_int st)"
proof -
  assume st: "st \<in> {2..10 :: int}"
  then have "st \<in> {2,3,4,5,6,7,8,9,10}" by auto
  then show ?thesis by (auto simp: in_range_def word_le_nat_alt)
qed

lemma qrep_0: "qrep q (h # es) \<Longrightarrow> q 0 = h"
  by (auto simp: qrep_def)

lemma qrep_head: "qrep q (h # es) \<Longrightarrow> qrep (q(0 := h')) (h' # es)"
  by (auto simp: qrep_def nth_Cons split: nat.splits)

lemma qrep_follow:
  assumes "qrep q (h # es)" and "\<And>e. e \<in> set es \<Longrightarrow> report e" and "nmiq_follow e q = Inr q'"
    and "naddr (q' 4) = 0" and "report e"
  shows "qrep q' (h # es @ [e])"
proof -
  have q: "q i = (if i < Suc (length es) then (h # es) ! i else no_nmi)" if "i < 5" for i
    using assms(1) that by (simp add: qrep_def)
  have ne: "naddr (es ! i) \<noteq> 0" if "i < length es" for i
    using assms(2) [of "es ! i"] that by (simp add: report_def)
  have len: "length es < 4" using assms(1) by (simp add: qrep_def)
  have up: "[1..<5] = [1,2,3,4 :: nat]" by (simp add: upt_rec)
  have cases: "length es = 0 \<or> length es = 1 \<or> length es = 2 \<or> length es = 3" using len by arith
  have "find (\<lambda>i. naddr (q i) = 0) [1..<5] = Some (Suc (length es))"
    using cases q [of 1] q [of 2] q [of 3] q [of 4] ne [of 0] ne [of 1] ne [of 2] unfolding up
    by (elim disjE) (simp_all add: numeral_eq_Suc)
  then have q': "q' = q(Suc (length es) := e)" using assms(3) by (simp add: nmiq_follow_def)
  have "length es \<noteq> 3" using assms(4,5) q' by (auto simp: report_def)
  then have l: "length es < 3" using len by simp
  show ?thesis unfolding qrep_def q'
    using l q by (auto simp: nth_append nth_Cons split: nat.splits)
qed

lemma proto_invI:
  assumes "pq y = Some q" and "qrep q (h # es)" and "queue_inv y h es"
    and "\<forall>p r. who y p = Got r \<longrightarrow> (\<exists>a. (p, a, r) \<in> set (handled y))"
  shows "proto_inv y"
  using assms by (auto simp: proto_inv_def)

lemma waitersD: "waiters w es \<Longrightarrow> e \<in> es \<Longrightarrow> w (npid e) = Waiting (naddr e)"
  by (auto simp: waiters_def)

lemma arrive_inv:
  assumes "nmi_arrive x y" and inv: "proto_inv x" and "room y"
  shows "proto_inv y"
  using assms
proof (induction rule: nmi_arrive.induct)
  case (first x e)
  have "qrep (nmiq_first e) [e]" by (auto simp: qrep_def nmiq_first_def)
  moreover have "queue_inv (x\<lparr>pq := Some (nmiq_first e), boss := npid e, phase := Track\<rparr>) e []"
    using first by (auto simp: queue_inv_def live_def report_def proto_inv_def head_ok_def waiters_def)
  ultimately show ?case using first by (auto simp: proto_inv_def)
next
  case (follow x q e q')
  then obtain h es where qr: "qrep q (h # es)" and qi: "queue_inv x h es" by (auto simp: proto_inv_def)
  have rep: "\<And>d. d \<in> set es \<Longrightarrow> report d" using qi by (simp add: queue_inv_def)
  have "naddr (q' 4) = 0" using follow.prems(2) by (simp add: room_def)
  from qrep_follow [OF qr rep follow.hyps(5) this follow.hyps(2)] have qr': "qrep q' (h # es @ [e])" .
  have w: "waiters (who x) (live (boss x) h es)" using qi by (simp add: queue_inv_def)
  have fresh: "npid e \<notin> npid ` live (boss x) h es"
    using w follow.hyps(3) by (auto simp: waiters_def) (metis wait.distinct(1))
  have nh: "npid h \<noteq> npid e"
    using fresh follow.hyps(2,4) by (auto simp: live_def report_def)
  have "live (boss x) h (es @ [e]) = insert e (live (boss x) h es)" by (auto simp: live_def)
  moreover have "waiters ((who x)(npid e := Waiting (naddr e))) (insert e (live (boss x) h es))"
    using w fresh unfolding waiters_def by (auto simp: image_iff)
  moreover have "npid e \<notin> npid ` set es" using fresh by (auto simp: live_def)
  ultimately have "queue_inv (x\<lparr>pq := Some q', who := (who x)(npid e := Waiting (naddr e))\<rparr>) h (es @ [e])"
    using qi follow.hyps(2,4) nh unfolding queue_inv_def by auto
  with qr' show ?case using follow by (auto simp: proto_inv_def)
next
  case (resume x p r)
  show ?case
  proof (cases "pq x")
    case None
    then show ?thesis using resume by (auto simp: proto_inv_def)
  next
    case (Some q)
    then obtain h es where qr: "qrep q (h # es)" and qi: "queue_inv x h es"
      using resume by (auto simp: proto_inv_def)
    have "queue_inv (x\<lparr>who := (who x)(p := Idle)\<rparr>) h es"
    proof -
      have w: "waiters (who x) (live (boss x) h es)" using qi by (simp add: queue_inv_def)
      have "npid e \<noteq> p" if "e \<in> live (boss x) h es" for e
        using waitersD [OF w that] resume.hyps by auto
      then have "waiters ((who x)(p := Idle)) (live (boss x) h es)"
        using w resume.hyps by (auto simp: waiters_def)
      then show ?thesis using qi by (simp add: queue_inv_def)
    qed
    with Some qr show ?thesis using resume by (auto simp: proto_inv_def)
  qed
qed

lemma work_inv:
  assumes "nmi_work x y" and inv: "proto_inv x"
  shows "proto_inv y"
  using assms
proof (induction rule: nmi_work.induct)
  case (handle x q st irq)
  then obtain h es where qr: "qrep q (h # es)" and qi: "queue_inv x h es" by (auto simp: proto_inv_def)
  have q0: "q 0 = h" by (rule qrep_0 [OF qr])
  let ?h = "h\<lparr>nsp := of_int st, ns0 := of_int irq\<rparr>"
  let ?y = "x\<lparr>pq := Some (nmiq_status st irq q),
       phase := (if npid (q 0) = boss x then Shifting else Await),
       handled := (npid (q 0), naddr (q 0), of_int st) # handled x\<rparr>"
  have qr': "qrep (nmiq_status st irq q) (?h # es)"
    using qrep_head [OF qr, of ?h] q0 by (simp add: nmiq_status_def)
  have rep: "report h" using qi handle.hyps(2) by (simp add: queue_inv_def head_ok_def)
  have "waiters (who x) (live (boss x) ?h es)"
    using qi by (auto simp: queue_inv_def waiters_def live_def)
  moreover have "head_ok (phase ?y) (boss x) (set (handled ?y)) ?h"
    using rep q0 in_range_status [OF handle.hyps(3)] by (simp add: head_ok_def report_def)
  ultimately have "queue_inv ?y ?h es" using qi by (simp add: queue_inv_def)
  moreover have "\<forall>p r. who ?y p = Got r \<longrightarrow> (\<exists>a. (p, a, r) \<in> set (handled ?y))"
    using handle.prems by (auto simp: proto_inv_def)
  ultimately show ?case using qr' by (intro proto_invI) auto
next
  case (poll x q p a)
  then obtain h es where qr: "qrep q (h # es)" and qi: "queue_inv x h es" by (auto simp: proto_inv_def)
  have q0: "q 0 = h" by (rule qrep_0 [OF qr])
  have w: "waiters (who x) (live (boss x) h es)" using qi by (simp add: queue_inv_def)
  have hp: "npid h = p" "in_range (nsp h)" using poll.hyps(3) q0 by (simp_all add: nmiq_ready_def in_range_def)
  obtain e where e: "e \<in> live (boss x) h es" "npid e = p" "naddr e = a"
    using w poll.hyps(2) unfolding waiters_def by blast
  have pn: "p \<noteq> boss x" "p \<noteq> 0" using e qi by (auto simp: live_def queue_inv_def report_def image_iff split: if_splits)
  have ph: "phase x = Await"
    using qi hp pn by (auto simp: queue_inv_def head_ok_def report_def split: phase.splits)
  have dn: "(p, naddr h, nsp h) \<in> set (handled x)"
    using qi hp pn ph by (auto simp: queue_inv_def head_ok_def)
  let ?y = "x\<lparr>pq := Some (nmiq_take q), who := (who x)(p := Got (nsp (q 0)))\<rparr>"
  have qr': "qrep (nmiq_take q) (no_nmi # es)" using qrep_head [OF qr] by (simp add: nmiq_take_def)
  have "p \<notin> npid ` set es" using qi hp by (simp add: queue_inv_def)
  then have "waiters (who ?y) (live (boss x) no_nmi es)"
    using w hp by (auto simp: waiters_def live_def image_iff)
  moreover have "0 \<notin> npid ` set es" using qi by (auto simp: queue_inv_def report_def)
  ultimately have "queue_inv ?y no_nmi es" using qi ph by (simp add: queue_inv_def head_ok_def)
  moreover have "\<forall>p r. who ?y p = Got r \<longrightarrow> (\<exists>a. (p, a, r) \<in> set (handled ?y))"
    using poll.prems dn q0 by (auto simp: proto_inv_def)
  ultimately show ?case using qr' by (intro proto_invI) auto
next
  case (await x q)
  then obtain h es where qr: "qrep q (h # es)" and qi: "queue_inv x h es" by (auto simp: proto_inv_def)
  have "h = no_nmi" using qi await.hyps qrep_0 [OF qr] by (auto simp: queue_inv_def head_ok_def)
  then have "queue_inv (x\<lparr>phase := Shifting\<rparr>) h es" using qi by (simp add: queue_inv_def head_ok_def)
  then show ?case using await qr by (auto simp: proto_inv_def)
next
  case (shift x q q')
  then obtain h es where qr: "qrep q (h # es)" and qi: "queue_inv x h es" by (auto simp: proto_inv_def)
  have rep: "\<And>e. e \<in> set es \<Longrightarrow> report e" using qi by (simp add: queue_inv_def)
  have qr': "qrep q' es" using qrep_shift [OF qr rep] shift.hyps(3) by simp
  have w: "waiters (who x) (live (boss x) h es)" using qi by (simp add: queue_inv_def)
  have lv: "live (boss x) h es = set es"
    using qi shift.hyps(2) by (auto simp: queue_inv_def head_ok_def live_def)
  show ?case
  proof (cases es)
    case Nil
    then have "naddr (q' 0) = 0" using qr' by (simp add: qrep_def)
    then show ?thesis using shift.prems w lv Nil by (simp add: proto_inv_def waiters_def)
  next
    case (Cons d ds)
    have q0: "q' 0 = d" using qr' Cons by (simp add: qrep_0)
    have d: "report d" using rep Cons by simp
    have "live (boss x) d ds = set es"
      using d qi Cons by (auto simp: live_def report_def queue_inv_def)
    then have "queue_inv (x\<lparr>pq := Some q', phase := Track\<rparr>) d ds"
      using qi w lv d Cons by (auto simp: queue_inv_def head_ok_def)
    then show ?thesis using shift.prems q0 d qr' Cons
      by (auto simp: proto_inv_def report_def)
  qed
qed

lemma run_inv: "nmi_run x \<Longrightarrow> proto_inv x"
proof (induction rule: nmi_run.induct)
  case start
  show ?case by (simp add: proto_inv_def quiet_def)
next
  case (step x y)
  then show ?case using arrive_inv work_inv by blast
qed


text \<open>
  C36. In every such execution, while the queue exists, either the recovering process can go on
  or the follower whose result is published can take it: the two never wait for each other.
\<close>

theorem nmi_queue_never_stuck:
  assumes "nmi_run x" and "pq x \<noteq> None"
  shows "\<exists>y. nmi_work x y"
proof -
  from assms(2) obtain q where q: "pq x = Some q" by blast
  then obtain h es where qr: "qrep q (h # es)" and qi: "queue_inv x h es"
    using run_inv [OF assms(1)] by (auto simp: proto_inv_def)
  have q0: "q 0 = h" by (rule qrep_0 [OF qr])
  show ?thesis
  proof (cases "phase x")
    case Track
    with q have "nmi_work x (x\<lparr>pq := Some (nmiq_status 7 0 q),
       phase := (if npid (q 0) = boss x then Shifting else Await),
       handled := (npid (q 0), naddr (q 0), of_int 7) # handled x\<rparr>)" by (intro nmi_work.handle) auto
    then show ?thesis by blast
  next
    case Shifting
    then show ?thesis using nmi_work.shift [OF q] by blast
  next
    case Await
    show ?thesis
    proof (cases "h = no_nmi")
      case True
      then show ?thesis using nmi_work.await [OF q Await] q0 by auto
    next
      case False
      then have h: "npid h \<noteq> boss x" "npid h \<noteq> 0" "in_range (nsp h)"
        using qi Await by (auto simp: queue_inv_def head_ok_def)
      then have "who x (npid h) = Waiting (naddr h)"
        using qi unfolding queue_inv_def waiters_def live_def by auto
      moreover have "nmiq_ready (npid h) q" using h q0 by (simp add: nmiq_ready_def in_range_def)
      ultimately show ?thesis using nmi_work.poll [OF q] by blast
    qed
  qed
qed

definition demo_first :: proto where
  "demo_first = quiet\<lparr>pq := Some (nmiq_first \<lparr>naddr = 100, npid = 1, nsp = 0x9000, ns0 = 0\<rparr>), boss := 1, phase := Track\<rparr>"

definition demo_follow :: proto where
  "demo_follow = demo_first\<lparr>pq := Some ((nmiq_first \<lparr>naddr = 100, npid = 1, nsp = 0x9000, ns0 = 0\<rparr>)
      (1 := \<lparr>naddr = 200, npid = 2, nsp = 0x8000, ns0 = 0\<rparr>)),
     who := (\<lambda>_. Idle)(2 := Waiting 200)\<rparr>"

lemma demo_runs: "nmi_run demo_first" "nmi_run demo_follow"
proof -
  let ?e = "\<lparr>naddr = 100, npid = 1, nsp = 0x9000, ns0 = 0\<rparr>"
    and ?f = "\<lparr>naddr = 200, npid = 2, nsp = 0x8000, ns0 = 0\<rparr>"
  have r: "report ?e" "report ?f" by (simp_all add: report_def in_range_def word_le_nat_alt)
  have "nmi_arrive quiet demo_first"
    using nmi_arrive.first [of quiet ?e] r by (simp add: demo_first_def quiet_def)
  moreover have "room demo_first" by (simp add: room_def demo_first_def nmiq_first_def quiet_def)
  ultimately show 1: "nmi_run demo_first" using nmi_run.intros by blast
  have "nmiq_follow ?f (nmiq_first ?e) = Inr ((nmiq_first ?e)(1 := ?f))"
    by (simp add: nmiq_follow_def upt_rec nmiq_first_def)
  then have "nmi_arrive demo_first demo_follow"
    using nmi_arrive.follow [of demo_first "nmiq_first ?e" ?f] r
    by (simp add: demo_first_def quiet_def demo_follow_def fun_upd_def)
  moreover have "room demo_follow" by (simp add: room_def demo_follow_def nmiq_first_def)
  ultimately show "nmi_run demo_follow" using 1 nmi_run.step by blast
qed


theorem nmi_queue_never_stuck_witness: "\<exists>y. nmi_work demo_first y"
  using nmi_queue_never_stuck [OF demo_runs(1)] by (simp add: demo_first_def)

text \<open>Rounds of the recovering process: whatever entry 0 has become, then the shift.\<close>

fun rounds :: "nmi_queue \<Rightarrow> nmi_info list \<Rightarrow> nmi_queue" where
  "rounds q [] = q"
| "rounds q (x # xs) = rounds (nmiq_shift (q(0 := x))) xs"

lemma shift_full:
  assumes "\<And>i. 0 < i \<Longrightarrow> i < 5 \<Longrightarrow> naddr (q i) \<noteq> 0"
  shows "nmiq_shift (q(0 := x)) i = (if i < 4 then q (i + 1) else q i)"
proof -
  have "naddr (q 1) \<noteq> 0" "naddr (q 2) \<noteq> 0" "naddr (q 3) \<noteq> 0" "naddr (q 4) \<noteq> 0"
    using assms by simp_all
  then have "nmiq_shift (q(0 := x)) = q(0 := q 1, 1 := q 2, 2 := q 3, 3 := q 4)"
    by (simp add: nmiq_shift_def nmiq_shift_from.simps Let_def numeral_eq_Suc)
  then show ?thesis by (auto simp: numeral_eq_Suc less_Suc_eq)
qed

lemma rounds_full:
  assumes "\<And>i. 0 < i \<Longrightarrow> i < 5 \<Longrightarrow> naddr (q i) \<noteq> 0" and "xs \<noteq> []" and "i < 5"
  shows "rounds q xs i = q (min (length xs + i) 4)"
  using assms
proof (induction xs arbitrary: q)
  case (Cons x xs)
  let ?q = "nmiq_shift (q(0 := x))"
  have s: "?q i = (if i < 4 then q (i + 1) else q i)" for i by (rule shift_full) (rule Cons.prems(1))
  show ?case
  proof (cases "xs = []")
    case True
    then show ?thesis using s Cons.prems(3) by (cases "i = 4") (auto simp: min_def)
  next
    case False
    have "naddr (?q j) \<noteq> 0" if "0 < j" "j < 5" for j
      using s [of j] Cons.prems(1) [of "j + 1"] Cons.prems(1) [of j] that by auto
    then have "rounds ?q xs i = ?q (min (length xs + i) 4)" by (intro Cons.IH) (use False Cons.prems in auto)
    also have "\<dots> = q (min (length (x # xs) + i) 4)" using s by (auto simp: min_def)
    finally show ?thesis by simp
  qed
qed simp



end
