(* ===== verification/Policy.thy ===== *)
theory Policy
  imports Prelude
begin

text \<open>
  The decisions of the recovery handlers (\<open>kernel/recovery_handler_*.c\<close>,
  \<open>kernel/recovery_handlers_*.c\<close>, \<open>identify_nmi_occurred_trap\<close> of
  \<open>kernel/kerneltrapret.c\<close>): from the return addresses found in the kernel stack of the
  interrupted process, the recovery mode and the user-cooperation state, which after-treatment
  is chosen and when the system must stop. The return addresses are the \<open>DEPTH\<close> words of
  \<open>pcs\<close>, innermost first. What the handlers do to the kernel's structures besides is not
  part of these functions.
\<close>

section \<open>Functions of the kernel\<close>

datatype kfn =
    F_bfree | F_brelse | F_consoleintr | F_consoleread | F_consolewrite | F_exec
  | F_filealloc | F_fileclose | F_dirlink | F_idup | F_iput | F_iupdate | F_readsb
  | F_writei | F_fsinit | F_kalloc | F_kfree | F_begin_op | F_end_op | F_log_write
  | F_write_head | F_write_log | F_commit | F_install_trans | F_pipealloc | F_pipeclose
  | F_pipewrite | F_piperead | F_printf | F_panic | F_allocproc | F_exit | F_fork
  | F_freeproc | F_procinit | F_acquiresleep | F_acquire | F_holding | F_release
  | F_sys_read | F_sys_write | F_sys_close | F_sys_fstat | F_sys_link | F_sys_unlink
  | F_create | F_sys_open | F_sys_chdir | F_sys_exec | F_sys_pipe | F_sys_sbrk
  | F_clockintr | F_kerneltrap | F_usertrap | F_devintr | F_kernelvec | F_nmivec
  | F_kvminit | F_uvmunmap | F_uvmalloc | F_uvmcopy | F_virtio_disk_intr

text \<open>Lengths of the functions' code; where a function starts is up to the linker.\<close>

fun fn_len :: "kfn \<Rightarrow> nat" where
  "fn_len F_bfree = 120"
| "fn_len F_brelse = 276"
| "fn_len F_consoleintr = 412"
| "fn_len F_consoleread = 262"
| "fn_len F_consolewrite = 158"
| "fn_len F_exec = 898"
| "fn_len F_filealloc = 140"
| "fn_len F_fileclose = 314"
| "fn_len F_dirlink = 190"
| "fn_len F_idup = 64"
| "fn_len F_iput = 182"
| "fn_len F_iupdate = 138"
| "fn_len F_readsb = 64"
| "fn_len F_writei = 280"
| "fn_len F_fsinit = 90"
| "fn_len F_kalloc = 286"
| "fn_len F_kfree = 238"
| "fn_len F_begin_op = 322"
| "fn_len F_end_op = 282"
| "fn_len F_log_write = 372"
| "fn_len F_write_head = 386"
| "fn_len F_write_log = 204"
| "fn_len F_commit = 138"
| "fn_len F_install_trans = 410"
| "fn_len F_pipealloc = 312"
| "fn_len F_pipeclose = 146"
| "fn_len F_pipewrite = 268"
| "fn_len F_piperead = 234"
| "fn_len F_printf = 472"
| "fn_len F_panic = 76"
| "fn_len F_allocproc = 222"
| "fn_len F_exit = 262"
| "fn_len F_fork = 268"
| "fn_len F_freeproc = 96"
| "fn_len F_procinit = 204"
| "fn_len F_acquiresleep = 84"
| "fn_len F_acquire = 136"
| "fn_len F_holding = 47"
| "fn_len F_release = 65"
| "fn_len F_sys_read = 134"
| "fn_len F_sys_write = 152"
| "fn_len F_sys_close = 126"
| "fn_len F_sys_fstat = 112"
| "fn_len F_sys_link = 390"
| "fn_len F_sys_unlink = 464"
| "fn_len F_create = 356"
| "fn_len F_sys_open = 376"
| "fn_len F_sys_chdir = 168"
| "fn_len F_sys_exec = 296"
| "fn_len F_sys_pipe = 430"
| "fn_len F_sys_sbrk = 70"
| "fn_len F_clockintr = 68"
| "fn_len F_kerneltrap = 310"
| "fn_len F_usertrap = 254"
| "fn_len F_devintr = 162"
| "fn_len F_kernelvec = 142"
| "fn_len F_nmivec = 142"
| "fn_len F_kvminit = 208"
| "fn_len F_uvmunmap = 206"
| "fn_len F_uvmalloc = 422"
| "fn_len F_uvmcopy = 430"
| "fn_len F_virtio_disk_intr = 208"

record env =
  lay :: "kfn \<Rightarrow> u64"          \<comment> \<open>start addresses\<close>
  conservative :: bool          \<comment> \<open>\<open>recovery_mode == CONSERVATIVE\<close>\<close>
  coop :: int                   \<comment> \<open>\<open>is_enable_user_coop(pid)\<close>: 1, 0, or -1 for no such process\<close>

definition inside :: "env \<Rightarrow> u64 \<Rightarrow> kfn \<Rightarrow> bool" where
  "inside E pc f \<longleftrightarrow> lay E f \<le> pc \<and> pc \<le> lay E f + of_nat (fn_len f)"

definition inside_any :: "env \<Rightarrow> u64 \<Rightarrow> kfn list \<Rightarrow> bool" where
  "inside_any E pc fs \<longleftrightarrow> list_ex (inside E pc) fs"

definition redo_or_fail :: "env \<Rightarrow> int" where
  "redo_or_fail E = (if coop E \<noteq> 0 then SYSCALL_REDO else SYSCALL_FAIL)"

abbreviation USERTRAP :: int where "USERTRAP \<equiv> 1"
abbreviation KERNELTRAP :: int where "KERNELTRAP \<equiv> 2"

text \<open>Where the trap came from: the first trap handler below the trap vector.\<close>

fun identify_trap :: "env \<Rightarrow> bool \<Rightarrow> u64 list \<Rightarrow> int" where
  "identify_trap E vec [] = 0"
| "identify_trap E vec (pc # pcs) =
     (if inside E pc F_kernelvec \<or> inside E pc F_nmivec then identify_trap E True pcs
      else if vec \<and> inside E pc F_usertrap then USERTRAP
      else if vec \<and> inside E pc F_kerneltrap then KERNELTRAP
      else identify_trap E vec pcs)"

section \<open>Buffers\<close>

definition buf_write_path :: "kfn list" where
  "buf_write_path =
     [F_bfree, F_dirlink, F_iput, F_log_write, F_sys_link, F_sys_write, F_write_log]"

fun buf_treat :: "env \<Rightarrow> int \<Rightarrow> int \<Rightarrow> u64 list \<Rightarrow> int" where
  "buf_treat E trap ret [] = ret"
| "buf_treat E trap ret (pc # pcs) =
     (if inside E pc F_exit then PROCESS_KILL
      else if inside_any E pc buf_write_path then buf_treat E trap SYSCALL_FAIL pcs
      else if inside E pc F_virtio_disk_intr then
        (if trap = USERTRAP then RETURN_TO_USER
         else if trap = KERNELTRAP then RETURN_TO_KERNEL else buf_treat E trap ret pcs)
      else if conservative E \<and> inside E pc F_sys_close then SYSCALL_SUCCESS
      else if inside E pc F_install_trans \<or> inside E pc F_write_head then
        buf_treat E trap (if coop E \<noteq> 0 then SYSCALL_SUCCESS else SYSCALL_FAIL) pcs
      else buf_treat E trap ret pcs)"

definition after_treatment_buf :: "env \<Rightarrow> u64 list \<Rightarrow> int" where
  "after_treatment_buf E pcs = buf_treat E (identify_trap E False pcs) (redo_or_fail E) pcs"

fun buf_stop :: "env \<Rightarrow> bool \<Rightarrow> bool \<Rightarrow> u64 list \<Rightarrow> bool" where
  "buf_stop E chdir endop [] \<longleftrightarrow> chdir \<and> endop"
| "buf_stop E chdir endop (pc # pcs) \<longleftrightarrow>
     (if inside_any E pc [F_brelse, F_readsb, F_fsinit] then True
      else if conservative E \<and> inside_any E pc buf_write_path then True
      else let c = inside E pc F_sys_chdir in
        buf_stop E (chdir \<or> c) (endop \<or> (\<not> c \<and> inside E pc F_end_op)) pcs)"

definition check_fail_stop_cases_buf :: "env \<Rightarrow> u64 list \<Rightarrow> bool" where
  "check_fail_stop_cases_buf E pcs = buf_stop E False False pcs"

text \<open>
  The handler's answer; \<open>full\<close>: no page could be allocated, \<open>others\<close>: another process
  is in the section of the broken buffer.
\<close>

definition decide_buf :: "env \<Rightarrow> bool \<Rightarrow> bool \<Rightarrow> u64 list \<Rightarrow> int" where
  "decide_buf E full others pcs =
     (if check_fail_stop_cases_buf E pcs \<or> full then FAIL_STOP
      else if others then FAIL_STOP else after_treatment_buf E pcs)"

section \<open>Files\<close>

fun check_fail_stop_file :: "env \<Rightarrow> u64 list \<Rightarrow> bool" where
  "check_fail_stop_file E [] \<longleftrightarrow> False"
| "check_fail_stop_file E (pc # pcs) \<longleftrightarrow>
     inside E pc F_sys_open \<or>
     (conservative E \<and> inside_any E pc [F_fork, F_pipealloc, F_sys_write]) \<or>
     check_fail_stop_file E pcs"

fun file_treat :: "env \<Rightarrow> int \<Rightarrow> u64 list \<Rightarrow> int" where
  "file_treat E ret [] = ret"
| "file_treat E ret (pc # pcs) =
     (if inside E pc F_sys_close then file_treat E SYSCALL_SUCCESS pcs
      else if inside E pc F_exit then PROCESS_KILL
      else if coop E = 1 \<and> inside E pc F_sys_write then file_treat E REOPEN_SYSCALL_FAIL pcs
      else file_treat E ret pcs)"

definition after_treatment_file :: "env \<Rightarrow> bool \<Rightarrow> u64 list \<Rightarrow> int" where
  "after_treatment_file E pipe pcs =
     file_treat E (if pipe then SYSCALL_FAIL
                   else if coop E = 1 then REOPEN_SYSCALL_REDO else SYSCALL_FAIL) pcs"

text \<open>\<open>lost\<close>: the address is no file of the table; \<open>others\<close>: the section is in use.\<close>

definition decide_file :: "env \<Rightarrow> bool \<Rightarrow> bool \<Rightarrow> bool \<Rightarrow> u64 list \<Rightarrow> int" where
  "decide_file E lost others pipe pcs =
     (if check_fail_stop_file E pcs then FAIL_STOP
      else if lost then -1 else if others then FAIL_STOP else after_treatment_file E pipe pcs)"

section \<open>Inodes\<close>

abbreviation T_DEVICE :: int where "T_DEVICE \<equiv> 3"
abbreviation ROOTINO :: int where "ROOTINO \<equiv> 1"

text \<open>The scan of the other inodes (type and number) for a device and the root.\<close>

fun icache_scan :: "bool \<Rightarrow> bool \<Rightarrow> (int \<times> int) list \<Rightarrow> bool \<times> bool" where
  "icache_scan dev root [] = (dev, root)"
| "icache_scan dev root ((ty, inum) # is) =
     (if ty = T_DEVICE then icache_scan True root is
      else if inum = ROOTINO then icache_scan dev True is else icache_scan dev root is)"

definition check_fail_stop_inode :: "env \<Rightarrow> (int \<times> int) list \<Rightarrow> u64 list \<Rightarrow> bool" where
  "check_fail_stop_inode E others pcs \<longleftrightarrow>
     (conservative E \<and> list_ex (\<lambda>pc. inside_any E pc [F_create, F_idup, F_iput, F_iupdate, F_sys_link,
        F_sys_open, F_sys_unlink, F_writei]) pcs) \<or>
     (let (dev, root) = icache_scan False False others in \<not> dev \<or> \<not> root)"

fun inode_treat :: "env \<Rightarrow> bool \<Rightarrow> int \<Rightarrow> u64 list \<Rightarrow> int" where
  "inode_treat E fp ret [] = ret"
| "inode_treat E fp ret (pc # pcs) =
     (if inside E pc F_sys_close then inode_treat E fp SYSCALL_SUCCESS pcs
      else if inside E pc F_sys_unlink then
        inode_treat E fp (if coop E \<noteq> 0 then (if fp then REOPEN_SYSCALL_REDO else SYSCALL_REDO) else ret) pcs
      else if inside_any E pc [F_sys_chdir, F_sys_fstat, F_sys_link, F_sys_read] then
        inode_treat E fp (if coop E = 1 then REOPEN_SYSCALL_REDO else SYSCALL_FAIL) pcs
      else if inside E pc F_idup then PROCESS_KILL
      else inode_treat E fp ret pcs)"

definition after_treatment_inode :: "env \<Rightarrow> bool \<Rightarrow> u64 list \<Rightarrow> int" where
  "after_treatment_inode E fp pcs =
     inode_treat E fp (if coop E = 1 then SYSCALL_REDO else SYSCALL_FAIL) pcs"

definition decide_inode :: "env \<Rightarrow> (int \<times> int) list \<Rightarrow> bool \<Rightarrow> bool \<Rightarrow> u64 list \<Rightarrow> int" where
  "decide_inode E icache others fp pcs =
     (if check_fail_stop_inode E icache pcs then FAIL_STOP
      else if others then FAIL_STOP else after_treatment_inode E fp pcs)"

section \<open>The log\<close>

record log_flags =
  is_chdir :: bool
  is_begin_op :: bool
  is_end_op :: bool
  is_log_write :: bool

text \<open>\<open>None\<close>: the loop returned \<open>FAIL_STOP\<close>.\<close>

fun log_scan :: "env \<Rightarrow> log_flags \<Rightarrow> u64 list \<Rightarrow> log_flags option" where
  "log_scan E F [] = Some F"
| "log_scan E F (pc # pcs) =
     (if inside E pc F_log_write \<and> conservative E then None
      else if \<not> inside E pc F_log_write \<and> \<not> inside E pc F_begin_op \<and> \<not> inside E pc F_end_op \<and>
        \<not> inside E pc F_sys_chdir \<and> inside E pc F_end_op \<and> is_chdir F then None
      else let F' = (if inside E pc F_log_write then F\<lparr>is_log_write := True\<rparr>
                     else if inside E pc F_begin_op then F\<lparr>is_begin_op := True\<rparr>
                     else if inside E pc F_end_op then F\<lparr>is_end_op := True\<rparr>
                     else if inside E pc F_sys_chdir then F\<lparr>is_chdir := True\<rparr> else F) in
        if conservative E \<and> (inside E pc F_create \<or> (inside E pc F_fileclose \<and> is_begin_op F') \<or>
          inside E pc F_sys_write) then None
        else log_scan E F' pcs)"

abbreviation no_log_flags :: log_flags where
  "no_log_flags \<equiv> \<lparr>is_chdir = False, is_begin_op = False, is_end_op = False, is_log_write = False\<rparr>"

definition after_treatment_log :: "env \<Rightarrow> u64 list \<Rightarrow> int" where
  "after_treatment_log E pcs =
     (if list_ex (\<lambda>pc. inside E pc F_exit) pcs then PROCESS_KILL
      else if coop E = 1 then SYSCALL_REDO else SYSCALL_FAIL)"

definition decide_log :: "env \<Rightarrow> bool \<Rightarrow> u64 list \<Rightarrow> int" where
  "decide_log E others pcs = (case log_scan E no_log_flags pcs of
       None \<Rightarrow> FAIL_STOP
     | Some _ \<Rightarrow> if others then FAIL_STOP else after_treatment_log E pcs)"

section \<open>Pipes, console, printing lock, device switch\<close>

fun pipe_treat :: "env \<Rightarrow> int \<Rightarrow> u64 list \<Rightarrow> int" where
  "pipe_treat E ret [] = ret"
| "pipe_treat E ret (pc # pcs) =
     pipe_treat E (if inside E pc F_exit then PROCESS_KILL
                   else if inside E pc F_sys_close then SYSCALL_SUCCESS
                   else if coop E \<noteq> 0 \<and> inside E pc F_sys_pipe then SYSCALL_REDO else ret) pcs"

definition after_treatment_pipe :: "env \<Rightarrow> u64 list \<Rightarrow> int" where
  "after_treatment_pipe E pcs = pipe_treat E SYSCALL_FAIL pcs"

definition decide_pipe :: "env \<Rightarrow> bool \<Rightarrow> u64 list \<Rightarrow> int" where
  "decide_pipe E others pcs = (if others then FAIL_STOP else after_treatment_pipe E pcs)"

definition from_trap :: "int \<Rightarrow> int \<Rightarrow> int" where
  "from_trap trap ret = (if trap = USERTRAP then RETURN_TO_USER
     else if trap = KERNELTRAP then RETURN_TO_KERNEL else ret)"

fun cons_treat :: "env \<Rightarrow> int \<Rightarrow> int \<Rightarrow> u64 list \<Rightarrow> int" where
  "cons_treat E trap ret [] = ret"
| "cons_treat E trap ret (pc # pcs) =
     cons_treat E trap (if inside E pc F_consoleintr then from_trap trap ret else ret) pcs"

definition after_treatment_cons :: "env \<Rightarrow> u64 list \<Rightarrow> int" where
  "after_treatment_cons E pcs = cons_treat E (identify_trap E False pcs)
     (if coop E = 1 then SYSCALL_REDO else SYSCALL_FAIL) pcs"

definition decide_cons :: "env \<Rightarrow> bool \<Rightarrow> bool \<Rightarrow> u64 list \<Rightarrow> int" where
  "decide_cons E others full pcs = (if others \<or> full then FAIL_STOP else after_treatment_cons E pcs)"

definition decide_devsw :: "bool \<Rightarrow> int" where
  "decide_devsw full = (if full then -1 else SYSCALL_FAIL)"

fun pr_treat :: "env \<Rightarrow> int \<Rightarrow> int \<Rightarrow> u64 list \<Rightarrow> int" where
  "pr_treat E trap ret [] = ret"
| "pr_treat E trap ret (pc # pcs) =
     pr_treat E trap (if inside E pc F_panic then FAIL_STOP
       else if inside E pc F_consoleintr then from_trap trap ret else ret) pcs"

definition after_treatment_pr :: "env \<Rightarrow> u64 list \<Rightarrow> int" where
  "after_treatment_pr E pcs = pr_treat E (identify_trap E False pcs) PROCESS_KILL pcs"

definition decide_pr :: "env \<Rightarrow> bool \<Rightarrow> bool \<Rightarrow> u64 list \<Rightarrow> int" where
  "decide_pr E others full pcs =
     (if others then FAIL_STOP else if full then -1 else after_treatment_pr E pcs)"

section \<open>Locks\<close>

fun ticks_treat :: "env \<Rightarrow> int \<Rightarrow> u64 list \<Rightarrow> int" where
  "ticks_treat E trap [] = (if coop E = 1 then SYSCALL_REDO else SYSCALL_FAIL)"
| "ticks_treat E trap (pc # pcs) =
     (if inside E pc F_clockintr \<and> trap = USERTRAP then RETURN_TO_USER
      else if inside E pc F_clockintr \<and> trap = KERNELTRAP then RETURN_TO_KERNEL
      else ticks_treat E trap pcs)"

definition decide_ticks :: "env \<Rightarrow> bool \<Rightarrow> u64 list \<Rightarrow> int" where
  "decide_ticks E full pcs =
     (if full then FAIL_STOP else ticks_treat E (identify_trap E False pcs) pcs)"

definition decide_pid_lock :: "env \<Rightarrow> bool \<Rightarrow> int" where
  "decide_pid_lock E full =
     (if full then FAIL_STOP else if coop E = 1 then SYSCALL_REDO else SYSCALL_FAIL)"

section \<open>The page allocator\<close>

fun mm_treat :: "env \<Rightarrow> int \<Rightarrow> u64 list \<Rightarrow> int" where
  "mm_treat E ret [] = ret"
| "mm_treat E ret (pc # pcs) =
     (if inside_any E pc [F_freeproc, F_kvminit, F_procinit, F_uvmunmap] then FAIL_STOP
      else if conservative E \<and> inside_any E pc [F_sys_exec, F_uvmalloc, F_uvmcopy] then FAIL_STOP
      else let ret = (if inside_any E pc [F_exit, F_uvmalloc] then PROCESS_KILL else ret);
               ret = (if inside E pc F_sys_close then SYSCALL_SUCCESS else ret)
           in mm_treat E ret pcs)"

text \<open>\<open>tr\<close>: the answer of \<open>check_and_handle_trans_pagetable\<close>.\<close>

definition decide_mm :: "env \<Rightarrow> int \<Rightarrow> u64 list \<Rightarrow> int" where
  "decide_mm E tr pcs = (let ret = mm_treat E (redo_or_fail E) pcs in
     if ret \<noteq> FAIL_STOP \<and> tr > 0 \<and> ret = SYSCALL_FAIL then PROCESS_KILL else ret)"

section \<open>Page tables\<close>

fun check_all_fail_stop_cases :: "env \<Rightarrow> int \<Rightarrow> u64 list \<Rightarrow> int" where
  "check_all_fail_stop_cases E ret [] = ret"
| "check_all_fail_stop_cases E ret (pc # pcs) =
     (if inside_any E pc [F_freeproc, F_uvmunmap] then FAIL_STOP
      else if conservative E \<and> inside_any E pc [F_uvmalloc, F_uvmcopy, F_sys_write] then FAIL_STOP
      else if inside E pc F_uvmalloc then PROCESS_KILL
      else check_all_fail_stop_cases E ret pcs)"

text \<open>\<open>Trap\<close>: the trap vector in the last entry makes the code read one past the array.\<close>

fun ptb_treat :: "env \<Rightarrow> int \<Rightarrow> int \<Rightarrow> u64 list \<Rightarrow> int res" where
  "ptb_treat E trap ret [] = Inr ret"
| "ptb_treat E trap ret (pc # pcs) =
     (if inside_any E pc [F_consoleintr, F_clockintr] then
        (if trap = USERTRAP then Inr PROCESS_KILL
         else if trap = KERNELTRAP \<and> ret \<ge> SYSCALL_FAIL then Inr RETURN_TO_KERNEL
         else ptb_treat E trap ret pcs)
      else if inside E pc F_virtio_disk_intr then
        (if trap = USERTRAP then Inr PROCESS_KILL
         else if trap = KERNELTRAP then Inr FAIL_STOP else ptb_treat E trap ret pcs)
      else if inside_any E pc [F_kernelvec, F_nmivec] then
        (case pcs of [] \<Rightarrow> Inl Trap
         | pc' # _ \<Rightarrow> if inside E pc' F_kerneltrap then Inr FAIL_STOP else ptb_treat E trap ret pcs)
      else ptb_treat E trap ret pcs)"

definition after_treatment_user_pagetable :: "env \<Rightarrow> int \<Rightarrow> u64 list \<Rightarrow> int res" where
  "after_treatment_user_pagetable E ret pcs =
     (if ret = FAIL_STOP then Inr ret else ptb_treat E (identify_trap E False pcs) ret pcs)"

section \<open>Errors of hardware interrupts in an old section\<close>

fun scan_function_call_history :: "env \<Rightarrow> bool \<Rightarrow> bool \<Rightarrow> u64 list \<Rightarrow> bool" where
  "scan_function_call_history E chdir endop [] \<longleftrightarrow> True"
| "scan_function_call_history E chdir endop (pc # pcs) \<longleftrightarrow>
     (let endop = (endop \<or> inside E pc F_end_op);
          chdir = (chdir \<or> (\<not> inside E pc F_end_op \<and> inside E pc F_sys_chdir)) in
      if chdir \<and> endop then False
      else if inside_any E pc [F_brelse, F_freeproc, F_kvminit, F_procinit, F_sys_open, F_uvmunmap] then False
      else scan_function_call_history E chdir endop pcs)"

end
