(* ===== verification/Tracker.thy ===== *)
theory Tracker
  imports Nmi Policy
begin

text \<open>
  \<open>kernel/mlist_tracker.c\<close>: finding the memory object a broken address belongs to, what the
  tracker does with the answer of that object's recovery handler, the list of objects recovered
  before, and the release of locks that the interrupted process left behind.
\<close>

section \<open>State\<close>

record recovered =
  rstart :: nat
  rend :: nat
  rterm :: int      \<comment> \<open>\<open>terminate_flag\<close>\<close>
  rec_pid :: nat
  rcs_flag :: int

abbreviation RECDEPTH :: nat where "RECDEPTH \<equiv> 30"

record trackstate = nmistate +
  recovered_list :: "nat \<Rightarrow> recovered"
  ftable_base :: nat        \<comment> \<open>the pointers \<open>ftable\<close> and \<open>icache\<close>\<close>
  icache_base :: nat
  aggressive :: bool
  tickslock_at :: nat
  pid_lock_at :: nat

section \<open>Searching the M-List\<close>

definition search_proc_from_pid :: "nat \<Rightarrow> 'a mach_scheme \<Rightarrow> nat option" where
  "search_proc_from_pid p s = first_idx (\<lambda>i. pid (procs s i) = p) NPROC"

definition search_cpu_from_pid :: "nat \<Rightarrow> 'a mach_scheme \<Rightarrow> nat option" where
  "search_cpu_from_pid p s =
     first_idx (\<lambda>c. case cproc s c of None \<Rightarrow> False | Some i \<Rightarrow> pid (procs s i) = p) NCPU"

text \<open>The walk along a list; it does not end on a list that never returns to its header.\<close>

partial_function (option) find_object :: "memory \<Rightarrow> nat \<Rightarrow> nat \<Rightarrow> nat \<Rightarrow> nat \<Rightarrow> nat option" where
  "find_object m h target sz n =
     (if n = h then Some 0
      else if m n \<le> target \<and> target < m n + sz then Some (m n)
      else find_object m h target sz (m (n + 8)))"

definition search_mlist :: "nat \<Rightarrow> mlkind \<Rightarrow> nat \<Rightarrow> 'a memstate_scheme \<Rightarrow> (nat \<times> 'a memstate_scheme) res" where
  "search_mlist target k sz s =
     bindE (acquire LkGiant s) (\<lambda>s.
     case find_object (mem s) (mhead s k) target sz (mem s (mhead s k + 8)) of
       None \<Rightarrow> Inl Blocked
     | Some r \<Rightarrow> bindE (release LkGiant s) (\<lambda>s. Inr (r, s)))"

section \<open>Objects recovered before\<close>

definition record_recovered_memobj ::
  "nat \<Rightarrow> nat \<Rightarrow> int \<Rightarrow> nat \<Rightarrow> int \<Rightarrow> 'a trackstate_scheme \<Rightarrow> 'a trackstate_scheme" where
  "record_recovered_memobj a e res p f s =
     (case first_idx (\<lambda>i. rstart (recovered_list s i) = 0 \<and> rend (recovered_list s i) = 0) RECDEPTH of
        None \<Rightarrow> s
      | Some i \<Rightarrow> s\<lparr>recovered_list := (recovered_list s)(i :=
          \<lparr>rstart = a, rend = e, rterm = res, rec_pid = p, rcs_flag = f\<rparr>)\<rparr>)"

definition search_recovered_addr :: "nat \<Rightarrow> 'a trackstate_scheme \<Rightarrow> int" where
  "search_recovered_addr broken s =
     (let target = broken mod 2 ^ 32 in
      case first_idx (\<lambda>i. rstart (recovered_list s i) \<le> target \<and> target \<le> rend (recovered_list s i)) RECDEPTH of
        None \<Rightarrow> -1 | Some i \<Rightarrow> rterm (recovered_list s i))"

text \<open>The flag of the last entry of the process.\<close>

definition recovered_flag :: "nat \<Rightarrow> 'a trackstate_scheme \<Rightarrow> int" where
  "recovered_flag p s =
     (case find (\<lambda>i. rec_pid (recovered_list s i) = p) (rev [0..<RECDEPTH]) of
        None \<Rightarrow> 0 | Some i \<Rightarrow> rcs_flag (recovered_list s i))"

definition is_in_old_rcs :: "nat \<Rightarrow> nat \<Rightarrow> 'a trackstate_scheme \<Rightarrow> bool res" where
  "is_in_old_rcs r m s = (let f = recovered_flag r s in
     if f = 0 then Inr False
     else bindE (search_rcs_history r f s) (\<lambda>a.
       if \<not> a then Inr False else search_rcs_history m f s))"

section \<open>The dispatch\<close>

datatype target = TKmem | TRun | TPtb | TPr | TBuf | TFile | TInode | TDevsw | TLog | TCons
  | TPipe | TLocks

text \<open>Where the tracker goes with the answer of a handler, and the interrupt it acknowledges.\<close>

datatype verdict = Recovered | RecoveredIntr | FailStop | Bad

definition plain_results :: "target \<Rightarrow> int list" where
  "plain_results t = (case t of
       TPr \<Rightarrow> [PROCESS_KILL]
     | TFile \<Rightarrow> [SYSCALL_FAIL, SYSCALL_SUCCESS, REOPEN_SYSCALL_FAIL, REOPEN_SYSCALL_REDO, PROCESS_KILL]
     | TInode \<Rightarrow> [SYSCALL_FAIL, SYSCALL_SUCCESS, SYSCALL_REDO, REOPEN_SYSCALL_FAIL,
                  REOPEN_SYSCALL_REDO, PROCESS_KILL]
     | TCons \<Rightarrow> [SYSCALL_FAIL, SYSCALL_REDO]
     | TLocks \<Rightarrow> [SYSCALL_FAIL, PROCESS_KILL, SYSCALL_REDO]
     | _ \<Rightarrow> [SYSCALL_FAIL, SYSCALL_SUCCESS, SYSCALL_REDO, PROCESS_KILL])"

definition intr_results :: "target \<Rightarrow> int list" where
  "intr_results t = (case t of
       TPtb \<Rightarrow> [RETURN_TO_KERNEL]
     | TPr \<Rightarrow> [RETURN_TO_USER, RETURN_TO_KERNEL]
     | TBuf \<Rightarrow> [RETURN_TO_USER, RETURN_TO_KERNEL]
     | TCons \<Rightarrow> [RETURN_TO_USER, RETURN_TO_KERNEL]
     | TLocks \<Rightarrow> [RETURN_TO_USER, RETURN_TO_KERNEL]
     | _ \<Rightarrow> [])"

definition verdict :: "target \<Rightarrow> int \<Rightarrow> verdict" where
  "verdict t res =
     (if res \<in> set (plain_results t) then Recovered
      else if res \<in> set (intr_results t) then RecoveredIntr
      else if res = FAIL_STOP then FailStop else Bad)"

text \<open>The interrupt number acknowledged on the way back (\<open>memlayout.h\<close>).\<close>

abbreviation UART0_IRQ :: int where "UART0_IRQ \<equiv> 10"
abbreviation VIRTIO0_IRQ :: int where "VIRTIO0_IRQ \<equiv> 1"

definition irq_of :: "target \<Rightarrow> int" where
  "irq_of t = (case t of TPr \<Rightarrow> UART0_IRQ | TBuf \<Rightarrow> VIRTIO0_IRQ | TCons \<Rightarrow> UART0_IRQ | _ \<Rightarrow> 0)"

text \<open>
  What is recorded for a recovered object at \<open>b\<close>: its range, with the size the tracker
  uses, and for the two tables the whole table and the section flag. A pipe is recorded as
  \<open>PIPE\<close>, a page table from the M-List entry (address, process and level bits).
\<close>

definition record_range :: "target \<Rightarrow> nat \<Rightarrow> 'a trackstate_scheme \<Rightarrow> nat \<times> nat" where
  "record_range t b s = (case t of
       TKmem \<Rightarrow> (b, b + 32) | TRun \<Rightarrow> (b, b + 8) | TPtb \<Rightarrow> (b, b + PGSIZE) | TPr \<Rightarrow> (b, b + 32)
     | TBuf \<Rightarrow> (b, b + 1120) | TFile \<Rightarrow> (ftable_base s, ftable_base s + 4024)
     | TInode \<Rightarrow> (icache_base s, icache_base s + 6824) | TDevsw \<Rightarrow> (b, b + 16) | TLog \<Rightarrow> (b, b + 168)
     | TCons \<Rightarrow> (b, b + 168) | TPipe \<Rightarrow> (b, b + 552) | TLocks \<Rightarrow> (b, b + 24))"

definition record_flag :: "target \<Rightarrow> int" where
  "record_flag t = (case t of TFile \<Rightarrow> RL_FTABLE | TInode \<Rightarrow> RL_ICACHE | _ \<Rightarrow> 0)"

definition record_result :: "target \<Rightarrow> int \<Rightarrow> int" where
  "record_result t res = (if t = TPipe then PIPE else res)"

text \<open>The recovery of one object after its handler answered \<open>res\<close>.\<close>

definition after_handler ::
  "target \<Rightarrow> nat \<Rightarrow> nat \<Rightarrow> int \<Rightarrow> 'a trackstate_scheme \<Rightarrow> (verdict \<times> int \<times> 'a trackstate_scheme)" where
  "after_handler t b p res s = (let v = verdict t res; (a, e) = record_range t b s in
     if v = Recovered \<or> v = RecoveredIntr
     then (v, if v = RecoveredIntr then irq_of t else 0,
           record_recovered_memobj a e (record_result t res) p (record_flag t) s)
     else (v, 0, s))"

text \<open>An address in no list: the answer recorded for it decides.\<close>

fun pipe_again :: "env \<Rightarrow> int \<Rightarrow> u64 list \<Rightarrow> int" where
  "pipe_again E ret [] = ret"
| "pipe_again E ret (pc # pcs) =
     pipe_again E (if lay E F_exit < pc \<and> pc < lay E F_exit + of_nat (fn_len F_exit)
                   then PROCESS_KILL else ret) pcs"

definition recovered_again ::
  "env \<Rightarrow> u64 list \<Rightarrow> nat \<Rightarrow> 'a trackstate_scheme \<Rightarrow> (verdict \<times> int \<times> 'a trackstate_scheme)" where
  "recovered_again E pcs broken s = (let r = search_recovered_addr broken s;
       res = (if r = PIPE then pipe_again E SYSCALL_FAIL pcs else r) in
     if r \<in> {PIPE, SYSCALL_FAIL, SYSCALL_SUCCESS, SYSCALL_REDO, PROCESS_KILL}
     then (Recovered, res, if outstanding (klog s) \<noteq> 0
           then s\<lparr>klog := (klog s)\<lparr>outstanding := outstanding (klog s) - 1\<rparr>\<rparr> else s)
     else (Bad, res, s))"

text \<open>
  The order of the searches with the sizes of the objects. The page-table list and its search
  are a parameter (\<open>ptb\<close>: the entry found, or 0) until that list is modelled.
\<close>

definition in_table :: "nat \<Rightarrow> nat \<Rightarrow> nat \<Rightarrow> bool" where
  "in_table base sz a \<longleftrightarrow> base \<le> a \<and> a < base + sz"

fun search_targets ::
  "nat \<Rightarrow> (target \<times> mlkind \<times> nat) list \<Rightarrow> 'a trackstate_scheme \<Rightarrow>
     ((target \<times> nat) option \<times> 'a trackstate_scheme) res" where
  "search_targets a [] s = Inr (None, s)"
| "search_targets a ((t, k, sz) # ts) s =
     (if (t = TFile \<and> \<not> in_table (ftable_base s) 4024 a) \<or> (t = TInode \<and> \<not> in_table (icache_base s) 6824 a)
      then search_targets a ts s
      else bindE (search_mlist a k sz s) (\<lambda>(b, s).
        if b \<noteq> 0 then Inr (Some (t, b), s) else search_targets a ts s))"

definition targets_before_ptb :: "(target \<times> mlkind \<times> nat) list" where
  "targets_before_ptb = [(TKmem, MLkmm, 32), (TRun, MLrun, 8)]"

definition targets_after_ptb :: "(target \<times> mlkind \<times> nat) list" where
  "targets_after_ptb = [(TPr, MLpr, 32), (TBuf, MLbuf, 1120), (TFile, MLfil, 40), (TInode, MLino, 136),
     (TDevsw, MLdev, 160), (TLog, MLlog, 168), (TCons, MLcon, 168), (TPipe, MLpip, 552),
     (TLocks, MLspn, 24)]"

section \<open>Locks left behind\<close>

definition cleanup_after_recovery :: "'a trackstate_scheme \<Rightarrow> 'a trackstate_scheme res" where
  "cleanup_after_recovery s = bindE (myproc s) (\<lambda>(mp, s). case mp of None \<Rightarrow> Inl Trap | Some p \<Rightarrow>
     bindE (check_and_acquire (LkProc p) (s\<lparr>fault_handler := FhTracker\<rparr>)) (\<lambda>s.
     bindE (check_and_release (LkProc p) (set_proc p (\<lambda>r. r\<lparr>pstate := RUNNING\<rparr>) s)) (\<lambda>s.
     bindE (acquire LkNmiQueue s) (\<lambda>s. release LkNmiQueue (s\<lparr>nmi_queue := None\<rparr>)))))"

end
