(* ===== verification/Decisions.thy ===== *)
theory Decisions
  imports Tracker
begin

text \<open>
  Which answers the recovery handlers can give and what the tracker does with them: every answer
  of a handler is one its branch of \<open>mlist_tracker\<close> expects, the conservative mode stops
  the system in more situations than the aggressive one, no system call is redone for a process
  that does not cooperate. The last section is about the list of recovered objects and the
  search of the M-List.
\<close>

section \<open>Ranges of the handlers' answers\<close>

lemma inside_conservative [simp]: "inside (E\<lparr>conservative := b\<rparr>) pc f = inside E pc f"
  "inside_any (E\<lparr>conservative := b\<rparr>) pc fs = inside_any E pc fs"
proof -
  show 1: "inside (E\<lparr>conservative := b\<rparr>) pc f = inside E pc f" for f by (simp add: inside_def)
  show "inside_any (E\<lparr>conservative := b\<rparr>) pc fs = inside_any E pc fs"
    by (induction fs) (simp_all add: inside_any_def 1)
qed

lemma buf_treat_range:
  "ret \<in> {SYSCALL_SUCCESS, SYSCALL_FAIL, SYSCALL_REDO} \<Longrightarrow>
   buf_treat E trap ret pcs \<in> {SYSCALL_SUCCESS, SYSCALL_FAIL, SYSCALL_REDO, PROCESS_KILL,
     RETURN_TO_USER, RETURN_TO_KERNEL}"
  by (induction E trap ret pcs rule: buf_treat.induct) (auto split: if_splits)

lemma file_treat_range:
  "ret \<in> {SYSCALL_SUCCESS, SYSCALL_FAIL, REOPEN_SYSCALL_FAIL, REOPEN_SYSCALL_REDO} \<Longrightarrow>
   file_treat E ret pcs \<in> {SYSCALL_SUCCESS, SYSCALL_FAIL, REOPEN_SYSCALL_FAIL, REOPEN_SYSCALL_REDO, PROCESS_KILL}"
  by (induction E ret pcs rule: file_treat.induct) (auto split: if_splits)

lemma inode_treat_range:
  "ret \<in> {SYSCALL_SUCCESS, SYSCALL_FAIL, SYSCALL_REDO, REOPEN_SYSCALL_REDO} \<Longrightarrow>
   inode_treat E fp ret pcs \<in> {SYSCALL_SUCCESS, SYSCALL_FAIL, SYSCALL_REDO, REOPEN_SYSCALL_REDO, PROCESS_KILL}"
  by (induction E fp ret pcs rule: inode_treat.induct) (auto split: if_splits)

lemma pipe_treat_range:
  "ret \<in> {SYSCALL_SUCCESS, SYSCALL_FAIL, SYSCALL_REDO, PROCESS_KILL} \<Longrightarrow>
   pipe_treat E ret pcs \<in> {SYSCALL_SUCCESS, SYSCALL_FAIL, SYSCALL_REDO, PROCESS_KILL}"
  by (induction E ret pcs rule: pipe_treat.induct) (auto split: if_splits)

lemma cons_treat_range:
  "ret \<in> {SYSCALL_FAIL, SYSCALL_REDO, RETURN_TO_USER, RETURN_TO_KERNEL} \<Longrightarrow>
   cons_treat E trap ret pcs \<in> {SYSCALL_FAIL, SYSCALL_REDO, RETURN_TO_USER, RETURN_TO_KERNEL}"
  by (induction E trap ret pcs rule: cons_treat.induct) (auto simp: from_trap_def split: if_splits)

lemma pr_treat_range:
  "ret \<in> {PROCESS_KILL, FAIL_STOP, RETURN_TO_USER, RETURN_TO_KERNEL} \<Longrightarrow>
   pr_treat E trap ret pcs \<in> {PROCESS_KILL, FAIL_STOP, RETURN_TO_USER, RETURN_TO_KERNEL}"
  by (induction E trap ret pcs rule: pr_treat.induct) (auto simp: from_trap_def split: if_splits)

lemma ticks_treat_range:
  "ticks_treat E trap pcs \<in> {SYSCALL_FAIL, SYSCALL_REDO, RETURN_TO_USER, RETURN_TO_KERNEL}"
  by (induction E trap pcs rule: ticks_treat.induct) auto

lemma mm_treat_range:
  "ret \<in> {SYSCALL_SUCCESS, SYSCALL_FAIL, SYSCALL_REDO, PROCESS_KILL, FAIL_STOP} \<Longrightarrow>
   mm_treat E ret pcs \<in> {SYSCALL_SUCCESS, SYSCALL_FAIL, SYSCALL_REDO, PROCESS_KILL, FAIL_STOP}"
  by (induction E ret pcs rule: mm_treat.induct) (auto simp: Let_def split: if_splits)

lemma ptb_treat_range:
  "ret \<in> {SYSCALL_FAIL, SYSCALL_REDO, PROCESS_KILL, FAIL_STOP} \<Longrightarrow> ptb_treat E trap ret pcs = Inr r \<Longrightarrow>
   r \<in> {SYSCALL_FAIL, SYSCALL_REDO, PROCESS_KILL, RETURN_TO_KERNEL, FAIL_STOP}"
  by (induction E trap ret pcs rule: ptb_treat.induct) (auto split: if_splits list.splits)

lemmas treat_ranges = buf_treat_range file_treat_range inode_treat_range pipe_treat_range
  cons_treat_range pr_treat_range ticks_treat_range mm_treat_range

lemmas decides = decide_buf_def decide_file_def decide_inode_def decide_log_def decide_pipe_def
  decide_cons_def decide_devsw_def decide_pr_def decide_ticks_def decide_pid_lock_def decide_mm_def
  after_treatment_buf_def after_treatment_file_def after_treatment_inode_def after_treatment_log_def
  after_treatment_pipe_def after_treatment_cons_def after_treatment_pr_def redo_or_fail_def

text \<open>The answers a handler can give for its kind of object.\<close>

definition answers :: "env \<Rightarrow> u64 list \<Rightarrow> target \<Rightarrow> int set" where
  "answers E pcs t = (case t of
       TKmem \<Rightarrow> {decide_mm E tr pcs |tr. True}
     | TRun \<Rightarrow> {decide_mm E tr pcs |tr. True}
     | TPtb \<Rightarrow> {r. \<exists>ret \<in> {SYSCALL_FAIL, SYSCALL_REDO, PROCESS_KILL, FAIL_STOP}.
         after_treatment_user_pagetable E ret pcs = Inr r}
     | TPr \<Rightarrow> {decide_pr E others False pcs |others. True}
     | TBuf \<Rightarrow> {decide_buf E full others pcs |full others. True}
     | TFile \<Rightarrow> {decide_file E False others pipe pcs |others pipe. True}
     | TInode \<Rightarrow> {decide_inode E ic others fp pcs |ic others fp. True}
     | TDevsw \<Rightarrow> {decide_devsw False}
     | TLog \<Rightarrow> {decide_log E others pcs |others. True}
     | TCons \<Rightarrow> {decide_cons E others full pcs |others full. True}
     | TPipe \<Rightarrow> {decide_pipe E others pcs |others. True}
     | TLocks \<Rightarrow> {decide_ticks E full pcs |full. True} \<union> {decide_pid_lock E full |full. True})"

definition allowed :: "target \<Rightarrow> int set" where
  "allowed t = insert FAIL_STOP (set (plain_results t) \<union> set (intr_results t))"

lemma answers_allowed: "r \<in> answers E pcs t \<Longrightarrow> r \<in> allowed t"
proof (cases t)
  case TBuf
  then show "r \<in> answers E pcs t \<Longrightarrow> r \<in> allowed t"
    using buf_treat_range [of "redo_or_fail E" E "identify_trap E False pcs" pcs]
    by (auto simp: answers_def allowed_def decides plain_results_def intr_results_def split: if_splits)
next
  case TFile
  then show "r \<in> answers E pcs t \<Longrightarrow> r \<in> allowed t"
    using file_treat_range [of _ E pcs]
    by (auto simp: answers_def allowed_def decides plain_results_def intr_results_def split: if_splits)
next
  case TInode
  then show "r \<in> answers E pcs t \<Longrightarrow> r \<in> allowed t"
    using inode_treat_range [of _ E _ pcs]
    by (auto simp: answers_def allowed_def decides plain_results_def intr_results_def split: if_splits)
next
  case TPipe
  then show "r \<in> answers E pcs t \<Longrightarrow> r \<in> allowed t"
    using pipe_treat_range [of SYSCALL_FAIL E pcs]
    by (auto simp: answers_def allowed_def decides plain_results_def intr_results_def split: if_splits)
next
  case TCons
  then show "r \<in> answers E pcs t \<Longrightarrow> r \<in> allowed t"
    using cons_treat_range [of _ E "identify_trap E False pcs" pcs]
    by (auto simp: answers_def allowed_def decides plain_results_def intr_results_def split: if_splits)
next
  case TPr
  then show "r \<in> answers E pcs t \<Longrightarrow> r \<in> allowed t"
    using pr_treat_range [of PROCESS_KILL E "identify_trap E False pcs" pcs]
    by (auto simp: answers_def allowed_def decides plain_results_def intr_results_def split: if_splits)
next
  case TKmem
  then show "r \<in> answers E pcs t \<Longrightarrow> r \<in> allowed t"
    using mm_treat_range [of "redo_or_fail E" E pcs]
    by (auto simp: answers_def allowed_def decides plain_results_def intr_results_def Let_def split: if_splits)
next
  case TRun
  then show "r \<in> answers E pcs t \<Longrightarrow> r \<in> allowed t"
    using mm_treat_range [of "redo_or_fail E" E pcs]
    by (auto simp: answers_def allowed_def decides plain_results_def intr_results_def Let_def split: if_splits)
next
  case TPtb
  then show "r \<in> answers E pcs t \<Longrightarrow> r \<in> allowed t"
    using ptb_treat_range [of _ E "identify_trap E False pcs" pcs r]
    by (auto simp: answers_def allowed_def after_treatment_user_pagetable_def plain_results_def
      intr_results_def split: if_splits)
next
  case TLog
  then show "r \<in> answers E pcs t \<Longrightarrow> r \<in> allowed t"
    by (auto simp: answers_def allowed_def decides plain_results_def intr_results_def
      split: if_splits option.splits)
next
  case TLocks
  then show "r \<in> answers E pcs t \<Longrightarrow> r \<in> allowed t"
    using ticks_treat_range [of E "identify_trap E False pcs" pcs]
    by (auto simp: answers_def allowed_def decides plain_results_def intr_results_def split: if_splits)
next
  case TDevsw
  then show "r \<in> answers E pcs t \<Longrightarrow> r \<in> allowed t"
    by (auto simp: answers_def allowed_def decides plain_results_def)
qed


section \<open>Redo only with cooperation\<close>

definition needs_coop :: "int set" where
  "needs_coop = {SYSCALL_REDO, REOPEN_SYSCALL_FAIL, REOPEN_SYSCALL_REDO}"

lemma buf_no_redo:
  "coop E = 0 \<Longrightarrow> ret \<notin> needs_coop \<Longrightarrow> buf_treat E trap ret pcs \<notin> needs_coop"
  by (induction E trap ret pcs rule: buf_treat.induct) (auto simp: needs_coop_def split: if_splits)

lemma file_no_redo: "coop E = 0 \<Longrightarrow> ret \<notin> needs_coop \<Longrightarrow> file_treat E ret pcs \<notin> needs_coop"
  by (induction E ret pcs rule: file_treat.induct) (auto simp: needs_coop_def split: if_splits)

lemma inode_no_redo: "coop E = 0 \<Longrightarrow> ret \<notin> needs_coop \<Longrightarrow> inode_treat E fp ret pcs \<notin> needs_coop"
  by (induction E fp ret pcs rule: inode_treat.induct) (auto simp: needs_coop_def split: if_splits)

lemma pipe_no_redo: "coop E = 0 \<Longrightarrow> ret \<notin> needs_coop \<Longrightarrow> pipe_treat E ret pcs \<notin> needs_coop"
  by (induction E ret pcs rule: pipe_treat.induct) (auto simp: needs_coop_def split: if_splits)

lemma cons_no_redo: "ret \<notin> needs_coop \<Longrightarrow> cons_treat E trap ret pcs \<notin> needs_coop"
  by (induction E trap ret pcs rule: cons_treat.induct) (auto simp: needs_coop_def from_trap_def)

lemma pr_no_redo: "ret \<notin> needs_coop \<Longrightarrow> pr_treat E trap ret pcs \<notin> needs_coop"
  by (induction E trap ret pcs rule: pr_treat.induct) (auto simp: needs_coop_def from_trap_def)

lemma ticks_no_redo: "coop E = 0 \<Longrightarrow> ticks_treat E trap pcs \<notin> needs_coop"
  by (induction E trap pcs rule: ticks_treat.induct) (auto simp: needs_coop_def)

lemma mm_no_redo: "ret \<notin> needs_coop \<Longrightarrow> mm_treat E ret pcs \<notin> needs_coop"
  by (induction E ret pcs rule: mm_treat.induct) (auto simp: needs_coop_def Let_def)

lemmas no_redo = buf_no_redo file_no_redo inode_no_redo pipe_no_redo cons_no_redo pr_no_redo
  ticks_no_redo mm_no_redo

text \<open>
  No handler except the one of page tables answers that the system call is to be redone or
  the file re-opened when the process does not take part in the user cooperation.
\<close>

text \<open>
  No handler except the one of page tables answers that the system call is to be redone or
  the file re-opened when the process does not take part in the user cooperation.
\<close>

text \<open>
  No handler except the one of page tables answers that the system call is to be redone or
  the file re-opened when the process does not take part in the user cooperation.
\<close>

theorem no_redo_without_cooperation:
  assumes "coop E = 0" and "t \<noteq> TPtb" and "r \<in> answers E pcs t"
  shows "r \<notin> {SYSCALL_REDO, REOPEN_SYSCALL_FAIL, REOPEN_SYSCALL_REDO}"
proof -
  have c: "SYSCALL_FAIL \<notin> needs_coop" "FAIL_STOP \<notin> needs_coop" "PROCESS_KILL \<notin> needs_coop"
    "SYSCALL_SUCCESS \<notin> needs_coop" "-1 \<notin> needs_coop" by (simp_all add: needs_coop_def)
  have "r \<notin> needs_coop"
    using assms c buf_no_redo [OF assms(1) c(1)] file_no_redo [OF assms(1) c(1)]
      inode_no_redo [OF assms(1) c(1)] pipe_no_redo [OF assms(1) c(1)] cons_no_redo [OF c(1)]
      pr_no_redo [OF c(3)] ticks_no_redo [OF assms(1)] mm_no_redo [OF c(1)]
    by (cases t) (auto simp: answers_def decides Let_def split: if_splits option.splits)
  then show ?thesis by (simp add: needs_coop_def)
qed

text \<open>Stopping.\<close>

lemma buf_stop_mono: "buf_stop E c d pcs \<Longrightarrow> buf_stop (E\<lparr>conservative := True\<rparr>) c d pcs"
  by (induction E c d pcs rule: buf_stop.induct) (auto simp: Let_def split: if_splits)

lemma file_stop_mono: "check_fail_stop_file E pcs \<Longrightarrow> check_fail_stop_file (E\<lparr>conservative := True\<rparr>) pcs"
  by (induction E pcs rule: check_fail_stop_file.induct) auto

lemma inode_stop_mono:
  "check_fail_stop_inode E ic pcs \<Longrightarrow> check_fail_stop_inode (E\<lparr>conservative := True\<rparr>) ic pcs"
  by (auto simp: check_fail_stop_inode_def)

lemma log_scan_aggressive: "\<not> conservative E \<Longrightarrow> log_scan E F pcs \<noteq> None"
  by (induction E F pcs rule: log_scan.induct) (auto simp: Let_def)

lemma mm_stop_mono:
  "\<not> conservative E \<Longrightarrow> mm_treat E ret pcs = FAIL_STOP \<Longrightarrow> ret \<noteq> FAIL_STOP \<Longrightarrow> ret' \<noteq> FAIL_STOP \<Longrightarrow>
   mm_treat (E\<lparr>conservative := True\<rparr>) ret' pcs = FAIL_STOP"
  by (induction E ret pcs arbitrary: ret' rule: mm_treat.induct) (auto simp: Let_def split: if_splits)

lemma ptb_stop_mono:
  "ret \<noteq> FAIL_STOP \<Longrightarrow> check_all_fail_stop_cases E ret pcs = FAIL_STOP \<Longrightarrow>
   check_all_fail_stop_cases (E\<lparr>conservative := True\<rparr>) ret pcs = FAIL_STOP"
  by (induction E ret pcs rule: check_all_fail_stop_cases.induct) (auto split: if_splits)

text \<open>The objects whose handler stops the system for a given stack.\<close>

definition stops :: "env \<Rightarrow> (int \<times> int) list \<Rightarrow> u64 list \<Rightarrow> target set" where
  "stops E ic pcs = {t. case t of
       TBuf \<Rightarrow> check_fail_stop_cases_buf E pcs
     | TFile \<Rightarrow> check_fail_stop_file E pcs
     | TInode \<Rightarrow> check_fail_stop_inode E ic pcs
     | TLog \<Rightarrow> log_scan E no_log_flags pcs = None
     | TPtb \<Rightarrow> check_all_fail_stop_cases E (redo_or_fail E) pcs = FAIL_STOP
     | TKmem \<Rightarrow> mm_treat E (redo_or_fail E) pcs = FAIL_STOP
     | TRun \<Rightarrow> mm_treat E (redo_or_fail E) pcs = FAIL_STOP
     | _ \<Rightarrow> False}"

text \<open>
  For one and the same stack, every object whose handler stops the system in the aggressive
  mode has it stopped in the conservative mode as well.
\<close>

text \<open>
  For one and the same stack, every object whose handler stops the system in the aggressive
  mode has it stopped in the conservative mode as well.
\<close>

text \<open>
  For one and the same stack, every object whose handler stops the system in the aggressive
  mode has it stopped in the conservative mode as well.
\<close>

text \<open>
  For one and the same stack, every object whose handler stops the system in the aggressive
  mode has it stopped in the conservative mode as well.
\<close>

theorem conservative_stops_more: "stops E ic pcs \<subseteq> stops (E\<lparr>conservative := True\<rparr>) ic pcs"
proof (cases "conservative E")
  case True
  then have "E\<lparr>conservative := True\<rparr> = E" by simp
  then show ?thesis by simp
next
  case False
  have r: "redo_or_fail E \<noteq> FAIL_STOP" "redo_or_fail (E\<lparr>conservative := True\<rparr>) = redo_or_fail E"
    by (simp_all add: redo_or_fail_def)
  show ?thesis
    unfolding stops_def
    using buf_stop_mono file_stop_mono inode_stop_mono log_scan_aggressive [OF False, of no_log_flags pcs]
      mm_stop_mono [OF False _ r(1) r(1)] ptb_stop_mono [OF r(1)]
    by (auto simp: check_fail_stop_cases_buf_def r(2) split: target.splits)
qed

theorem log_chdir_not_stopped:
  assumes "\<not> conservative E"
  shows "decide_log E False pcs \<noteq> FAIL_STOP"
  using log_scan_aggressive [OF assms] by (auto simp: decide_log_def after_treatment_log_def split: option.splits)

definition demo_env :: env where
  "demo_env = \<lparr>lay = (\<lambda>f. if f = F_sys_chdir then 0x80001000 else if f = F_end_op then 0x80002000
     else 0xF0000000), conservative = False, coop = 0\<rparr>"

theorem log_chdir_not_stopped_witness:
  "decide_log demo_env False [0x80002010, 0x80001010] \<noteq> FAIL_STOP \<and>
     inside demo_env 0x80002010 F_end_op \<and> inside demo_env 0x80001010 F_sys_chdir"
  using log_chdir_not_stopped [of demo_env]
  by (simp add: demo_env_def inside_def word_le_nat_alt)


theorem no_redo_without_cooperation_witness:
  "decide_buf demo_env False False [] \<notin> {SYSCALL_REDO, REOPEN_SYSCALL_FAIL, REOPEN_SYSCALL_REDO}"
  by (rule no_redo_without_cooperation [of demo_env TBuf _ "[]"])
    (auto simp: demo_env_def answers_def)

section \<open>Recovered objects\<close>

theorem recovered_error_answered:
  assumes "i < RECDEPTH" and "rstart (recovered_list s i) = 0" and "rend (recovered_list s i) = 0"
    and "\<forall>j < i. rstart (recovered_list s j) \<noteq> 0 \<and>
      \<not> (rstart (recovered_list s j) \<le> x \<and> x \<le> rend (recovered_list s j))"
    and "a \<le> x" and "x \<le> e" and "x < 2 ^ 32"
  shows "search_recovered_addr x (record_recovered_memobj a e res p f s) = res"
proof -
  have fr: "first_idx (\<lambda>i. rstart (recovered_list s i) = 0 \<and> rend (recovered_list s i) = 0) RECDEPTH = Some i"
    using assms(1-4) by (simp add: first_idx_Some)
  let ?s = "record_recovered_memobj a e res p f s"
  have rl: "recovered_list ?s = (recovered_list s)(i :=
      \<lparr>rstart = a, rend = e, rterm = res, rec_pid = p, rcs_flag = f\<rparr>)"
    by (simp add: record_recovered_memobj_def fr)
  have "first_idx (\<lambda>j. rstart (recovered_list ?s j) \<le> x \<and> x \<le> rend (recovered_list ?s j)) RECDEPTH = Some i"
    unfolding rl using assms by (auto simp: first_idx_Some)
  then show ?thesis using assms(7) by (simp add: search_recovered_addr_def rl)
qed

text \<open>A second error in a table whose recovery asked for a re-open.\<close>

definition boot_track :: "memory \<Rightarrow> nat \<Rightarrow> trackstate" where
  "boot_track m fl = nmistate.extend (memstate.extend (boot_mem m fl) (nmistate.fields NextFirst FhTracker))
     (trackstate.fields (\<lambda>_. \<lparr>rstart = 0, rend = 0, rterm = 0, rec_pid = 0, rcs_flag = 0\<rparr>)
        0x80300000 0x80310000 False 0x80040000 0x80040020)"

lemma boot_track_sel [simp]:
  "recovered_list (boot_track m fl) = (\<lambda>_. \<lparr>rstart = 0, rend = 0, rterm = 0, rec_pid = 0, rcs_flag = 0\<rparr>)"
  by (simp add: boot_track_def trackstate.defs nmistate.defs)

theorem recovered_error_answered_witness:
  "search_recovered_addr 0x80301000
     (record_recovered_memobj 0x80300000 0x80301100 SYSCALL_FAIL 4 RL_FTABLE (boot_track demo_mem 0)) = SYSCALL_FAIL"
  by (rule recovered_error_answered [of 0]) simp_all

text \<open>
  After a recovery that asked for a re-open, or that returned to an interrupted procedure, a
  second error in the old copy of the object is found in the list of recovered objects, and
  the tracker panics all the same.
\<close>

text \<open>
  After a recovery that asked for a re-open, or that returned to an interrupted procedure, a
  second error in the old copy of the object is found in the list of recovered objects, and
  the tracker panics all the same.
\<close>

text \<open>
  After a recovery that asked for a re-open, or that returned to an interrupted procedure, a
  second error in the old copy of the object is found in the list of recovered objects, and
  the tracker panics all the same.
\<close>

text \<open>
  After a recovery that asked for a re-open, or that returned to an interrupted procedure, a
  second error in the old copy of the object is found in the list of recovered objects, and
  the tracker panics all the same.
\<close>

text \<open>
  After a recovery that asked for a re-open, or that returned to an interrupted procedure, a
  second error in the old copy of the object is found in the list of recovered objects, and
  the tracker panics all the same.
\<close>

theorem reopened_table_error_panics:
  assumes "search_recovered_addr x s = r"
    and "r \<in> {REOPEN_SYSCALL_FAIL, REOPEN_SYSCALL_REDO, RETURN_TO_USER, RETURN_TO_KERNEL}"
  shows "recovered_again E pcs x s = (Bad, r, s)"
  using assms by (auto simp: recovered_again_def Let_def)

theorem reopened_table_error_panics_witness:
  "recovered_again demo_env [] 0x80301000 ((boot_track demo_mem 0)\<lparr>recovered_list := (\<lambda>_.
       \<lparr>rstart = 0x80300000, rend = 0x80301100, rterm = REOPEN_SYSCALL_REDO, rec_pid = 4, rcs_flag = RL_FTABLE\<rparr>)\<rparr>) =
     (Bad, REOPEN_SYSCALL_REDO, (boot_track demo_mem 0)\<lparr>recovered_list := (\<lambda>_.
       \<lparr>rstart = 0x80300000, rend = 0x80301100, rterm = REOPEN_SYSCALL_REDO, rec_pid = 4, rcs_flag = RL_FTABLE\<rparr>)\<rparr>)"
proof -
  have "first_idx (\<lambda>_. True) RECDEPTH = Some 0" by (simp add: first_idx_Some)
  then show ?thesis by (intro reopened_table_error_panics) (simp_all add: search_recovered_addr_def)
qed

text \<open>The walk of \<open>search_mlist\<close>.\<close>

lemma find_object_nodes:
  assumes "nodes m h b ns"
  shows "find_object m h x sz (m (b + 8)) =
    Some (case find (\<lambda>n. m n \<le> x \<and> x < m n + sz) ns of None \<Rightarrow> 0 | Some n \<Rightarrow> m n)"
  using assms
proof (induction ns arbitrary: b)
  case Nil
  then show ?case by (subst find_object.simps) simp
next
  case (Cons n ns)
  then show ?case by (subst find_object.simps) (simp)
qed

text \<open>
  On a well-formed M-List, \<open>search_mlist\<close> returns the first registered object whose
  bytes contain the address, or 0 when no registered object does, and leaves the giant lock
  free.
\<close>

text \<open>
  On a well-formed M-List, \<open>search_mlist\<close> returns the first registered object whose
  bytes contain the address, or 0 when no registered object does, and leaves the giant lock
  free.
\<close>

theorem search_mlist_exact:
  assumes "cpu_ok s" and "free_lock LkGiant s" and "nodes (mem s) (mhead s k) (mhead s k) ns"
  shows "search_mlist x k sz s =
    Inr (case find (\<lambda>a. a \<le> x \<and> x < a + sz) (objs (mhead s k) ns s) of None \<Rightarrow> 0 | Some a \<Rightarrow> a, saved s)"
proof -
  have "(case find (\<lambda>n. mem s n \<le> x \<and> x < mem s n + sz) ns of None \<Rightarrow> 0 | Some n \<Rightarrow> mem s n) =
    (case find (\<lambda>a. a \<le> x \<and> x < a + sz) (objs (mhead s k) ns s) of None \<Rightarrow> 0 | Some a \<Rightarrow> a)"
    by (induction ns) (auto simp: objs_def)
  then show ?thesis using assms find_object_nodes [OF assms(3), of x sz]
    by (simp add: search_mlist_def lock_simps)
qed

theorem search_mlist_exact_witness:
  "search_mlist 0x80202004 MLrun 8 (boot_mem demo_mem 0x80203000) =
     Inr (0x80202000, saved (boot_mem demo_mem 0x80203000))"
proof -
  have "nodes demo_mem 0x80100000 0x80100000 [0x80100030, 0x80100020, 0x80100010]"
    using demo_registry by (simp add: registry_def mlist_at_def)
  then show ?thesis
    using search_mlist_exact [OF boot_mem_ok(1) boot_mem_ok(2), of demo_mem "0x80203000" MLrun
      "[0x80100030, 0x80100020, 0x80100010]" "0x80202004" 8] by (simp add: objs_def demo_mem_def)
qed

end
