(* ===== verification/PteBits.thy ===== *)
theory PteBits
  imports Prelude
begin

text \<open>
  The packing of page-table data into 64-bit words: page-table entries (\<open>kernel/riscv.h\<close>),
  the duplicates of leaf entries (\<open>kernel/ptdup.h\<close>: PTDS for a run of pages, PTED for one
  page) and the entries of the page-table list (\<open>kernel/mlist.h\<close>); with the round trips of
  the encodings.
\<close>

unbundle bit_operations_syntax

section \<open>Page-table entries\<close>

abbreviation PTE_V :: u64 where "PTE_V \<equiv> 1"
abbreviation PTE_R :: u64 where "PTE_R \<equiv> 2"
abbreviation PTE_W :: u64 where "PTE_W \<equiv> 4"
abbreviation PTE_X :: u64 where "PTE_X \<equiv> 8"
abbreviation PTE_U :: u64 where "PTE_U \<equiv> 16"
abbreviation PTE_D :: u64 where "PTE_D \<equiv> 128"

definition pa2pte :: "u64 \<Rightarrow> u64" where "pa2pte pa = push_bit 10 (drop_bit 12 pa)"
definition pte2pa :: "u64 \<Rightarrow> u64" where "pte2pa pte = push_bit 12 (drop_bit 10 pte)"
definition pte_flags :: "u64 \<Rightarrow> u64" where "pte_flags pte = pte AND 0x3FF"
definition px :: "nat \<Rightarrow> u64 \<Rightarrow> nat" where "px level va = unat (drop_bit (12 + 9 * level) va AND 0x1FF)"
definition pgrounddown :: "u64 \<Rightarrow> u64" where "pgrounddown a = a AND NOT 0xFFF"

section \<open>Duplicates of leaf entries\<close>

definition ptds2va :: "u64 \<Rightarrow> u64" where "ptds2va e = drop_bit 26 e AND NOT 0xFFF"
definition va2ptds :: "u64 \<Rightarrow> u64" where "va2ptds va = push_bit 26 va"
definition ptds2ppn :: "u64 \<Rightarrow> u64" where "ptds2ppn e = drop_bit 2 (e AND 0x3FFFFFF800)"
definition ppn2ptds :: "u64 \<Rightarrow> u64" where "ppn2ptds ppn = push_bit 2 (ppn AND NOT 0x3FF)"
definition ub2ptds :: "u64 \<Rightarrow> u64" where "ub2ptds perm = push_bit 5 (perm AND 0x10)"
definition ptds2ub :: "u64 \<Rightarrow> u64" where "ptds2ub e = drop_bit 5 e AND 0x10"
definition ptds2size :: "u64 \<Rightarrow> u64" where "ptds2size e = e AND 0x1FF"
definition order2ptds :: "u64 \<Rightarrow> u64" where "order2ptds ord = push_bit 10 ord"
definition ptds2order :: "u64 \<Rightarrow> u64" where "ptds2order e = drop_bit 10 e AND 1"
definition pted2flags :: "u64 \<Rightarrow> u64" where "pted2flags e = e AND 0x1FF"

section \<open>Entries of the page-table list\<close>

definition pid2mlnode :: "u64 \<Rightarrow> u64" where "pid2mlnode p = push_bit 2 p"
definition mlnode2pa :: "u64 \<Rightarrow> u64" where "mlnode2pa n = n AND NOT 0xFFF"
definition mlnode2pid :: "u64 \<Rightarrow> u64" where "mlnode2pid n = drop_bit 2 (n AND 0xFFD)"
definition mlnode2level :: "u64 \<Rightarrow> u64" where "mlnode2level n = n AND 3"

section \<open>Round trips\<close>

lemmas mask_bits = bit_and_iff bit_or_iff bit_not_iff bit_push_bit_iff bit_drop_bit_eq o_apply bit_mask_iff
  bit_take_bit_iff possible_bit_word

lemma masks:
  "(0xFFF :: u64) = mask 12" "(0x3FF :: u64) = mask 10" "(0x1FF :: u64) = mask 9" "(3 :: u64) = mask 2"
  "(0x10 :: u64) = push_bit 4 1" "(0x3FFFFFF800 :: u64) = push_bit 11 (mask 27)"
  "(0xFFD :: u64) = mask 12 AND NOT 2"
  by (simp_all add: mask_eq_exp_minus_1 push_bit_eq_mult)

lemma const_bits:
  "bit (0xFFF :: u64) i \<longleftrightarrow> i < 12" "bit (0x3FF :: u64) i \<longleftrightarrow> i < 10" "bit (0x1FF :: u64) i \<longleftrightarrow> i < 9"
  "bit (3 :: u64) i \<longleftrightarrow> i < 2" "bit (1 :: u64) i \<longleftrightarrow> i = 0" "bit (2 :: u64) i \<longleftrightarrow> i = 1"
  "bit (0x10 :: u64) i \<longleftrightarrow> i = 4"
  "bit (0x3FFFFFF800 :: u64) i \<longleftrightarrow> 11 \<le> i \<and> i < 38" "bit (0xFFD :: u64) i \<longleftrightarrow> i < 12 \<and> i \<noteq> 1"
  "bit (- 4096 :: u64) i \<longleftrightarrow> 12 \<le> i \<and> i < 64" "bit (- 1024 :: u64) i \<longleftrightarrow> 10 \<le> i \<and> i < 64"
proof -
  show 2: "bit (2 :: u64) i \<longleftrightarrow> i = 1" for i
    using bit_push_bit_iff [of 1 "1 :: u64" i] by (auto simp: bit_1_iff possible_bit_def)
  show "bit (1 :: u64) i \<longleftrightarrow> i = 0" by (simp add: bit_1_iff)
  show m: "bit (0xFFF :: u64) i \<longleftrightarrow> i < 12" "bit (0x3FF :: u64) i \<longleftrightarrow> i < 10" "bit (0x1FF :: u64) i \<longleftrightarrow> i < 9"
    "bit (3 :: u64) i \<longleftrightarrow> i < 2"
    unfolding masks by (auto simp: bit_mask_iff possible_bit_def)
  show "bit (0x10 :: u64) i \<longleftrightarrow> i = 4"
    using bit_push_bit_iff [of 4 "1 :: u64" i] by (auto simp: bit_1_iff possible_bit_def)
  show "bit (0x3FFFFFF800 :: u64) i \<longleftrightarrow> 11 \<le> i \<and> i < 38"
    unfolding masks by (auto simp: bit_mask_iff bit_push_bit_iff bit_1_iff possible_bit_def)
  have "bit (0xFFD :: u64) i \<longleftrightarrow> bit (mask 12 :: u64) i \<and> bit (NOT 2 :: u64) i"
    unfolding masks(7) by (rule bit_and_iff)
  also have "bit (NOT 2 :: u64) i \<longleftrightarrow> i < 64 \<and> i \<noteq> 1"
    by (simp only: bit_not_iff 2) (simp add: possible_bit_def)
  finally show "bit (0xFFD :: u64) i \<longleftrightarrow> i < 12 \<and> i \<noteq> 1"
    by (auto simp: bit_mask_iff possible_bit_def)
  show "bit (- 4096 :: u64) i \<longleftrightarrow> 12 \<le> i \<and> i < 64"
    using bit_not_iff [of "0xFFF :: u64" i] m(1) by (auto simp: possible_bit_def)
  show "bit (- 1024 :: u64) i \<longleftrightarrow> 10 \<le> i \<and> i < 64"
    using bit_not_iff [of "0x3FF :: u64" i] m(2) by (auto simp: possible_bit_def)
qed

text \<open>The fields of a packed word: no two of them share a bit.\<close>

definition below :: "nat \<Rightarrow> u64 \<Rightarrow> bool" where
  "below k w \<longleftrightarrow> (\<forall>i \<ge> k. \<not> bit w i)"

definition aligned :: "nat \<Rightarrow> u64 \<Rightarrow> bool" where
  "aligned k w \<longleftrightarrow> (\<forall>i < k. \<not> bit w i)"

lemma below_less: "unat w < 2 ^ k \<Longrightarrow> below k w"
proof -
  assume "unat w < 2 ^ k"
  then have "take_bit k w = w" by (simp add: word_unat_eq_iff unsigned_take_bit_eq take_bit_nat_eq_self)
  then show ?thesis by (metis below_def bit_take_bit_iff linorder_not_less)
qed

definition make_ptds :: "u64 \<Rightarrow> u64 \<Rightarrow> u64 \<Rightarrow> u64 \<Rightarrow> u64 \<Rightarrow> u64" where
  "make_ptds va pte ord perm n = ppn2ptds pte OR va2ptds va OR order2ptds ord OR ub2ptds perm OR n"

lemma ptds_roundtrip:
  assumes "aligned 12 va" and "below 38 va" and "aligned 10 pte" and "below 36 pte"
    and "below 1 ord" and "below 9 n"
  shows "ptds2va (make_ptds va pte ord perm n) = va"
    and "ptds2ppn (make_ptds va pte ord perm n) = pte"
    and "ptds2order (make_ptds va pte ord perm n) = ord"
    and "ptds2ub (make_ptds va pte ord perm n) = perm AND PTE_U"
    and "ptds2size (make_ptds va pte ord perm n) = n"
proof -
  note bits = make_ptds_def const_bits mask_bits ptds2va_def va2ptds_def ptds2ppn_def ppn2ptds_def order2ptds_def ub2ptds_def
    ptds2order_def ptds2ub_def ptds2size_def
  have f: "bit va i \<Longrightarrow> 12 \<le> i \<and> i < 38" "bit pte i \<Longrightarrow> 10 \<le> i \<and> i < 36" "bit ord i \<Longrightarrow> i = 0"
    "bit n i \<Longrightarrow> i < 9" for i
    using assms by (auto simp: below_def aligned_def not_less [symmetric])
  show "ptds2va (make_ptds va pte ord perm n) = va"
    by (intro bit_word_eqI, simp only: bits) (auto dest: f)
  show "ptds2ppn (make_ptds va pte ord perm n) = pte"
    by (intro bit_word_eqI, simp only: bits) (auto dest: f)
  show "ptds2order (make_ptds va pte ord perm n) = ord"
    by (intro bit_word_eqI, simp only: bits) (auto dest: f)
  show "ptds2ub (make_ptds va pte ord perm n) = perm AND PTE_U"
    by (intro bit_word_eqI, simp only: bits) (auto dest: f)
  show "ptds2size (make_ptds va pte ord perm n) = n"
    by (intro bit_word_eqI, simp only: bits) (auto dest: f)
qed

end
