(* ===== verification/Ptdup.thy ===== *)
theory Ptdup
  imports Kalloc PteBits
begin

text \<open>
  \<open>kernel/ptdup.c\<close>: the duplicates of user page tables from which a broken table is rebuilt,
  the part of \<open>uvmalloc\<close> (\<open>kernel/vm.c\<close>) that records runs of pages, and the reconstruction of
  a leaf table (\<open>reconst_from_PTDS\<close>, \<open>reconst_from_PTED\<close> of
  \<open>kernel/recovery_handler_pagetable.c\<close>). A list of duplicates is a chain of pages of 511
  entries; the link in the last word is implied by the order of the pages.
\<close>

section \<open>State\<close>

abbreviation ENTRY_SIZE :: nat where "ENTRY_SIZE \<equiv> 512"
abbreviation PTDUP_SIZE :: nat where "PTDUP_SIZE \<equiv> 66"
abbreviation JUNK64 :: u64 where "JUNK64 \<equiv> 0x0505050505050505"
abbreviation PGSZ :: u64 where "PGSZ \<equiv> 0x1000"

type_synonym dpages = "u64 list list"

record ptdup_head =
  l2_at :: nat                     \<comment> \<open>addresses of the pages; 0 is the null pointer\<close>
  l2 :: "nat \<Rightarrow> u64"
  l1_at :: nat
  l1 :: "nat \<Rightarrow> nat \<times> (nat \<Rightarrow> u64)"  \<comment> \<open>address and contents of each level-1 duplicate\<close>
  ptds_at :: "nat list"
  ptds :: dpages
  pted_at :: "nat list"
  pted :: dpages

record ptdupstate = memstate +
  ptdup_head :: "nat \<Rightarrow> ptdup_head"
  idx_ptdup :: "nat \<Rightarrow> nat"

definition set_head :: "nat \<Rightarrow> (ptdup_head \<Rightarrow> ptdup_head) \<Rightarrow> 'a ptdupstate_scheme \<Rightarrow> 'a ptdupstate_scheme" where
  "set_head i f s = s\<lparr>ptdup_head := (ptdup_head s)(i := f (ptdup_head s i))\<rparr>"

definition find_ptdup :: "nat \<Rightarrow> 'a ptdupstate_scheme \<Rightarrow> (nat option \<times> 'a ptdupstate_scheme) res" where
  "find_ptdup pt s = bindE (acquire LkIdx s) (\<lambda>s. let i = first_idx (\<lambda>i. idx_ptdup s i = pt) PTDUP_SIZE in
     bindE (release LkIdx s) (\<lambda>s. Inr (i, s)))"

section \<open>Lists of entries\<close>

definition unused :: "u64 \<Rightarrow> bool" where
  "unused e \<longleftrightarrow> e = 0 \<or> e = JUNK64"

definition junk_page :: "u64 list" where
  "junk_page = replicate 511 JUNK64"

text \<open>
  The first unused entry takes the content. When all pages are full, a page is appended, but
  the content goes into entry 0 of the page that was full.
\<close>

fun ptds_pted_add :: "u64 \<Rightarrow> dpages \<Rightarrow> dpages" where
  "ptds_pted_add c [] = []"
| "ptds_pted_add c (p # ps) = (case first_idx (\<lambda>i. unused (p ! i)) 511 of
       Some i \<Rightarrow> p[i := c] # ps
     | None \<Rightarrow> if ps = [] then [p[0 := c], junk_page] else p # ptds_pted_add c ps)"

definition pted_delete_entry :: "u64 \<Rightarrow> u64 \<Rightarrow> u64 \<Rightarrow> u64" where
  "pted_delete_entry vs ve e = (if vs \<le> ptds2va e \<and> ptds2va e < ve then JUNK64 else e)"

definition pted_delete :: "u64 \<Rightarrow> u64 \<Rightarrow> dpages \<Rightarrow> nat \<times> dpages" where
  "pted_delete vs ve ps =
     (length (filter (\<lambda>e. vs \<le> ptds2va e \<and> ptds2va e < ve) (concat ps)),
      map (map (pted_delete_entry vs ve)) ps)"

text \<open>
  One entry of the run list: how it is changed, by how much the count grows, and whether a
  second entry is added first (the deleted pages lie inside the run).
\<close>

datatype ptds_change = Keep | Replace u64 u64 | Split u64 u64

definition lower_entry :: "u64 \<Rightarrow> u64 \<Rightarrow> u64" where
  "lower_entry ve e = va2ptds (ve + 1) OR ppn2ptds (ptds2ppn e - ptds2size e * PGSZ) OR
     ub2ptds (ptds2ub e) OR (ptds2size e - ptds2size e)"

definition ptds_change :: "u64 \<Rightarrow> u64 \<Rightarrow> u64 \<Rightarrow> ptds_change" where
  "ptds_change vs ve e =
     (let tvs = ptds2va e; n = ptds2size e; tve = tvs + n * PGSZ - 1 in
      if vs \<le> tvs \<and> tve \<le> ve then Replace 0 n
      else if vs = tvs \<and> ve < tve then Replace (lower_entry ve e) (ptds2size (lower_entry ve e))
      else if tvs < vs \<and> tve = ve then Replace ((e OR NOT 0x1FF) OR ((e AND 0x1FF) - n)) (ptds2size n)
      else if tvs < vs \<and> ve < tve then Split (lower_entry ve e) n
      else Keep)"

definition upd_entry :: "nat \<Rightarrow> nat \<Rightarrow> (u64 \<Rightarrow> u64) \<Rightarrow> dpages \<Rightarrow> dpages" where
  "upd_entry k i f ps = ps[k := (ps ! k)[i := f (ps ! k ! i)]]"

definition ptds_delete_slot :: "u64 \<Rightarrow> u64 \<Rightarrow> nat \<Rightarrow> nat \<Rightarrow> u64 \<times> dpages \<Rightarrow> u64 \<times> dpages" where
  "ptds_delete_slot vs ve k i x = (case x of (d, ps) \<Rightarrow>
     (case ptds_change vs ve (ps ! k ! i) of
        Keep \<Rightarrow> (d, ps)
      | Replace e n \<Rightarrow> (d + n, upd_entry k i (\<lambda>_. e) ps)
      | Split e n \<Rightarrow> (d, upd_entry k i (\<lambda>e. e + n) (ptds_pted_add e ps))))"

text \<open>Whether a page is the last one is read before its entries are visited.\<close>

partial_function (option) ptds_delete_from ::
  "u64 \<Rightarrow> u64 \<Rightarrow> nat \<Rightarrow> u64 \<times> dpages \<Rightarrow> (u64 \<times> dpages) option" where
  "ptds_delete_from vs ve k x =
     (let y = fold (ptds_delete_slot vs ve k) [0..<511] x in
      if Suc k \<ge> length (snd x) then Some y else ptds_delete_from vs ve (Suc k) y)"

definition ptds_delete :: "u64 \<Rightarrow> u64 \<Rightarrow> dpages \<Rightarrow> (u64 \<times> dpages) option" where
  "ptds_delete vs ve ps = ptds_delete_from vs ve 0 (0, ps)"

section \<open>Operations\<close>

text \<open>Every page a list has grown by was allocated by \<open>PTDS_PTED_add\<close>.\<close>

fun grow_pages :: "nat \<Rightarrow> nat list \<Rightarrow> 'a memstate_scheme \<Rightarrow> (nat list \<times> 'a memstate_scheme) res" where
  "grow_pages 0 xs s = Inr (xs, s)"
| "grow_pages (Suc n) xs s = bindE (kalloc s) (\<lambda>(a, s).
     if a = 0 then Inl (Panic ''PTDS_PTED_add: kalloc failed'') else grow_pages n (xs @ [a]) s)"

definition set_ptds :: "nat \<Rightarrow> dpages \<Rightarrow> 'a ptdupstate_scheme \<Rightarrow> 'a ptdupstate_scheme res" where
  "set_ptds i ps s = bindE (grow_pages (length ps - length (ptds (ptdup_head s i))) (ptds_at (ptdup_head s i)) s)
     (\<lambda>(xs, s). Inr (set_head i (\<lambda>x. x\<lparr>ptds_at := xs, ptds := ps\<rparr>) s))"

definition set_pted :: "nat \<Rightarrow> dpages \<Rightarrow> 'a ptdupstate_scheme \<Rightarrow> 'a ptdupstate_scheme res" where
  "set_pted i ps s = bindE (grow_pages (length ps - length (pted (ptdup_head s i))) (pted_at (ptdup_head s i)) s)
     (\<lambda>(xs, s). Inr (set_head i (\<lambda>x. x\<lparr>pted_at := xs, pted := ps\<rparr>) s))"

definition l0_ptes_add :: "nat \<Rightarrow> u64 \<Rightarrow> bool \<Rightarrow> 'a ptdupstate_scheme \<Rightarrow> 'a ptdupstate_scheme res" where
  "l0_ptes_add pt c flag s = bindE (find_ptdup pt s) (\<lambda>(mi, s). case mi of
       None \<Rightarrow> Inl (Panic ''L0_ptes_add: No index corresponding L2_pagetable'')
     | Some i \<Rightarrow> bindE (holding (LkPtdup i) s) (\<lambda>(h, s).
         bindE (if h then Inr s else acquire (LkPtdup i) s) (\<lambda>s.
         if (if flag then ptds else pted) (ptdup_head s i) = [] then Inr s
         else bindE (if flag then set_ptds i (ptds_pted_add c (ptds (ptdup_head s i))) s
                     else set_pted i (ptds_pted_add c (pted (ptdup_head s i))) s) (\<lambda>s.
           if h then Inr s else release (LkPtdup i) s))))"

definition l0_ptes_delete :: "nat \<Rightarrow> u64 \<Rightarrow> int \<Rightarrow> 'a ptdupstate_scheme \<Rightarrow> 'a ptdupstate_scheme res" where
  "l0_ptes_delete pt vs sz s = (let ve = vs + of_int (sz + 1) * PGSZ in
     bindE (find_ptdup pt s) (\<lambda>(mi, s). case mi of
         None \<Rightarrow> Inr s
       | Some i \<Rightarrow> if i = 0 then Inr s
           else bindE (acquire (LkPtdup i) s) (\<lambda>s.
             let s = set_head i (\<lambda>x. x\<lparr>pted := snd (pted_delete vs ve (pted x))\<rparr>) s in
             case (if ptds (ptdup_head s i) = [] then Some (0, []) else ptds_delete vs ve (ptds (ptdup_head s i))) of
               None \<Rightarrow> Inl Blocked
             | Some (_, ps) \<Rightarrow> bindE (set_ptds i ps s) (release (LkPtdup i)))))"

definition new_page :: "'a memstate_scheme \<Rightarrow> (nat \<times> 'a memstate_scheme) res" where
  "new_page s = bindE (kalloc s) (\<lambda>(a, s). if a = 0 then Inl Trap else Inr (a, s))"

definition ptdup_init :: "nat \<Rightarrow> 'a ptdupstate_scheme \<Rightarrow> 'a ptdupstate_scheme res" where
  "ptdup_init pt s =
     bindE (acquire LkIdx s) (\<lambda>s.
     let mi = first_idx (\<lambda>i. idx_ptdup s i = 0) PTDUP_SIZE;
         s = (case mi of None \<Rightarrow> s | Some i \<Rightarrow> s\<lparr>idx_ptdup := (idx_ptdup s)(i := pt)\<rparr>) in
     bindE (release LkIdx s) (\<lambda>s. case mi of
         None \<Rightarrow> Inl (Panic ''ptdup_init: No empty index for new process'')
       | Some i \<Rightarrow> if pt = 0 then Inl (Panic ''ptdup_init: NULL pagetable'')
           else bindE (initlock (LkPtdup i) ''ptdup_lock'' s) (\<lambda>s.
             bindE (acquire (LkPtdup i) s) (\<lambda>s.
             bindE (new_page s) (\<lambda>(a, s). bindE (new_page s) (\<lambda>(b, s).
             bindE (new_page s) (\<lambda>(c, s). bindE (new_page s) (\<lambda>(d, s).
               release (LkPtdup i) (set_head i (\<lambda>_. \<lparr>l2_at = a, l2 = (\<lambda>_. 0), l1_at = b, l1 = (\<lambda>_. (0, \<lambda>_. 0)),
                 ptds_at = [c], ptds = [junk_page], pted_at = [d], pted = [junk_page]\<rparr>) s)))))))))"

text \<open>\<open>tbl\<close> is the contents of the level-2 table, which is searched for the new level-1 table.\<close>

definition ptdup_create_l1 ::
  "nat \<Rightarrow> (nat \<Rightarrow> u64) \<Rightarrow> nat \<Rightarrow> u64 \<Rightarrow> 'a ptdupstate_scheme \<Rightarrow> 'a ptdupstate_scheme res" where
  "ptdup_create_l1 pt tbl l1pt pde s = bindE (find_ptdup pt s) (\<lambda>(mi, s). case mi of
       None \<Rightarrow> Inl (Panic ''ptdup_create_l1: No index corresponting pagetable'')
     | Some i \<Rightarrow> if l1pt = 0 then Inl (Panic ''ptdup_create_l1: NULL pagetable'')
         else (case first_idx (\<lambda>j. unat (pte2pa (tbl j)) = l1pt) ENTRY_SIZE of
             None \<Rightarrow> Inr s
           | Some j \<Rightarrow> bindE (acquire (LkPtdup i) s) (\<lambda>s. bindE (kalloc s) (\<lambda>(a, s).
               if a = 0 then Inl (Panic ''ptdup_create_l1: kalloc failed'')
               else release (LkPtdup i) (set_head i (\<lambda>x. x\<lparr>l1 := (l1 x)(j := (a, \<lambda>_. 0)),
                 l2 := (l2 x)(j := pde)\<rparr>) s)))))"

definition ptdup_update ::
  "nat \<Rightarrow> nat \<Rightarrow> u64 \<Rightarrow> nat \<Rightarrow> 'a ptdupstate_scheme \<Rightarrow> 'a ptdupstate_scheme res" where
  "ptdup_update pt l1pt pde k s = bindE (find_ptdup pt s) (\<lambda>(mi, s). case mi of
       None \<Rightarrow> Inl (Panic ''ptdup_update: No index corresponding L2_pagetable'')
     | Some i \<Rightarrow> if l1pt = 0 then Inl (Panic ''ptdup_update: NULL pagetable'')
         else (case first_idx (\<lambda>j. unat (pte2pa (l2 (ptdup_head s i) j)) = l1pt) ENTRY_SIZE of
             None \<Rightarrow> Inl (Panic ''ptdup_update: No pagetable in PTDUP'')
           | Some j \<Rightarrow> if fst (l1 (ptdup_head s i) j) = 0 then Inl (Panic ''ptdup_update: No pagetable in PTDUP'')
               else bindE (acquire (LkPtdup i) s) (\<lambda>s.
                 release (LkPtdup i) (set_head i (\<lambda>x. x\<lparr>l1 := (l1 x)(j := (fst (l1 x j), (snd (l1 x j))(k := pde)))\<rparr>) s))))"

definition kfree_all :: "nat list \<Rightarrow> 'a memstate_scheme \<Rightarrow> 'a memstate_scheme res" where
  "kfree_all xs s = foldE kfree xs s"

definition ptdup_delete_all :: "nat \<Rightarrow> 'a ptdupstate_scheme \<Rightarrow> 'a ptdupstate_scheme res" where
  "ptdup_delete_all pt s = bindE (find_ptdup pt s) (\<lambda>(mi, s). case mi of
       None \<Rightarrow> Inr s
     | Some i \<Rightarrow> bindE (acquire (LkPtdup i) s) (\<lambda>s. let x = ptdup_head s i in
         bindE (if l1_at x \<noteq> 0 then kfree_all (filter (\<lambda>a. a \<noteq> 0 \<and> a \<noteq> JUNK) (map (\<lambda>j. fst (l1 x j)) [0..<ENTRY_SIZE]) @ [l1_at x]) s
                else Inr s) (\<lambda>s.
         bindE (if l2_at x \<noteq> 0 then kfree (l2_at x) s else Inr s) (\<lambda>s.
         bindE (kfree_all (ptds_at x) s) (\<lambda>s.
         bindE (kfree_all (pted_at x) s) (\<lambda>s.
         bindE (acquire LkIdx s) (\<lambda>s.
         bindE (release LkIdx (s\<lparr>idx_ptdup := (idx_ptdup s)(i := 0)\<rparr>)) (\<lambda>s.
           release (LkPtdup i) (set_head i (\<lambda>x. x\<lparr>l2_at := 0, l1_at := 0, ptds_at := [], ptds := [],
             pted_at := [], pted := []\<rparr>) s)))))))))"

text \<open>
  \<open>PTDS_decompose_clear\<close> writes the shortened run into a local variable only: a run of more
  than two pages stays as it is. The flag is its return value.
\<close>

definition decompose_entries :: "u64 \<Rightarrow> u64 \<times> u64" where
  "decompose_entries e =
     (let n = ptds2size e; skip = (if n > 2 then (n - 2) * PGSZ else 0);
          va = ptds2va e + skip; pa = pte2pa (ptds2ppn e) + skip;
          pa2 = (if ptds2order e \<noteq> 0 then pa + PGSZ else pa - PGSZ);
          ppn = (if n > 2 then pa2pte pa else ptds2ppn e) in
      (va2ptds va OR ppn2ptds ppn OR (PTE_W OR PTE_X OR PTE_R),
       va2ptds (va + PGSZ) OR ppn2ptds (pa2pte pa2) OR (PTE_W OR PTE_X OR PTE_R) OR ptds2ub e))"

definition decompose_clear :: "u64 \<Rightarrow> dpages \<times> dpages \<Rightarrow> (bool \<times> dpages \<times> dpages) option" where
  "decompose_clear e x = (case x of (ds, es) \<Rightarrow>
     if ptds2size e < 2 then Some (True, ds, es)
     else let (a, b) = decompose_entries e; es = ptds_pted_add b (ptds_pted_add a es) in
       if ptds2size e = 2 then
         (case ptds_delete (ptds2va e) (ptds2va e + 2 * PGSZ) ds of
            None \<Rightarrow> None | Some (_, ds) \<Rightarrow> Some (False, ds, es))
       else Some (False, ds, es))"

fun upd_first :: "('e \<Rightarrow> bool) \<Rightarrow> ('e \<Rightarrow> 'e) \<Rightarrow> 'e list \<Rightarrow> 'e list" where
  "upd_first P f [] = []"
| "upd_first P f (e # es) = (if P e then f e # es else e # upd_first P f es)"

fun upd_first_page :: "('e \<Rightarrow> bool) \<Rightarrow> ('e \<Rightarrow> 'e) \<Rightarrow> 'e list list \<Rightarrow> 'e list list" where
  "upd_first_page P f [] = []"
| "upd_first_page P f (p # ps) = (if list_ex P p then upd_first P f p # ps else p # upd_first_page P f ps)"

text \<open>The end of the run is computed from the target itself, so only the start is compared.\<close>

definition clear_user :: "u64 \<Rightarrow> dpages \<times> dpages \<Rightarrow> (bool \<times> dpages \<times> dpages) option" where
  "clear_user va x = (case x of (ds, es) \<Rightarrow>
     (case find (\<lambda>e. ptds2va e \<le> va \<and> va \<le> va + PGSZ - 1) (concat ds) of
        Some e \<Rightarrow> decompose_clear e (ds, es)
      | None \<Rightarrow> Some (False, ds, upd_first_page (\<lambda>e. va \<le> ptds2va e \<and> ptds2va e \<le> va + PGSZ)
          (\<lambda>e. e AND NOT PTE_U) es)))"

definition l0_ptes_clear_user :: "nat \<Rightarrow> u64 \<Rightarrow> 'a ptdupstate_scheme \<Rightarrow> 'a ptdupstate_scheme res" where
  "l0_ptes_clear_user pt va s = bindE (find_ptdup pt s) (\<lambda>(mi, s). case mi of
       None \<Rightarrow> Inr s
     | Some i \<Rightarrow> bindE (acquire (LkPtdup i) s) (\<lambda>s.
         case clear_user va (ptds (ptdup_head s i), pted (ptdup_head s i)) of
           None \<Rightarrow> Inl Blocked
         | Some (_, ds, es) \<Rightarrow> bindE (set_ptds i ds s) (\<lambda>s. bindE (set_pted i es s) (release (LkPtdup i)))))"

section \<open>Recording runs of pages\<close>

text \<open>
  The bookkeeping of \<open>uvmalloc\<close>: \<open>dout\<close> collects the calls of \<open>L0_ptes_add\<close>, \<open>True\<close> for a
  run and \<open>False\<close> for a single page.
\<close>

record dupst =
  dsize :: u64
  dorder :: u64
  dbmem :: u64
  dentry :: u64
  dout :: "(bool \<times> u64) list"

abbreviation WXRU :: u64 where "WXRU \<equiv> PTE_W OR PTE_X OR PTE_R OR PTE_U"

definition single :: "u64 \<Rightarrow> u64 \<Rightarrow> bool \<times> u64" where
  "single pg va = (False, ppn2ptds (pa2pte pg) OR va2ptds va OR WXRU)"

definition run_entry :: "dupst \<Rightarrow> bool \<times> u64" where
  "run_entry st = (True, dentry st OR order2ptds (dorder st) OR ub2ptds PTE_U OR dsize st)"

definition dup_step :: "u64 \<Rightarrow> u64 \<Rightarrow> u64 \<Rightarrow> dupst \<Rightarrow> dupst" where
  "dup_step old a pg st =
     (let st = (if dsize st = 0 then st\<lparr>dentry := dentry st OR ppn2ptds (pa2pte pg) OR va2ptds a\<rparr> else st);
          st = (if dbmem st - pg = PGSZ then st\<lparr>dorder := 0, dsize := dsize st + 1\<rparr>
                else if pg - dbmem st = PGSZ then st\<lparr>dorder := 1, dsize := dsize st + 1\<rparr>
                else if dbmem st = 0 then st\<lparr>dsize := dsize st + 1\<rparr>
                else st\<lparr>dout := dout st @ [if dsize st > 1 then run_entry st else single pg a] @
                         (if a = old + PGSZ then [single (dbmem st) old] else []),
                       dsize := 0, dentry := 0, dorder := 0\<rparr>)
      in st\<lparr>dbmem := pg\<rparr>)"

fun dup_pages :: "u64 \<Rightarrow> u64 \<Rightarrow> u64 list \<Rightarrow> dupst \<Rightarrow> dupst" where
  "dup_pages old a [] st = st"
| "dup_pages old a (pg # ms) st = dup_pages old (a + PGSZ) ms (dup_step old a pg st)"

definition dup_finish :: "dupst \<Rightarrow> (bool \<times> u64) list" where
  "dup_finish st = dout st @
     (if dsize st > 1 then [run_entry st]
      else if dentry st \<noteq> 0 then [(False, dentry st OR WXRU)] else [])"

definition dup_alloc :: "u64 \<Rightarrow> u64 list \<Rightarrow> (bool \<times> u64) list" where
  "dup_alloc old ms = dup_finish (dup_pages old old ms
     \<lparr>dsize = 0, dorder = 0, dbmem = 0, dentry = 0, dout = []\<rparr>)"

section \<open>Reconstructing a leaf table\<close>

text \<open>
  A table is a function from the 512 indices; an index beyond them is a write outside the page.
  The flag records that an entry was already in use.
\<close>

fun put_run :: "u64 \<Rightarrow> u64 \<Rightarrow> nat \<Rightarrow> nat \<Rightarrow> u64 \<Rightarrow> bool \<times> (nat \<Rightarrow> u64) \<Rightarrow> (bool \<times> (nat \<Rightarrow> u64)) res" where
  "put_run stp ub 0 num ppn x = Inr x"
| "put_run stp ub (Suc k) num ppn x =
     (if num \<ge> ENTRY_SIZE then Inl Trap
      else put_run stp ub k (Suc num) (ppn + stp)
        (if snd x num \<noteq> 0 then (True, snd x)
         else (fst x, (snd x)(num := ppn OR ub OR PTE_D OR PTE_X OR PTE_W OR PTE_R OR PTE_V))))"

definition reconst_run :: "u64 \<Rightarrow> u64 \<Rightarrow> bool \<times> (nat \<Rightarrow> u64) \<Rightarrow> (bool \<times> (nat \<Rightarrow> u64)) res" where
  "reconst_run sva e x =
     (if unused e \<or> \<not> (sva \<le> ptds2va e \<and> ptds2va e \<le> sva + 0x200000) then Inr x
      else put_run (if ptds2order e \<noteq> 0 then 0x400 else - 0x400) (ptds2ub e)
        (unat (ptds2size e)) (px 0 (ptds2va e)) (ptds2ppn e) x)"

definition reconst_from_ptds :: "u64 \<Rightarrow> dpages \<Rightarrow> bool \<times> (nat \<Rightarrow> u64) \<Rightarrow> (bool \<times> (nat \<Rightarrow> u64)) res" where
  "reconst_from_ptds sva ps x = foldE (reconst_run sva) (concat ps) x"

definition reconst_entry :: "u64 \<Rightarrow> u64 \<Rightarrow> bool \<times> (nat \<Rightarrow> u64) \<Rightarrow> bool \<times> (nat \<Rightarrow> u64)" where
  "reconst_entry sva e x =
     (if unused e \<or> \<not> (sva \<le> ptds2va e \<and> ptds2va e < sva + 0x200000) then x
      else let i = px 0 (ptds2va e) in
        if snd x i \<noteq> 0 then (True, snd x)
        else (fst x, (snd x)(i := ptds2ppn e OR PTE_D OR pted2flags e OR PTE_V)))"

definition reconst_from_pted :: "u64 \<Rightarrow> dpages \<Rightarrow> bool \<times> (nat \<Rightarrow> u64) \<Rightarrow> bool \<times> (nat \<Rightarrow> u64)" where
  "reconst_from_pted sva ps x = fold (reconst_entry sva) (concat ps) x"

section \<open>A run of pages is rebuilt\<close>

lemma drop12_add:
  assumes "unat pa + n * 4096 < 2 ^ 64"
  shows "drop_bit 12 (pa + of_nat n * PGSZ) = drop_bit 12 pa + of_nat n"
proof -
  have n: "n < 2 ^ 52" using assms by simp
  have "unat (of_nat n * PGSZ) = n * 4096"
    using n by (simp add: unat_word_ariths unat_of_nat)
  then have "unat (pa + of_nat n * PGSZ) = unat pa + n * 4096"
    using assms by (simp add: unat_word_ariths)
  then have "unat (drop_bit 12 (pa + of_nat n * PGSZ)) = unat pa div 4096 + n"
    by (simp add: drop_bit_eq_div unat_div)
  moreover have "unat (drop_bit 12 pa + of_nat n) = unat pa div 4096 + n"
    using n assms by (simp add: unat_word_ariths unat_of_nat drop_bit_eq_div)
  ultimately show ?thesis by (simp add: word_unat_eq_iff)
qed

lemma pa2pte_add:
  "unat pa + n * 4096 < 2 ^ 64 \<Longrightarrow> pa2pte (pa + of_nat n * PGSZ) = pa2pte pa + of_nat n * 0x400"
  by (simp add: pa2pte_def drop12_add push_bit_eq_mult algebra_simps)

abbreviation RUN_FLAGS :: u64 where
  "RUN_FLAGS \<equiv> PTE_U OR PTE_D OR PTE_X OR PTE_W OR PTE_R OR PTE_V"

lemma put_run_exact:
  "num + k \<le> ENTRY_SIZE \<Longrightarrow> \<forall>i < k. new (num + i) = 0 \<Longrightarrow>
   \<exists>new'. put_run stp PTE_U k num ppn (False, new) = Inr (False, new') \<and>
     (\<forall>i < k. new' (num + i) = (ppn + of_nat i * stp) OR RUN_FLAGS) \<and>
     (\<forall>j. j < num \<or> num + k \<le> j \<longrightarrow> new' j = new j)"
proof (induction k arbitrary: num ppn new)
  case (Suc k)
  let ?new = "new(num := ppn OR PTE_U OR PTE_D OR PTE_X OR PTE_W OR PTE_R OR PTE_V)"
  have "new num = 0" using Suc.prems(2) by (auto dest: spec [of _ 0])
  then have step: "put_run stp PTE_U (Suc k) num ppn (False, new) =
      put_run stp PTE_U k (Suc num) (ppn + stp) (False, ?new)" using Suc.prems(1) by simp
  have "\<forall>i < k. ?new (Suc num + i) = 0" using Suc.prems(2) by (auto dest: spec [of _ "Suc _"])
  moreover have "Suc num + k \<le> ENTRY_SIZE" using Suc.prems(1) by simp
  ultimately obtain new' where n:
    "put_run stp PTE_U k (Suc num) (ppn + stp) (False, ?new) = Inr (False, new')"
    "\<forall>i < k. new' (Suc num + i) = (ppn + stp + of_nat i * stp) OR RUN_FLAGS"
    "\<forall>j. j < Suc num \<or> Suc num + k \<le> j \<longrightarrow> new' j = ?new j"
    using Suc.IH [of "Suc num" ?new "ppn + stp"] by blast
  have "new' (num + i) = (ppn + of_nat i * stp) OR RUN_FLAGS" if "i < Suc k" for i
    using that n(2,3) by (cases i) (auto simp: algebra_simps)
  then show ?case using step n(1,3) by (intro exI [of _ new']) auto
qed simp

lemma dup_pages_append:
  "dup_pages old a (xs @ ys) st = dup_pages old (a + of_nat (length xs) * PGSZ) ys (dup_pages old a xs st)"
  by (induction xs arbitrary: a st) (simp_all add: algebra_simps)

text \<open>Pages at ascending addresses are collected in one run.\<close>

lemma dup_run:
  assumes "j < 511" and "0 < j" and "pa \<noteq> 0" and "pa \<noteq> PGSZ" and "pa \<noteq> - PGSZ"
  shows "dup_pages old old (map (\<lambda>i. pa + of_nat i * PGSZ) [0..<j])
      \<lparr>dsize = 0, dorder = 0, dbmem = 0, dentry = 0, dout = []\<rparr> =
    \<lparr>dsize = of_nat j, dorder = (if j \<ge> 2 then 1 else 0), dbmem = pa + of_nat (j - 1) * PGSZ,
      dentry = ppn2ptds (pa2pte pa) OR va2ptds old, dout = []\<rparr>"
  using assms(1,2)
proof (induction j)
  case (Suc j)
  show ?case
  proof (cases "j = 0")
    case True
    have "0 - pa \<noteq> PGSZ" "pa - 0 \<noteq> PGSZ" using assms(4,5) by (simp, metis minus_minus) (simp add: assms(4))
    then show ?thesis using True by (simp add: dup_step_def Let_def)
  next
    case False
    then obtain m where m: "j = Suc m" by (cases j) auto
    have nz: "(of_nat j :: u64) \<noteq> 0"
      using Suc.prems(1) False by (simp add: word_unat_eq_iff unat_of_nat)
    have d: "pa + of_nat m * PGSZ - (pa + of_nat j * PGSZ) = - PGSZ"
      "pa + of_nat j * PGSZ - (pa + of_nat m * PGSZ) = PGSZ" by (simp_all add: m algebra_simps)
    have "- PGSZ \<noteq> PGSZ" by simp
    with d have "pa + of_nat m * PGSZ - (pa + of_nat j * PGSZ) \<noteq> PGSZ" by (simp only:) simp
    then show ?thesis
      using Suc False nz d(2) by (simp add: dup_pages_append dup_step_def Let_def m)
  qed
qed simp

lemma dup_alloc_run:
  assumes "2 \<le> k" and "k < 511" and "pa \<noteq> 0" and "pa \<noteq> PGSZ" and "pa \<noteq> - PGSZ"
  shows "dup_alloc old (map (\<lambda>i. pa + of_nat i * PGSZ) [0..<k]) =
    [(True, make_ptds old (pa2pte pa) 1 PTE_U (of_nat k))]"
proof -
  have "(1 :: u64) < of_nat k" using assms(1,2) by (simp add: word_less_nat_alt unat_of_nat)
  then show ?thesis
    using assms dup_run [of k pa old]
    by (simp add: dup_alloc_def dup_finish_def run_entry_def make_ptds_def or.assoc)
qed

text \<open>What \<open>uvmalloc\<close> hands to \<open>L0_ptes_add\<close> as runs, added in order.\<close>

definition record_runs :: "(bool \<times> u64) list \<Rightarrow> dpages \<Rightarrow> dpages" where
  "record_runs out ps = foldl (\<lambda>ps (r, e). if r then ptds_pted_add e ps else ps) ps out"

lemma junk_unused: "unused JUNK64" "unused 0"
  by (simp_all add: unused_def)

lemma add_first: "ptds_pted_add e [junk_page] = [e # replicate 510 JUNK64]"
proof -
  have "unused (junk_page ! 0)" by (simp add: junk_page_def junk_unused)
  then have "first_idx (\<lambda>i. unused (junk_page ! i)) 511 = Some 0"
    by (simp add: first_idx_Some)
  moreover have j: "junk_page = JUNK64 # replicate 510 JUNK64"
    by (simp add: junk_page_def replicate_Suc [symmetric] del: replicate_Suc)
  have "junk_page[0 := e] = e # replicate 510 JUNK64" by (subst j) simp
  ultimately show ?thesis by simp
qed

lemma reconst_unused: "\<forall>e \<in> set es. unused e \<Longrightarrow> foldE (reconst_run sva) es x = Inr x"
  by (induction es) (simp_all add: reconst_run_def)

lemma pte_fields:
  assumes "aligned 12 pa" and "below 38 pa"
  shows "aligned 10 (pa2pte pa)" and "below 36 (pa2pte pa)"
  using assms by (auto simp: aligned_def below_def pa2pte_def mask_bits)

lemma small_below: "n < 512 \<Longrightarrow> below 9 (of_nat n :: u64)"
  by (rule below_less) (simp add: unat_of_nat)

lemma below_unat: "below k w \<Longrightarrow> unat w < 2 ^ k"
proof -
  assume "below k w"
  then have "take_bit k w = w"
    by (intro bit_word_eqI) (auto simp: bit_take_bit_iff below_def not_less [symmetric])
  then have "take_bit k (unat w) = unat w" by (metis unsigned_take_bit_eq)
  then show ?thesis by (metis take_bit_nat_less_exp)
qed

lemma below_1: "below 1 (1 :: u64)" by (simp add: below_less)

lemma reconst_one_run:
  assumes "k < 512" and "px 0 va + k \<le> ENTRY_SIZE" and "aligned 12 va" and "below 38 va"
    and "aligned 12 pa" and "below 38 pa" and "pa \<noteq> 0" and "0 < k"
    and "sva \<le> va" and "va \<le> sva + 0x200000" and "\<forall>i < k. new (px 0 va + i) = 0"
  shows "\<exists>new'. reconst_run sva (make_ptds va (pa2pte pa) 1 PTE_U (of_nat k)) (False, new) = Inr (False, new') \<and>
     (\<forall>i < k. new' (px 0 va + i) = pa2pte (pa + of_nat i * PGSZ) OR RUN_FLAGS) \<and>
     (\<forall>j. j < px 0 va \<or> px 0 va + k \<le> j \<longrightarrow> new' j = new j)"
proof -
  let ?e = "make_ptds va (pa2pte pa) 1 PTE_U (of_nat k)"
  note r = ptds_roundtrip [OF assms(3,4) pte_fields [OF assms(5,6)] below_1 small_below [OF assms(1)], of PTE_U]
  have k: "unat (of_nat k :: u64) = k" using assms(1) by (simp add: unat_of_nat)
  have "ptds2ub ?e = PTE_U" using r(4) by simp
  have u: "\<not> unused ?e"
  proof
    assume "unused ?e"
    then have "ptds2ub ?e = 0" unfolding unused_def by (elim disjE) (simp_all only:, simp_all add: ptds2ub_def)
    then show False using r(4) by simp
  qed
  obtain new' where n: "put_run 0x400 PTE_U k (px 0 va) (pa2pte pa) (False, new) = Inr (False, new')"
    "\<forall>i < k. new' (px 0 va + i) = (pa2pte pa + of_nat i * 0x400) OR RUN_FLAGS"
    "\<forall>j. j < px 0 va \<or> px 0 va + k \<le> j \<longrightarrow> new' j = new j"
    using put_run_exact [OF assms(2,11)] by blast
  have "pa2pte (pa + of_nat i * PGSZ) = pa2pte pa + of_nat i * 0x400" if "i < k" for i
    using that assms(1) below_unat [OF assms(6)] by (intro pa2pte_add) simp
  then show ?thesis
    using u n assms(9,10) by (intro exI [of _ new']) (simp add: reconst_run_def r k \<open>ptds2ub ?e = PTE_U\<close>)
qed

lemma bindE_Inr_right: "bindE r Inr = r" by (cases r) simp_all


text \<open>
  Two adjacent pages followed by a third that is not adjacent leave a single record, of
  a run of two pages: the third page is in no record, and a table that is rebuilt lacks it.
\<close>

text \<open>
  Two adjacent pages followed by a third that is not adjacent leave a single record, of
  a run of two pages: the third page is in no record, and a table that is rebuilt lacks it.
\<close>

text \<open>
  Two adjacent pages followed by a third that is not adjacent leave a single record, of
  a run of two pages: the third page is in no record, and a table that is rebuilt lacks it.
\<close>

text \<open>
  Two adjacent pages followed by a third that is not adjacent leave a single record, of
  a run of two pages: the third page is in no record, and a table that is rebuilt lacks it.
\<close>

text \<open>
  Two adjacent pages followed by a third that is not adjacent leave a single record, of
  a run of two pages: the third page is in no record, and a table that is rebuilt lacks it.
\<close>

theorem uvmalloc_dup_loses_page:
  assumes "p \<noteq> 0" and "p \<noteq> PGSZ" and "p \<noteq> - PGSZ"
    and "q - (p + PGSZ) \<noteq> PGSZ" and "p + PGSZ - q \<noteq> PGSZ" and "p + PGSZ \<noteq> 0"
  shows "dup_alloc old [p, p + PGSZ, q] = [(True, make_ptds old (pa2pte p) 1 PTE_U 2)]"
proof -
  have "(2 :: u64) > 1" by simp
  have "0 - p \<noteq> PGSZ" "p - 0 \<noteq> PGSZ" using assms by (simp, metis minus_minus) (simp add: assms)
  moreover have "p - (p + PGSZ) \<noteq> PGSZ" by simp
  ultimately show ?thesis using assms
    by (simp add: dup_alloc_def dup_step_def dup_finish_def run_entry_def make_ptds_def Let_def or.assoc)
qed


lemma uvmalloc_dup_loses_page_witness:
  "dup_alloc 0 [0x87000000, 0x87000000 + PGSZ, 0x87009000] =
     [(True, make_ptds 0 (pa2pte 0x87000000) 1 PTE_U 2)]"
  by (rule uvmalloc_dup_loses_page) simp_all

end
