(* ===== verification/Ring.thy ===== *)
theory Ring
  imports Prelude
begin

text \<open>
  Ring buffers addressed by free-running 32-bit counters, as \<open>struct pipe\<close> and
  \<open>struct cons\<close> use them: a counter is reduced modulo the size of the array only when the
  array is accessed. The locale states the condition under which the wrap-around of the
  counters is harmless; it is interpreted for both rings.
\<close>

definition slot :: "nat \<Rightarrow> u32 \<Rightarrow> nat" where
  "slot n x = unat x mod n"

text \<open>The \<open>k\<close> bytes from counter \<open>r\<close>.\<close>

definition ring_list :: "nat \<Rightarrow> (nat \<Rightarrow> u8) \<Rightarrow> u32 \<Rightarrow> nat \<Rightarrow> u8 list" where
  "ring_list n d r k = map (\<lambda>i. d (slot n (r + of_nat i))) [0..<k]"

definition dist :: "u32 \<Rightarrow> u32 \<Rightarrow> nat" where
  "dist r w = unat (w - r)"

lemma unat_lt_2p32: "unat (x :: u32) < 4294967296"
  using unsigned_less [of x, where ?'a = nat] by simp

lemma unat_of_nat32: "n < 2 ^ 32 \<Longrightarrow> unat (of_nat n :: u32) = n"
  by (simp add: unat_of_nat)

lemma unat_succ32: "unat (x :: u32) < 4294967295 \<Longrightarrow> unat (x + 1) = Suc (unat x)"
  by (simp add: unat_plus_if_size word_size)

lemma unat_pred32: "x \<noteq> (0 :: u32) \<Longrightarrow> unat (x - 1) = unat x - 1"
  by (metis unat_minus_one)

lemma dist_0 [simp]: "dist r r = 0" by (simp add: dist_def)

lemma dist_eq_0: "dist r w = 0 \<longleftrightarrow> r = w"
  by (auto simp: dist_def unat_eq_0)

lemma dist_add: "w = r + of_nat (dist r w)"
  by (simp add: dist_def)

lemma dist_of_nat: "k < 2 ^ 32 \<Longrightarrow> dist r (r + of_nat k) = k"
  by (simp add: dist_def unat_of_nat)

lemma dist_eq: "k < 2 ^ 32 \<Longrightarrow> dist r w = k \<longleftrightarrow> w = r + of_nat k"
  by (metis dist_add dist_of_nat)

lemma dist_push: "dist r w < 4294967295 \<Longrightarrow> dist r (w + 1) = Suc (dist r w)"
  unfolding dist_def using unat_succ32 [of "w - r"] by (simp add: algebra_simps)

lemma dist_pop: "r \<noteq> w \<Longrightarrow> dist (r + 1) w = dist r w - 1"
  unfolding dist_def using unat_pred32 [of "w - r"] by (simp add: algebra_simps)

lemma dist_back: "r \<noteq> w \<Longrightarrow> dist r (w - 1) = dist r w - 1"
  unfolding dist_def using unat_pred32 [of "w - r"] by (simp add: algebra_simps)

lemma ring_list_length [simp]: "length (ring_list n d r k) = k"
  by (simp add: ring_list_def)

lemma ring_list_0 [simp]: "ring_list n d r 0 = []"
  by (simp add: ring_list_def)

lemma ring_list_Cons: "ring_list n d r (Suc k) = d (slot n r) # ring_list n d (r + 1) k"
proof -
  have "[0..<Suc k] = 0 # map Suc [0..<k]" by (simp add: upt_conv_Cons map_Suc_upt del: upt_Suc)
  then show ?thesis by (simp add: ring_list_def o_def algebra_simps)
qed

lemma ring_list_snoc: "ring_list n d r (Suc k) = ring_list n d r k @ [d (slot n (r + of_nat k))]"
  by (simp add: ring_list_def)

lemma ring_list_take: "j \<le> k \<Longrightarrow> take j (ring_list n d r k) = ring_list n d r j"
  by (simp add: ring_list_def take_map)

lemma ring_list_append:
  "ring_list n d r (a + b) = ring_list n d r a @ ring_list n d (r + of_nat a) b"
  by (induction b) (simp_all add: ring_list_snoc algebra_simps)

locale byte_ring =
  fixes n :: nat
  assumes pos: "0 < n" and divides: "n dvd 2 ^ 32"
begin

lemma small: "n \<le> 2 ^ 32"
  using divides by (intro dvd_imp_le) simp_all

lemma slot_less: "slot n x < n"
  using pos by (simp add: slot_def)

lemma slot_add: "slot n (r + of_nat i) = (unat r + i) mod n"
proof -
  have "unat (r + of_nat i) = (unat r + i) mod 2 ^ 32"
    by (simp add: unat_word_ariths unat_of_nat mod_add_right_eq)
  then show ?thesis using divides by (simp add: slot_def mod_mod_cancel)
qed

lemma slot_neq:
  assumes "i < j" and "j < i + n"
  shows "slot n (r + of_nat i) \<noteq> slot n (r + of_nat j)"
proof
  assume "slot n (r + of_nat i) = slot n (r + of_nat j)"
  then have "(unat r + j) mod n = (unat r + i) mod n" by (simp add: slot_add)
  then have "n dvd (unat r + j) - (unat r + i)" using assms(1) by (subst (asm) mod_eq_dvd_iff_nat) simp_all
  then have "n \<le> j - i" using assms(1) by (simp add: dvd_imp_le)
  with assms show False by simp
qed

lemma ring_list_upd:
  assumes "k \<le> m" and "m < n"
  shows "ring_list n (d(slot n (r + of_nat m) := c)) r k = ring_list n d r k"
  using assms slot_neq [of _ m r] by (auto simp: ring_list_def)

lemma ring_list_put:
  "k < n \<Longrightarrow> ring_list n (d(slot n (r + of_nat k) := c)) r (Suc k) = ring_list n d r k @ [c]"
  by (simp add: ring_list_snoc ring_list_upd)

text \<open>Reading the oldest byte and adding one, in terms of the two counters.\<close>

lemma ring_get:
  assumes "r \<noteq> w"
  shows "ring_list n d r (dist r w) = d (slot n r) # ring_list n d (r + 1) (dist (r + 1) w)"
proof -
  have "dist r w = Suc (dist (r + 1) w)"
    using assms dist_eq_0 [of r w] dist_pop [OF assms] by simp
  then show ?thesis by (simp add: ring_list_Cons)
qed

lemma ring_put:
  assumes "dist r w < n" and "n < 2 ^ 32"
  shows "ring_list n (d(slot n w := c)) r (dist r (w + 1)) = ring_list n d r (dist r w) @ [c]"
proof -
  have "dist r (w + 1) = Suc (dist r w)" using assms by (intro dist_push) simp
  then show ?thesis using ring_list_put [OF assms(1), of d r c] dist_add [of w r] by simp
qed

end

end
