(* ===== verification/Pipe.thy ===== *)
theory Pipe
  imports Ptdup Ring
begin

text \<open>
  \<open>kernel/pipe.c\<close>: a ring of 512 bytes with two free-running 32-bit counters. The copying
  loops are functions on the pipe alone; the handlers around them take the lock, wake up the
  other side and sleep. The ring is proved to be a queue, across the wrap-around of its
  counters.
\<close>

section \<open>The ring\<close>

abbreviation PIPESIZE :: nat where "PIPESIZE \<equiv> 512"

record pipe =
  pdata :: "nat \<Rightarrow> u8"
  nread :: u32
  nwrite :: u32
  readopen :: bool
  writeopen :: bool

definition pipe_full :: "pipe \<Rightarrow> bool" where
  "pipe_full p \<longleftrightarrow> nwrite p = nread p + of_nat PIPESIZE"

definition pipe_empty :: "pipe \<Rightarrow> bool" where
  "pipe_empty p \<longleftrightarrow> nread p = nwrite p"

definition put_byte :: "u8 \<Rightarrow> pipe \<Rightarrow> pipe" where
  "put_byte ch p = p\<lparr>pdata := (pdata p)(slot PIPESIZE (nwrite p) := ch), nwrite := nwrite p + 1\<rparr>"

definition get_byte :: "pipe \<Rightarrow> u8 \<times> pipe" where
  "get_byte p = (pdata p (slot PIPESIZE (nread p)), p\<lparr>nread := nread p + 1\<rparr>)"

text \<open>
  How a call leaves its loop: with its result, with -1 because the other end is closed or the
  process is killed, or because it has to sleep after \<open>i\<close> bytes.
  \<open>src i\<close> is what \<open>copyin\<close> delivers for byte \<open>i\<close>, \<open>None\<close> when it fails;
  \<open>dst i\<close> tells whether \<open>copyout\<close> of byte \<open>i\<close> succeeds.
\<close>

datatype io_end = Done int | Abort | Asleep nat

fun pipewrite_loop :: "(nat \<Rightarrow> u8 option) \<Rightarrow> bool \<Rightarrow> int \<Rightarrow> nat \<Rightarrow> nat \<Rightarrow> pipe \<Rightarrow> io_end \<times> pipe" where
  "pipewrite_loop src dead n 0 i p = (Done n, p)"
| "pipewrite_loop src dead n (Suc k) i p =
     (if pipe_full p then (if \<not> readopen p \<or> dead then (Abort, p) else (Asleep i, p))
      else case src i of None \<Rightarrow> (Done n, p)
           | Some ch \<Rightarrow> pipewrite_loop src dead n k (Suc i) (put_byte ch p))"

fun piperead_copy :: "(nat \<Rightarrow> bool) \<Rightarrow> nat \<Rightarrow> nat \<Rightarrow> pipe \<Rightarrow> u8 list \<times> nat \<times> pipe" where
  "piperead_copy dst 0 i p = ([], i, p)"
| "piperead_copy dst (Suc k) i p =
     (if pipe_empty p then ([], i, p)
      else let (ch, p) = get_byte p in
        if \<not> dst i then ([], i, p)
        else let (r, j, p) = piperead_copy dst k (Suc i) p in (ch # r, j, p))"

section \<open>The system calls\<close>

record pipestate = ptdupstate +
  pipes :: "nat \<Rightarrow> pipe"    \<comment> \<open>by address\<close>

definition set_pipe :: "nat \<Rightarrow> pipe \<Rightarrow> 'a pipestate_scheme \<Rightarrow> 'a pipestate_scheme" where
  "set_pipe a p s = s\<lparr>pipes := (pipes s)(a := p)\<rparr>"

definition cur_killed :: "'a mach_scheme \<Rightarrow> bool res" where
  "cur_killed s = (case curproc s of None \<Rightarrow> Inl Trap | Some p \<Rightarrow> Inr (killed (procs s p)))"

text \<open>
  A call from its start (\<open>i = 0\<close>), or resumed after \<open>i\<close> bytes, with the lock held;
  \<open>Asleep\<close> comes with the state in which it has given up the CPU.
\<close>

definition pipewrite_locked ::
  "nat \<Rightarrow> (nat \<Rightarrow> u8 option) \<Rightarrow> int \<Rightarrow> nat \<Rightarrow> 'a pipestate_scheme \<Rightarrow> (io_end \<times> 'a pipestate_scheme) res" where
  "pipewrite_locked a src n i s = bindE (cur_killed s) (\<lambda>dead.
     let (e, p) = pipewrite_loop src dead n (nat n - i) i (pipes s a); s = set_pipe a p s in
     bindE (case e of Abort \<Rightarrow> release (LkPipe a) s
       | Done _ \<Rightarrow> bindE (wakeup (ChPipeR a) s) (release (LkPipe a))
       | Asleep _ \<Rightarrow> bindE (wakeup (ChPipeR a) s) (sleep_enter (ChPipeW a) (LkPipe a)))
     (\<lambda>s. Inr (e, s)))"

definition pipewrite where
  "pipewrite a src n s = bindE (acquire (LkPipe a) s) (pipewrite_locked a src n 0)"

definition piperead_locked ::
  "nat \<Rightarrow> (nat \<Rightarrow> bool) \<Rightarrow> int \<Rightarrow> 'a pipestate_scheme \<Rightarrow> (u8 list \<times> io_end \<times> 'a pipestate_scheme) res" where
  "piperead_locked a dst n s = bindE (cur_killed s) (\<lambda>dead.
     if pipe_empty (pipes s a) \<and> writeopen (pipes s a) then
       (if dead then bindE (release (LkPipe a) s) (\<lambda>s. Inr ([], Abort, s))
        else bindE (sleep_enter (ChPipeR a) (LkPipe a) s) (\<lambda>s. Inr ([], Asleep 0, s)))
     else let (out, i, p) = piperead_copy dst (nat n) 0 (pipes s a) in
       bindE (wakeup (ChPipeW a) (set_pipe a p s)) (\<lambda>s.
       bindE (release (LkPipe a) s) (\<lambda>s. Inr (out, Done (int i), s))))"

definition piperead where
  "piperead a dst n s = bindE (acquire (LkPipe a) s) (piperead_locked a dst n)"

definition close_end :: "bool \<Rightarrow> pipe \<Rightarrow> pipe" where
  "close_end writable p = (if writable then p\<lparr>writeopen := False\<rparr> else p\<lparr>readopen := False\<rparr>)"

definition pipeclose :: "nat \<Rightarrow> bool \<Rightarrow> 'a pipestate_scheme \<Rightarrow> 'a pipestate_scheme res" where
  "pipeclose a writable s =
     bindE (acquire (LkPipe a) s) (\<lambda>s.
     bindE (wakeup (if writable then ChPipeR a else ChPipeW a)
       (set_pipe a (close_end writable (pipes s a)) s)) (\<lambda>s.
     bindE (release (LkPipe a) s) (\<lambda>s.
     if \<not> readopen (pipes s a) \<and> \<not> writeopen (pipes s a) then
       bindE (delete_memobj a (mhead s MLpip) 0 s) (\<lambda>s.
       bindE (delete_memobj (lock_at s (LkPipe a)) (mhead s MLspn) 0 s) (kfree a))
     else Inr s)))"

section \<open>The ring is a queue\<close>

interpretation pring: byte_ring PIPESIZE
  by unfold_locales simp_all

definition fill :: "pipe \<Rightarrow> nat" where
  "fill p = dist (nread p) (nwrite p)"

definition pipe_ok :: "pipe \<Rightarrow> bool" where
  "pipe_ok p \<longleftrightarrow> fill p \<le> PIPESIZE"

definition content :: "pipe \<Rightarrow> u8 list" where
  "content p = ring_list PIPESIZE (pdata p) (nread p) (fill p)"

lemma length_content [simp]: "length (content p) = fill p"
  by (simp add: content_def)

lemma pipe_empty_iff: "pipe_empty p \<longleftrightarrow> content p = []"
  using dist_eq_0 [of "nread p" "nwrite p"] length_content [of p]
  by (auto simp: pipe_empty_def fill_def simp del: length_content)

lemma pipe_full_iff: "pipe_full p \<longleftrightarrow> fill p = PIPESIZE"
  using dist_eq [of PIPESIZE "nread p" "nwrite p"] by (simp add: pipe_full_def fill_def)

lemma put_byte_content:
  assumes "pipe_ok p" and "\<not> pipe_full p"
  shows "content (put_byte ch p) = content p @ [ch]" and "pipe_ok (put_byte ch p)"
proof -
  have f: "dist (nread p) (nwrite p) < PIPESIZE"
    using assms by (simp add: pipe_ok_def pipe_full_iff fill_def)
  then have "dist (nread p) (nwrite p + 1) = Suc (dist (nread p) (nwrite p))" by (simp add: dist_push)
  then show "pipe_ok (put_byte ch p)" using f by (simp add: pipe_ok_def fill_def put_byte_def)
  show "content (put_byte ch p) = content p @ [ch]"
    using pring.ring_put [OF f, of "pdata p" ch] by (simp add: content_def fill_def put_byte_def)
qed

lemma get_byte_content:
  assumes "pipe_ok p" and "\<not> pipe_empty p" and "get_byte p = (ch, p')"
  shows "content p = ch # content p'" and "pipe_ok p'"
proof -
  have ne: "nread p \<noteq> nwrite p" using assms(2) by (simp add: pipe_empty_def)
  have e: "ch = pdata p (slot PIPESIZE (nread p))" "p' = p\<lparr>nread := nread p + 1\<rparr>"
    using assms(3) by (simp_all add: get_byte_def)
  show "content p = ch # content p'"
    using pring.ring_get [OF ne, of "pdata p"] by (simp add: e content_def fill_def)
  show "pipe_ok p'"
    using assms(1) dist_pop [OF ne] by (simp add: e pipe_ok_def fill_def)
qed

text \<open>What one call adds: the bytes \<open>src i\<close> up to where it stopped.\<close>

lemma pipewrite_loop_content:
  "pipewrite_loop src dead n k i p = (e, p') \<Longrightarrow> pipe_ok p \<Longrightarrow>
   \<exists>j. i \<le> j \<and> j \<le> i + k \<and> pipe_ok p' \<and> content p' = content p @ map (\<lambda>x. the (src x)) [i..<j] \<and>
     (case e of Done r \<Rightarrow> r = n \<and> (j = i + k \<or> src j = None)
      | Abort \<Rightarrow> pipe_full p' \<and> (\<not> readopen p \<or> dead)
      | Asleep m \<Rightarrow> m = j \<and> pipe_full p' \<and> readopen p \<and> \<not> dead)"
proof (induction src dead n k i p rule: pipewrite_loop.induct)
  case (1 src dead n i p)
  then show ?case by (intro exI [of _ i]) auto
next
  case (2 src dead n k i p)
  show ?case
  proof (cases "pipe_full p")
    case True
    then show ?thesis using 2(2,3) by (intro exI [of _ i]) (auto split: if_splits)
  next
    case False
    show ?thesis
    proof (cases "src i")
      case None
      then show ?thesis using 2(2,3) False by (intro exI [of _ i]) auto
    next
      case (Some ch)
      note pb = put_byte_content [OF 2(3) False, of ch]
      have "pipewrite_loop src dead n k (Suc i) (put_byte ch p) = (e, p')"
        using 2(2) False Some by simp
      from 2(1) [OF False Some this pb(2)] obtain j where j: "Suc i \<le> j" "j \<le> Suc i + k" "pipe_ok p'"
        "content p' = content (put_byte ch p) @ map (\<lambda>x. the (src x)) [Suc i..<j]"
        "case e of Done r \<Rightarrow> r = n \<and> (j = Suc i + k \<or> src j = None)
          | Abort \<Rightarrow> pipe_full p' \<and> (\<not> readopen (put_byte ch p) \<or> dead)
          | Asleep m \<Rightarrow> m = j \<and> pipe_full p' \<and> readopen (put_byte ch p) \<and> \<not> dead" by blast
      have "[i..<j] = i # [Suc i..<j]" using j(1) by (simp add: upt_conv_Cons)
      then show ?thesis using j pb(1) Some
        by (intro exI [of _ j]) (auto simp: put_byte_def split: io_end.splits)
    qed
  qed
qed

lemma piperead_copy_content:
  "piperead_copy dst k i p = (out, j, p') \<Longrightarrow> pipe_ok p \<Longrightarrow>
   \<exists>lost. content p = out @ lost @ content p' \<and> pipe_ok p' \<and> j = i + length out \<and> length lost \<le> 1 \<and>
     (lost \<noteq> [] \<longrightarrow> \<not> dst j) \<and> (length out < k \<longrightarrow> lost = [] \<longrightarrow> content p' = [])"
proof (induction dst k i p arbitrary: out rule: piperead_copy.induct)
  case (1 dst i p)
  then show ?case by auto
next
  case (2 dst k i p)
  show ?case
  proof (cases "pipe_empty p")
    case True
    then show ?thesis using 2(2,3) by (auto simp: pipe_empty_iff)
  next
    case False
    obtain ch q where g: "get_byte p = (ch, q)" by (cases "get_byte p")
    note gb = get_byte_content [OF 2(3) False g]
    show ?thesis
    proof (cases "dst i")
      case False
      then show ?thesis using 2(2) \<open>\<not> pipe_empty p\<close> g gb by (intro exI [of _ "[ch]"]) auto
    next
      case True
      obtain r where r: "piperead_copy dst k (Suc i) q = (r, j, p')" "out = ch # r"
        using 2(2) True \<open>\<not> pipe_empty p\<close> g by (auto split: prod.splits)
      from 2(1) [OF False g [symmetric] refl _ r(1) gb(2)] True
      show ?thesis using r(2) gb(1) by auto
    qed
  qed
qed

text \<open>
  A life of a pipe: writers and readers call in any order; \<open>w\<close> are the bytes taken from the
  writers, \<open>r\<close> the bytes delivered to the readers.
\<close>

inductive pipe_run :: "pipe \<Rightarrow> u8 list \<Rightarrow> u8 list \<Rightarrow> bool" where
  start: "nread p = nwrite p \<Longrightarrow> pipe_run p [] []"
| wr: "pipe_run p w r \<Longrightarrow> pipewrite_loop src dead n k i p = (e, p') \<Longrightarrow>
    pipe_run p' (w @ map (\<lambda>x. the (src x)) [i..<i + (fill p' - fill p)]) r"
| rd: "pipe_run p w r \<Longrightarrow> piperead_copy (\<lambda>_. True) k 0 p = (out, j, p') \<Longrightarrow> pipe_run p' w (r @ out)"
| cl: "pipe_run p w r \<Longrightarrow> pipe_run (close_end b p) w r"

inductive_cases pipe_runE: "pipe_run p w r"

lemma close_end_same [simp]:
  "content (close_end b p) = content p" "pipe_ok (close_end b p) = pipe_ok p" "fill (close_end b p) = fill p"
  by (simp_all add: close_end_def content_def pipe_ok_def fill_def)

lemma pipe_run_queue: "pipe_run p w r \<Longrightarrow> pipe_ok p \<and> w = r @ content p"
proof (induction rule: pipe_run.induct)
  case (start p)
  then show ?case by (simp add: pipe_ok_def content_def fill_def)
next
  case (wr p w r src dead n k i e p')
  then obtain j where j: "i \<le> j" "pipe_ok p'" "content p' = content p @ map (\<lambda>x. the (src x)) [i..<j]"
    using pipewrite_loop_content [OF wr(2)] by blast
  have "fill p' = fill p + (j - i)" using arg_cong [OF j(3), of length] by simp
  then have "i + (fill p' - fill p) = j" using j(1) by simp
  then show ?case using wr.IH j by simp
next
  case (rd p w r k out j p')
  then show ?case using piperead_copy_content [OF rd(2)] by auto
next
  case (cl p w r b)
  then show ?case by simp
qed


definition demo_pipe :: pipe where
  "demo_pipe = \<lparr>pdata = (\<lambda>_. 0), nread = 0xFFFFFFFF, nwrite = 0xFFFFFFFF, readopen = True, writeopen = True\<rparr>"

lemma demo_write: "pipewrite_loop (\<lambda>i. Some (of_nat i + 65)) False 2 (Suc (Suc 0)) 0 demo_pipe =
    (Done 2, put_byte 66 (put_byte 65 demo_pipe))"
  by (simp add: pipe_full_def demo_pipe_def put_byte_def)


text \<open>
  When \<open>copyin\<close> fails, or \<open>copyout\<close> fails, bytes are lost without an error: the writer is
  told that all its bytes were written, and the byte that could not be delivered is gone.
\<close>

lemma pipewrite_hides_failure:
  "\<not> pipe_full p \<Longrightarrow> src i = None \<Longrightarrow> pipewrite_loop src dead n (Suc k) i p = (Done n, p)"
  by simp

lemma piperead_drops_byte:
  "\<not> pipe_empty p \<Longrightarrow> \<not> dst i \<Longrightarrow> piperead_copy dst (Suc k) i p = ([], i, snd (get_byte p))"
  by (simp add: split_beta)

end
