(* ===== verification/Console.thy ===== *)
theory Console
  imports Pipe
begin

text \<open>
  \<open>kernel/console.c\<close>: the input ring of the console with its read, write and edit counters,
  the line discipline of \<open>consoleintr\<close> and the loop of \<open>consoleread\<close>. The ring is proved
  to behave as a line editor: a list of committed bytes and a line under construction.
\<close>

section \<open>State\<close>

abbreviation INPUT_BUF :: nat where "INPUT_BUF \<equiv> 128"

record cons =
  cbuf :: "nat \<Rightarrow> u8"
  cr :: u32
  cw :: u32
  ce :: u32

record consstate = pipestate +
  cons :: cons

abbreviation NL :: u8 where "NL \<equiv> 10"
abbreviation CR :: u8 where "CR \<equiv> 13"
abbreviation CTRL_D :: u8 where "CTRL_D \<equiv> 4"
abbreviation CTRL_H :: u8 where "CTRL_H \<equiv> 8"
abbreviation CTRL_P :: u8 where "CTRL_P \<equiv> 16"
abbreviation CTRL_U :: u8 where "CTRL_U \<equiv> 21"
abbreviation DEL :: u8 where "DEL \<equiv> 127"

section \<open>Output\<close>

text \<open>What \<open>consputc\<close> sends to the uart; \<open>None\<close> is \<open>BACKSPACE\<close>.\<close>

definition consputc :: "u8 option \<Rightarrow> u8 list" where
  "consputc c = (case c of None \<Rightarrow> [8, 32, 8] | Some c \<Rightarrow> [c])"

fun consolewrite_loop :: "(nat \<Rightarrow> u8 option) \<Rightarrow> nat \<Rightarrow> nat \<Rightarrow> u8 list" where
  "consolewrite_loop src 0 i = []"
| "consolewrite_loop src (Suc k) i = (case src i of None \<Rightarrow> []
     | Some c \<Rightarrow> consputc (Some c) @ consolewrite_loop src k (Suc i))"

definition consolewrite ::
  "(nat \<Rightarrow> u8 option) \<Rightarrow> int \<Rightarrow> 'a consstate_scheme \<Rightarrow> (u8 list \<times> int \<times> 'a consstate_scheme) res" where
  "consolewrite src n s =
     bindE (enter_recovery_critical_section RL_CONS 0 s) (\<lambda>s.
     bindE (acquire LkCons s) (\<lambda>s.
     let out = consolewrite_loop src (nat n) 0 in
     bindE (release LkCons s) (\<lambda>s.
     bindE (exit_recovery_critical_section RL_CONS 0 s) (\<lambda>s. Inr (out, n, s)))))"

section \<open>Input\<close>

function kill_line :: "cons \<Rightarrow> u8 list \<times> cons" where
  "kill_line c =
     (if ce c \<noteq> cw c \<and> cbuf c (slot INPUT_BUF (ce c - 1)) \<noteq> NL then
        (let (o1, c') = kill_line (c\<lparr>ce := ce c - 1\<rparr>) in (consputc None @ o1, c'))
      else ([], c))"
  by pat_completeness auto
termination
proof (relation "measure (\<lambda>c. dist (cw c) (ce c))")
  fix c :: cons
  assume "ce c \<noteq> cw c \<and> cbuf c (slot INPUT_BUF (ce c - 1)) \<noteq> NL"
  then have "dist (cw c) (ce c - 1) = dist (cw c) (ce c) - 1" "dist (cw c) (ce c) \<noteq> 0"
    by (auto simp: dist_back dist_eq_0)
  then show "(c\<lparr>ce := ce c - 1\<rparr>, c) \<in> measure (\<lambda>c. dist (cw c) (ce c))" by simp
qed simp

declare kill_line.simps [simp del]

text \<open>
  One key: the echo, whether a line is complete (\<open>wakeup(&cons->r)\<close>), and the new ring.
  What \<open>procdump\<close> prints on control-P is left out.
\<close>

definition key :: "u8 \<Rightarrow> cons \<Rightarrow> u8 list \<times> bool \<times> cons" where
  "key c k =
     (if c = CTRL_P then ([], False, k)
      else if c = CTRL_U then (let (o1, k) = kill_line k in (o1, False, k))
      else if c = CTRL_H \<or> c = DEL then
        (if ce k \<noteq> cw k then (consputc None, False, k\<lparr>ce := ce k - 1\<rparr>) else ([], False, k))
      else if c \<noteq> 0 \<and> ce k - cr k < of_nat INPUT_BUF then
        (let c = (if c = CR then NL else c);
             k = k\<lparr>cbuf := (cbuf k)(slot INPUT_BUF (ce k) := c), ce := ce k + 1\<rparr> in
         if c = NL \<or> c = CTRL_D \<or> ce k = cr k + of_nat INPUT_BUF
         then (consputc (Some c), True, k\<lparr>cw := ce k\<rparr>)
         else (consputc (Some c), False, k))
      else ([], False, k))"

definition consoleintr :: "u8 \<Rightarrow> 'a consstate_scheme \<Rightarrow> (u8 list \<times> 'a consstate_scheme) res" where
  "consoleintr c s =
     bindE (enter_recovery_critical_section RL_CONS 0 s) (\<lambda>s.
     bindE (acquire LkCons s) (\<lambda>s.
     let (out, line, k) = key c (cons s); s = s\<lparr>cons := k\<rparr> in
     bindE (if line then wakeup ChCons s else Inr s) (\<lambda>s.
     bindE (release LkCons s) (\<lambda>s.
     bindE (exit_recovery_critical_section RL_CONS 0 s) (\<lambda>s. Inr (out, s))))))"

text \<open>
  The loop of \<open>consoleread\<close> with \<open>n\<close> bytes still wanted out of \<open>target\<close>; \<open>dst i\<close>:
  whether \<open>either_copyout\<close> of byte \<open>i\<close> succeeds.
\<close>

fun consoleread_loop :: "(nat \<Rightarrow> bool) \<Rightarrow> bool \<Rightarrow> nat \<Rightarrow> nat \<Rightarrow> cons \<Rightarrow> u8 list \<times> io_end \<times> cons" where
  "consoleread_loop dst dead target 0 k = ([], Done (int target), k)"
| "consoleread_loop dst dead target (Suc n) k =
     (if cr k = cw k then ([], if dead then Abort else Asleep (Suc n), k)
      else let c = cbuf k (slot INPUT_BUF (cr k)); k' = k\<lparr>cr := cr k + 1\<rparr>; got = int target - int (Suc n) in
        if c = CTRL_D then ([], Done got, if Suc n < target then k else k')
        else if \<not> dst (target - Suc n) then ([], Done got, k')
        else if c = NL then ([c], Done (got + 1), k')
        else let (out, e, k) = consoleread_loop dst dead target n k' in (c # out, e, k))"

definition consoleread_locked ::
  "(nat \<Rightarrow> bool) \<Rightarrow> nat \<Rightarrow> nat \<Rightarrow> 'a consstate_scheme \<Rightarrow> (u8 list \<times> io_end \<times> 'a consstate_scheme) res" where
  "consoleread_locked dst target n s = bindE (cur_killed s) (\<lambda>dead.
     let (out, e, k) = consoleread_loop dst dead target n (cons s); s = s\<lparr>cons := k\<rparr> in
     bindE (case e of
         Asleep _ \<Rightarrow> sleep_enter ChCons LkCons s
       | _ \<Rightarrow> bindE (release LkCons s) (exit_recovery_critical_section RL_CONS 0))
     (\<lambda>s. Inr (out, e, s)))"

definition consoleread where
  "consoleread dst n s = bindE (enter_recovery_critical_section RL_CONS 0 s) (\<lambda>s.
     bindE (acquire LkCons s) (consoleread_locked dst n n))"

definition consoleinit :: "'a consstate_scheme \<Rightarrow> 'a consstate_scheme res" where
  "consoleinit s = initlock LkCons ''cons'' s"

section \<open>The line editor\<close>

interpretation cring: byte_ring INPUT_BUF
  by unfold_locales simp_all

definition committed :: "cons \<Rightarrow> u8 list" where
  "committed k = ring_list INPUT_BUF (cbuf k) (cr k) (dist (cr k) (cw k))"

definition edited :: "cons \<Rightarrow> u8 list" where
  "edited k = ring_list INPUT_BUF (cbuf k) (cw k) (dist (cw k) (ce k))"

definition cons_ok :: "cons \<Rightarrow> bool" where
  "cons_ok k \<longleftrightarrow> dist (cr k) (ce k) = dist (cr k) (cw k) + dist (cw k) (ce k) \<and>
     dist (cr k) (ce k) \<le> INPUT_BUF \<and> NL \<notin> set (edited k)"

text \<open>The same key on the two lists.\<close>

definition edit :: "u8 \<Rightarrow> u8 list \<times> u8 list \<Rightarrow> u8 list \<times> u8 list" where
  "edit c x = (case x of (done, line) \<Rightarrow>
     if c = CTRL_P then (done, line)
     else if c = CTRL_U then (done, [])
     else if c = CTRL_H \<or> c = DEL then (done, butlast line)
     else if c \<noteq> 0 \<and> length done + length line < INPUT_BUF then
       (let c = (if c = CR then NL else c) in
        if c = NL \<or> c = CTRL_D \<or> length done + length line + 1 = INPUT_BUF
        then (done @ line @ [c], []) else (done, line @ [c]))
     else (done, line))"

definition cons_abs :: "cons \<Rightarrow> u8 list \<times> u8 list" where
  "cons_abs k = (committed k, edited k)"

lemma cons_lengths [simp]:
  "length (committed k) = dist (cr k) (cw k)" "length (edited k) = dist (cw k) (ce k)"
  by (simp_all add: committed_def edited_def)

lemma edited_back:
  assumes "ce k \<noteq> cw k"
  shows "edited k = edited (k\<lparr>ce := ce k - 1\<rparr>) @ [cbuf k (slot INPUT_BUF (ce k - 1))]"
    and "committed (k\<lparr>ce := x\<rparr>) = committed k"
proof -
  have d: "dist (cw k) (ce k) = Suc (dist (cw k) (ce k - 1))"
    using assms dist_back [of "cw k" "ce k"] dist_eq_0 [of "cw k" "ce k"] by auto
  have "cw k + of_nat (dist (cw k) (ce k - 1)) = ce k - 1" using dist_add by metis
  then show "edited k = edited (k\<lparr>ce := ce k - 1\<rparr>) @ [cbuf k (slot INPUT_BUF (ce k - 1))]"
    by (simp add: edited_def d ring_list_snoc)
qed (simp add: committed_def)

lemma cons_ok_back:
  assumes "cons_ok k" and "ce k \<noteq> cw k"
  shows "cons_ok (k\<lparr>ce := ce k - 1\<rparr>)"
proof -
  have "dist (cw k) (ce k) = Suc (dist (cw k) (ce k - 1))"
    using assms(2) dist_back [of "cw k" "ce k"] dist_eq_0 [of "cw k" "ce k"] by auto
  moreover have "cr k \<noteq> ce k"
    using assms dist_eq_0 [of "cr k" "ce k"] dist_eq_0 [of "cw k" "ce k"] by (auto simp: cons_ok_def)
  ultimately show ?thesis
    using assms(1) edited_back(1) [OF assms(2)] dist_back [of "cr k" "ce k"] by (auto simp: cons_ok_def)
qed

lemma kill_line_abs: "cons_ok k \<Longrightarrow> cons_abs (snd (kill_line k)) = (committed k, []) \<and> cons_ok (snd (kill_line k))"
proof (induction k rule: kill_line.induct)
  case (1 k)
  show ?case
  proof (cases "ce k = cw k")
    case True
    then show ?thesis using 1(2)
      by (subst (1 2) kill_line.simps) (simp add: cons_abs_def edited_def)
  next
    case False
    have "cbuf k (slot INPUT_BUF (ce k - 1)) \<in> set (edited k)" using edited_back(1) [OF False] by simp
    then have n: "cbuf k (slot INPUT_BUF (ce k - 1)) \<noteq> NL" using 1(2) by (auto simp: cons_ok_def)
    have "snd (kill_line k) = snd (kill_line (k\<lparr>ce := ce k - 1\<rparr>))"
      using False n by (subst kill_line.simps) (simp add: split_beta)
    then show ?thesis
      using 1(1) [OF _ cons_ok_back [OF 1(2) False]] False n edited_back(2) [OF False] by simp
  qed
qed

lemma room_iff: "ce k - cr k < 128 \<longleftrightarrow> dist (cr k) (ce k) < INPUT_BUF"
  by (simp add: dist_def word_less_nat_alt)

text \<open>Storing a byte at the edit counter.\<close>

lemma store_abs:
  fixes c :: u8
  assumes "cons_ok k" and "dist (cr k) (ce k) < INPUT_BUF"
    and k'_def: "k' = k\<lparr>cbuf := (cbuf k)(slot INPUT_BUF (ce k) := c), ce := ce k + 1\<rparr>"
  shows "committed k' = committed k" and "edited k' = edited k @ [c]"
    and "dist (cr k) (ce k + 1) = Suc (dist (cr k) (ce k))" and "dist (cw k) (ce k + 1) = Suc (dist (cw k) (ce k))"
    and "committed (k'\<lparr>cw := ce k + 1\<rparr>) = committed k @ edited k @ [c]"
proof -
  let ?a = "dist (cr k) (cw k)" and ?b = "dist (cw k) (ce k)"
  have d: "dist (cr k) (ce k) = ?a + ?b" using assms(1) by (simp add: cons_ok_def)
  have b: "?b < INPUT_BUF" "?a + ?b < INPUT_BUF" using assms(2) d by simp_all
  have er: "ce k = cr k + of_nat (?a + ?b)" using dist_add [of "ce k" "cr k"] d by simp
  show 1: "dist (cr k) (ce k + 1) = Suc (dist (cr k) (ce k))" using assms(2) by (simp add: dist_push)
  show 2: "dist (cw k) (ce k + 1) = Suc (dist (cw k) (ce k))" using b by (simp add: dist_push)
  have upd: "ring_list INPUT_BUF ((cbuf k)(slot INPUT_BUF (ce k) := c)) (cr k) ?a =
      ring_list INPUT_BUF (cbuf k) (cr k) ?a"
    using cring.ring_list_upd [of ?a "?a + ?b" "cbuf k" "cr k" c] b(2) by (simp only: er [symmetric])
  then show "committed k' = committed k" by (simp add: committed_def k'_def)
  show "edited k' = edited k @ [c]"
    using cring.ring_put [OF b(1), of "cbuf k" c] by (simp add: edited_def k'_def)
  have "ring_list INPUT_BUF ((cbuf k)(slot INPUT_BUF (ce k) := c)) (cr k) (dist (cr k) (ce k + 1)) =
      ring_list INPUT_BUF (cbuf k) (cr k) (?a + ?b) @ [c]"
    using cring.ring_put [OF assms(2), of "cbuf k" c] d by simp
  then show "committed (k'\<lparr>cw := ce k + 1\<rparr>) = committed k @ edited k @ [c]"
    using dist_add [of "cw k" "cr k"]
    by (simp add: committed_def edited_def k'_def ring_list_append)
qed

lemma full_iff: "dist r e = INPUT_BUF \<longleftrightarrow> e = r + of_nat INPUT_BUF"
  by (rule dist_eq) simp

text \<open>
  C27. The console's ring buffer with its three indices behaves as a line editor: a state of two
  byte strings, the lines handed over to readers and the line being edited, on which each key
  acts as its specification says; a line is handed over exactly at its end.
\<close>

theorem console_is_line_editor:
  assumes "cons_ok k" and "key c k = (out, line, k')"
  shows "cons_ok k' \<and> cons_abs k' = edit c (cons_abs k)"
proof -
  consider "c = CTRL_P" | "c = CTRL_U" | "c = CTRL_H \<or> c = DEL"
    | (plain) "c \<noteq> CTRL_P" "c \<noteq> CTRL_U" "c \<noteq> CTRL_H" "c \<noteq> DEL" by blast
  then show ?thesis
  proof cases
    case 1
    then show ?thesis using assms by (simp add: key_def edit_def cons_abs_def)
  next
    case 2
    then have "k' = snd (kill_line k)" using assms(2) by (simp add: key_def split_beta)
    then show ?thesis using kill_line_abs [OF assms(1)] 2 by (simp add: edit_def cons_abs_def)
  next
    case 3
    then have k': "k' = (if ce k \<noteq> cw k then k\<lparr>ce := ce k - 1\<rparr> else k)"
      using assms(2) by (auto simp: key_def split: if_splits)
    have "edited k = []" if "ce k = cw k" using that by (simp add: edited_def)
    then show ?thesis using assms(1) cons_ok_back edited_back 3 unfolding k'
      by (auto simp: edit_def cons_abs_def)
  next
    case plain
    let ?c = "if c = CR then NL else c"
    let ?k = "k\<lparr>cbuf := (cbuf k)(slot INPUT_BUF (ce k) := ?c), ce := ce k + 1\<rparr>"
    have len: "length (committed k) + length (edited k) = dist (cr k) (ce k)"
      using assms(1) by (simp add: cons_ok_def)
    show ?thesis
    proof (cases "c \<noteq> 0 \<and> dist (cr k) (ce k) < INPUT_BUF")
      case False
      then have "k' = k" using assms(2) plain by (auto simp: key_def room_iff)
      then show ?thesis using assms(1) False plain len by (auto simp: edit_def cons_abs_def)
    next
      case True
      note st = store_abs [of k ?k ?c, OF assms(1) conjunct2 [OF True] refl]
      have full: "ce k + 1 = cr k + of_nat INPUT_BUF \<longleftrightarrow> Suc (dist (cr k) (ce k)) = INPUT_BUF"
        using full_iff [of "cr k" "ce k + 1"] st(3) by simp
      show ?thesis
      proof (cases "?c = NL \<or> ?c = CTRL_D \<or> Suc (dist (cr k) (ce k)) = INPUT_BUF")
        case c: True
        then have "k' = ?k\<lparr>cw := ce k + 1\<rparr>"
          using assms(2) plain True full by (auto simp: key_def room_iff Let_def split: if_splits)
        then show ?thesis using st plain True len c
          by (auto simp: edit_def cons_abs_def cons_ok_def Let_def edited_def)
      next
        case c: False
        then have "k' = ?k"
          using assms(2) plain True full by (auto simp: key_def room_iff Let_def split: if_splits)
        then show ?thesis using assms(1) st plain True len c
          by (auto simp: edit_def cons_abs_def cons_ok_def Let_def)
      qed
    qed
  qed
qed

definition demo_cons :: cons where
  "demo_cons = \<lparr>cbuf = (\<lambda>_. 0), cr = 0xFFFFFFFF, cw = 0xFFFFFFFF, ce = 0xFFFFFFFF\<rparr>"

theorem console_is_line_editor_witness:
  "cons_abs (snd (snd (key 65 demo_cons))) = ([], [65])"
proof -
  have "cons_ok demo_cons" by (simp add: cons_ok_def edited_def demo_cons_def)
  moreover have "cons_abs demo_cons = ([], [])"
    by (simp add: cons_abs_def committed_def edited_def demo_cons_def)
  ultimately show ?thesis
    using console_is_line_editor [of demo_cons 65 "fst (key 65 demo_cons)" "fst (snd (key 65 demo_cons))"
      "snd (snd (key 65 demo_cons))"] by (simp add: edit_def)
qed

section \<open>Reading\<close>

lemma take_abs:
  assumes "cons_ok k" and "cr k \<noteq> cw k"
  shows "committed k = cbuf k (slot INPUT_BUF (cr k)) # committed (k\<lparr>cr := cr k + 1\<rparr>)"
    and "edited (k\<lparr>cr := cr k + 1\<rparr>) = edited k" and "cons_ok (k\<lparr>cr := cr k + 1\<rparr>)"
proof -
  show "committed k = cbuf k (slot INPUT_BUF (cr k)) # committed (k\<lparr>cr := cr k + 1\<rparr>)"
    using cring.ring_get [OF assms(2)] by (simp add: committed_def)
  show e: "edited (k\<lparr>cr := cr k + 1\<rparr>) = edited k" by (simp add: edited_def)
  have "dist (cr k) (cw k) \<noteq> 0" using assms(2) by (simp add: dist_eq_0)
  moreover from this have "cr k \<noteq> ce k"
    using assms(1) dist_eq_0 [of "cr k" "ce k"] by (auto simp: cons_ok_def)
  ultimately show "cons_ok (k\<lparr>cr := cr k + 1\<rparr>)"
    using assms dist_pop [OF assms(2)] dist_pop [of "cr k" "ce k"] e by (auto simp: cons_ok_def)
qed

lemma consoleread_loop_abs:
  "consoleread_loop (\<lambda>_. True) dead target n k = (out, e, k') \<Longrightarrow> cons_ok k \<Longrightarrow>
   cons_ok k' \<and> edited k' = edited k \<and> CTRL_D \<notin> set out \<and> NL \<notin> set (butlast out) \<and>
   (\<exists>eof. (eof = [] \<or> eof = [CTRL_D]) \<and> committed k = out @ eof @ committed k')"
proof (induction "\<lambda>_::nat. True" dead target n k arbitrary: out rule: consoleread_loop.induct)
  case (1 dead target k)
  then show ?case by auto
next
  case (2 dead target n k)
  let ?c = "cbuf k (slot INPUT_BUF (cr k))" and ?k = "k\<lparr>cr := cr k + 1\<rparr>"
  show ?case
  proof (cases "cr k = cw k")
    case True
    then show ?thesis using 2(2,3) by auto
  next
    case False
    note ta = take_abs [OF 2(3) False]
    consider (eof) "?c = CTRL_D" | (nl) "?c = NL" | (more) "?c \<noteq> CTRL_D" "?c \<noteq> NL" by blast
    then show ?thesis
    proof cases
      case eof
      then show ?thesis using 2(2,3) False ta by (auto simp: Let_def split: if_splits)
    next
      case nl
      then show ?thesis using 2(2,3) False ta by (auto simp: Let_def)
    next
      case more
      then obtain r where r: "consoleread_loop (\<lambda>_. True) dead target n ?k = (r, e, k')" "out = ?c # r"
        using 2(2) False by (auto simp: Let_def split: prod.splits)
      from 2(1) [OF False refl refl refl more(1) _ more(2) r(1) ta(3)] show ?thesis
        using r(2) more ta by auto
    qed
  qed
qed

end
