(* ===== verification/Log.thy ===== *)
theory Log
  imports Console
begin

text \<open>
  \<open>kernel/log.c\<close>: the redo log. A block is its 256 words; the disk, the contents of the
  cached buffers and the order of the disk writes are kept in a \<open>journal\<close>. \<open>bread\<close> is used
  through its contract: it delivers the cached contents of the block, or those on disk. The
  journal operations are functions of \<open>log->start\<close> and the in-memory log header; the calls
  around them work on the kernel state. The main theorem: wherever the machine stops during a
  commit, recovery installs all of the transaction or nothing of it.
\<close>

section \<open>The disk\<close>

type_synonym blk = "nat \<Rightarrow> int"

record journal =
  jdisk :: "int \<Rightarrow> blk"
  jcache :: "int \<Rightarrow> blk option"
  jpins :: "int \<Rightarrow> int"              \<comment> \<open>references held by the log (\<open>bpin\<close>)\<close>
  jtrace :: "(int \<times> blk) list"       \<comment> \<open>the disk writes so far\<close>

definition buf_data :: "int \<Rightarrow> journal \<Rightarrow> blk" where
  "buf_data b j = (case jcache j b of Some x \<Rightarrow> x | None \<Rightarrow> jdisk j b)"

definition buf_set :: "int \<Rightarrow> blk \<Rightarrow> journal \<Rightarrow> journal" where
  "buf_set b x j = j\<lparr>jcache := (jcache j)(b := Some x)\<rparr>"

definition buf_write :: "int \<Rightarrow> journal \<Rightarrow> journal" where
  "buf_write b j = j\<lparr>jdisk := (jdisk j)(b := buf_data b j), jtrace := jtrace j @ [(b, buf_data b j)]\<rparr>"

definition copy_block :: "int \<Rightarrow> int \<Rightarrow> journal \<Rightarrow> journal" where
  "copy_block dst src j = buf_write dst (buf_set dst (buf_data src j) j)"

definition unpin :: "int \<Rightarrow> journal \<Rightarrow> journal" where
  "unpin b j = j\<lparr>jpins := (jpins j)(b := jpins j b - 1)\<rparr>"

section \<open>Journal operations\<close>

definition install_one :: "int \<Rightarrow> loghdr \<Rightarrow> nat \<Rightarrow> journal \<Rightarrow> journal" where
  "install_one st h i j = unpin (lh_block h i) (copy_block (lh_block h i) (st + int i + 1) j)"

definition install_trans :: "int \<Rightarrow> loghdr \<Rightarrow> journal \<Rightarrow> journal" where
  "install_trans st h j = fold (install_one st h) [0..<nat (lh_n h)] j"

text \<open>The header as it is laid out in its block: the count, then the block numbers.\<close>

definition head_block :: "loghdr \<Rightarrow> blk \<Rightarrow> blk" where
  "head_block h x = (\<lambda>i. if i = 0 then lh_n h else if i \<le> nat (lh_n h) then lh_block h (i - 1) else x i)"

definition head_of_block :: "blk \<Rightarrow> loghdr \<Rightarrow> loghdr" where
  "head_of_block x h = \<lparr>lh_n = x 0, lh_block = (\<lambda>i. if i < nat (x 0) then x (Suc i) else lh_block h i)\<rparr>"

definition write_head :: "int \<Rightarrow> loghdr \<Rightarrow> journal \<Rightarrow> journal" where
  "write_head st h j = buf_write st (buf_set st (head_block h (buf_data st j)) j)"

definition write_log :: "int \<Rightarrow> loghdr \<Rightarrow> journal \<Rightarrow> journal" where
  "write_log st h j = fold (\<lambda>i. copy_block (st + int i + 1) (lh_block h i)) [0..<nat (lh_n h)] j"

definition commit_journal :: "int \<Rightarrow> loghdr \<Rightarrow> journal \<Rightarrow> journal" where
  "commit_journal st h j =
     (if lh_n h > 0
      then write_head st (h\<lparr>lh_n := 0\<rparr>) (install_trans st h (write_head st h (write_log st h j)))
      else j)"

definition replay_journal :: "int \<Rightarrow> loghdr \<Rightarrow> journal \<Rightarrow> journal" where
  "replay_journal st h j = write_head st (h\<lparr>lh_n := 0\<rparr>) (install_trans st h j)"

section \<open>The calls\<close>

record logstate = consstate +
  jr :: journal

definition set_lh :: "(loghdr \<Rightarrow> loghdr) \<Rightarrow> 'a logstate_scheme \<Rightarrow> 'a logstate_scheme" where
  "set_lh f s = s\<lparr>klog := (klog s)\<lparr>lh := f (lh (klog s))\<rparr>, dup_lhdr := f (dup_lhdr s)\<rparr>"

definition read_head :: "'a logstate_scheme \<Rightarrow> 'a logstate_scheme res" where
  "read_head s = bindE (enter_trans_log s) (\<lambda>s.
     exit_trans_log (set_lh (head_of_block (buf_data (lstart (klog s)) (jr s))) s))"

definition recover_from_log :: "'a logstate_scheme \<Rightarrow> 'a logstate_scheme res" where
  "recover_from_log s = bindE (read_head s) (\<lambda>s.
     Inr (set_lh (lh_n_update (\<lambda>_. 0)) (s\<lparr>jr := replay_journal (lstart (klog s)) (lh (klog s)) (jr s)\<rparr>)))"

definition initlog :: "nat \<Rightarrow> int \<Rightarrow> int \<Rightarrow> int \<Rightarrow> 'a logstate_scheme \<Rightarrow> 'a logstate_scheme res" where
  "initlog log_at dev st n s =
     bindE (register_memobj log_at (mhead s MLlog) s) (\<lambda>s.
     bindE (initlock LkLog ''log'' s) (\<lambda>s.
       recover_from_log (s\<lparr>klog := (klog s)\<lparr>lstart := st, lsize := n, ldev := dev\<rparr>\<rparr>)))"

definition commit :: "'a logstate_scheme \<Rightarrow> 'a logstate_scheme" where
  "commit s = (if lh_n (lh (klog s)) > 0
     then set_lh (lh_n_update (\<lambda>_. 0)) (s\<lparr>jr := commit_journal (lstart (klog s)) (lh (klog s)) (jr s)\<rparr>)
     else s)"

definition add_outstanding :: "int \<Rightarrow> 'a logstate_scheme \<Rightarrow> 'a logstate_scheme" where
  "add_outstanding d s = s\<lparr>klog := (klog s)\<lparr>outstanding := outstanding (klog s) + d\<rparr>,
     dup_outstanding := dup_outstanding s + d\<rparr>"

definition set_committing :: "bool \<Rightarrow> 'a logstate_scheme \<Rightarrow> 'a logstate_scheme" where
  "set_committing b s = s\<lparr>klog := (klog s)\<lparr>committing := b\<rparr>\<rparr>"

text \<open>Where \<open>begin_op\<close> has to wait, it sleeps and starts over.\<close>

definition begin_op :: "'a logstate_scheme \<Rightarrow> 'a logstate_scheme res" where
  "begin_op s = bindE (enter_recovery_critical_section RL_LOG 0 s) (\<lambda>s.
     bindE (acquire LkLog s) (\<lambda>s.
     bindE (if committing (klog s) \<or>
          lh_n (lh (klog s)) + (outstanding (klog s) + 1) * int MAXOPBLOCKS > int LOGSIZE
        then sleep ChLog LkLog s else Inr s) (\<lambda>s.
     bindE (release LkLog (add_outstanding 1 s)) (exit_recovery_critical_section RL_LOG 0))))"

definition end_op :: "'a logstate_scheme \<Rightarrow> 'a logstate_scheme res" where
  "end_op s = bindE (enter_recovery_critical_section RL_LOG 0 s) (\<lambda>s.
     bindE (acquire LkLog s) (\<lambda>s.
     let s = add_outstanding (-1) s in
     if committing (klog s) then Inl (Panic ''log->committing'')
     else let last = (outstanding (klog s) = 0) in
       bindE (if last then Inr (set_committing True s) else wakeup ChLog s) (\<lambda>s.
       bindE (release LkLog s) (\<lambda>s.
       bindE (exit_recovery_critical_section RL_LOG 0 s) (\<lambda>s.
       if \<not> last then Inr s
       else bindE (myproc s) (\<lambda>(mp, s). case mp of None \<Rightarrow> Inl Trap | Some p \<Rightarrow>
         bindE (enter_recovery_critical_section RL_LOG (int (pid (procs s p))) s) (\<lambda>s.
         bindE (exit_recovery_critical_section RL_LOG (int (pid (procs s p))) (commit s)) (\<lambda>s.
         bindE (enter_recovery_critical_section RL_LOG 0 s) (\<lambda>s.
         bindE (acquire LkLog s) (\<lambda>s.
         bindE (wakeup ChLog (set_committing False s)) (\<lambda>s.
         bindE (release LkLog s) (exit_recovery_critical_section RL_LOG 0))))))))))))"

text \<open>The slot of a block in the header: the one it has already, or the next.\<close>

definition log_slot :: "int \<Rightarrow> loghdr \<Rightarrow> nat" where
  "log_slot b h = (case first_idx (\<lambda>i. lh_block h i = b) (nat (lh_n h)) of Some i \<Rightarrow> i | None \<Rightarrow> nat (lh_n h))"

definition log_block :: "nat \<Rightarrow> int \<Rightarrow> bool \<Rightarrow> loghdr \<Rightarrow> loghdr" where
  "log_block i b new h = h\<lparr>lh_block := (lh_block h)(i := b), lh_n := (if new then lh_n h + 1 else lh_n h)\<rparr>"

definition log_write :: "int \<Rightarrow> 'a logstate_scheme \<Rightarrow> 'a logstate_scheme res" where
  "log_write b s = bindE (enter_recovery_critical_section RL_LOG 0 s) (\<lambda>s.
     let h = lh (klog s) in
     if lh_n h \<ge> int LOGSIZE \<or> lh_n h \<ge> lsize (klog s) - 1 then Inl (Panic ''too big a transaction'')
     else if outstanding (klog s) < 1 then Inl (Panic ''log_write outside of trans'')
     else bindE (acquire LkLog s) (\<lambda>s.
       let i = log_slot b h; new = (int i = lh_n h) in
       bindE (enter_trans_log s) (\<lambda>s.
       bindE (exit_trans_log ((set_lh (log_block i b new) s)\<lparr>jr := (if new
           then (jr s)\<lparr>jpins := (jpins (jr s))(b := jpins (jr s) b + 1)\<rparr> else jr s)\<rparr>)) (\<lambda>s.
       bindE (release LkLog s) (exit_recovery_critical_section RL_LOG 0)))))"

section \<open>What the disk sees\<close>

definition apply_writes :: "(int \<times> blk) list \<Rightarrow> (int \<Rightarrow> blk) \<Rightarrow> int \<Rightarrow> blk" where
  "apply_writes ws d = foldl (\<lambda>d (b, x). d(b := x)) d ws"

lemma apply_writes_simps [simp]:
  "apply_writes [] d = d" "apply_writes (w # ws) d = apply_writes ws (d(fst w := snd w))"
  "apply_writes (us @ ws) d = apply_writes ws (apply_writes us d)"
  by (simp_all add: apply_writes_def split_beta)

lemma apply_writes_other: "b \<notin> fst ` set ws \<Longrightarrow> apply_writes ws d b = d b"
  by (induction ws arbitrary: d) auto

lemma apply_writes_fun:
  "\<forall>w \<in> set ws. snd w = G (fst w) \<Longrightarrow> apply_writes ws d b = (if b \<in> fst ` set ws then G b else d b)"
  by (induction ws arbitrary: d) auto

definition ext :: "(int \<times> blk) list \<Rightarrow> journal \<Rightarrow> journal \<Rightarrow> bool" where
  "ext ws j j' \<longleftrightarrow> jtrace j' = jtrace j @ ws \<and> jdisk j' = apply_writes ws (jdisk j)"

lemma ext_refl: "ext [] j j" by (simp add: ext_def)

lemma ext_trans: "ext us j j' \<Longrightarrow> ext ws j' j'' \<Longrightarrow> ext (us @ ws) j j''"
  by (simp add: ext_def)

lemma copy_block_ext: "ext [(t, buf_data f j)] j (copy_block t f j)"
  by (simp add: ext_def copy_block_def buf_write_def buf_set_def buf_data_def)

lemma copy_block_data [simp]: "buf_data b (copy_block t f j) = (if b = t then buf_data f j else buf_data b j)"
  by (simp add: copy_block_def buf_write_def buf_set_def buf_data_def split: option.splits)

lemma unpin_simps [simp]: "ext ws j (unpin b j') = ext ws j j'" "buf_data c (unpin b j) = buf_data c j"
  "jdisk (unpin b j) = jdisk j" "jcache (unpin b j) = jcache j"
  by (simp_all add: unpin_def ext_def buf_data_def cong: option.case_cong)

lemma write_head_ext: "ext [(st, head_block h (buf_data st j))] j (write_head st h j)"
  by (simp add: ext_def write_head_def buf_write_def buf_set_def buf_data_def)

lemma write_head_data [simp]:
  "buf_data b (write_head st h j) = (if b = st then head_block h (buf_data st j) else buf_data b j)"
  by (simp add: write_head_def buf_write_def buf_set_def buf_data_def split: option.splits)

text \<open>A log of \<open>n\<close> blocks: no home block lies in the log.\<close>

definition log_ok :: "int \<Rightarrow> loghdr \<Rightarrow> bool" where
  "log_ok st h \<longleftrightarrow> 0 \<le> lh_n h \<and>
     (\<forall>i < nat (lh_n h). lh_block h i < st \<or> st + lh_n h < lh_block h i)"

lemma write_log_run:
  assumes "log_ok st h" and "m \<le> nat (lh_n h)"
  shows "ext (map (\<lambda>i. (st + int i + 1, buf_data (lh_block h i) j)) [0..<m]) j
      (fold (\<lambda>i. copy_block (st + int i + 1) (lh_block h i)) [0..<m] j) \<and>
    (\<forall>i < m. buf_data (st + int i + 1) (fold (\<lambda>i. copy_block (st + int i + 1) (lh_block h i)) [0..<m] j) =
      buf_data (lh_block h i) j) \<and>
    (\<forall>b. b \<le> st \<or> st + int m < b \<longrightarrow>
      buf_data b (fold (\<lambda>i. copy_block (st + int i + 1) (lh_block h i)) [0..<m] j) = buf_data b j)"
  using assms(2)
proof (induction m)
  case 0
  then show ?case by (simp add: ext_refl)
next
  case (Suc m)
  let ?j = "fold (\<lambda>i. copy_block (st + int i + 1) (lh_block h i)) [0..<m] j"
  have IH: "ext (map (\<lambda>i. (st + int i + 1, buf_data (lh_block h i) j)) [0..<m]) j ?j"
    "\<forall>i < m. buf_data (st + int i + 1) ?j = buf_data (lh_block h i) j"
    "\<forall>b. b \<le> st \<or> st + int m < b \<longrightarrow> buf_data b ?j = buf_data b j"
    using Suc by auto
  have "m < nat (lh_n h)" "int m < lh_n h" using Suc.prems by simp_all
  then have "lh_block h m \<le> st \<or> st + int m < lh_block h m" using assms(1) by (fastforce simp: log_ok_def)
  then have d: "buf_data (lh_block h m) ?j = buf_data (lh_block h m) j" using IH(3) by blast
  have "ext (map (\<lambda>i. (st + int i + 1, buf_data (lh_block h i) j)) [0..<Suc m]) j
      (copy_block (st + int m + 1) (lh_block h m) ?j)"
    using ext_trans [OF IH(1) copy_block_ext [of "st + int m + 1" "lh_block h m"]] d by simp
  then show ?case using IH(2,3) d by (simp add: less_Suc_eq)
qed

lemma install_one_simps [simp]:
  "buf_data b (install_one st h i j) = (if b = lh_block h i then buf_data (st + int i + 1) j else buf_data b j)"
  "ext ws j0 (install_one st h i j) = ext ws j0 (copy_block (lh_block h i) (st + int i + 1) j)"
  by (simp_all add: install_one_def)

lemma install_run:
  assumes "log_ok st h" and "m \<le> nat (lh_n h)"
  shows "ext (map (\<lambda>i. (lh_block h i, buf_data (st + int i + 1) j)) [0..<m]) j
      (fold (install_one st h) [0..<m] j) \<and>
    (\<forall>b. st \<le> b \<and> b \<le> st + lh_n h \<longrightarrow> buf_data b (fold (install_one st h) [0..<m] j) = buf_data b j)"
  using assms(2)
proof (induction m)
  case 0
  then show ?case by (simp add: ext_refl)
next
  case (Suc m)
  let ?j = "fold (install_one st h) [0..<m] j"
  have IH: "ext (map (\<lambda>i. (lh_block h i, buf_data (st + int i + 1) j)) [0..<m]) j ?j"
    "\<forall>b. st \<le> b \<and> b \<le> st + lh_n h \<longrightarrow> buf_data b ?j = buf_data b j"
    using Suc by auto
  have m: "m < nat (lh_n h)" "int m < lh_n h" using Suc.prems by simp_all
  then have "lh_block h m < st \<or> st + lh_n h < lh_block h m" using assms(1) by (simp add: log_ok_def)
  moreover have d: "buf_data (st + int m + 1) ?j = buf_data (st + int m + 1) j" using IH(2) m by simp
  have "ext (map (\<lambda>i. (lh_block h i, buf_data (st + int i + 1) j)) [0..<Suc m]) j
      (install_one st h m ?j)"
    using ext_trans [OF IH(1) copy_block_ext [of "lh_block h m" "st + int m + 1"]] d by simp
  ultimately show ?case using IH(2) by auto
qed

text \<open>The writes of a commit, in order.\<close>

definition commit_writes :: "int \<Rightarrow> loghdr \<Rightarrow> journal \<Rightarrow> (int \<times> blk) list" where
  "commit_writes st h j = (let n = nat (lh_n h); x = buf_data st j in
     map (\<lambda>i. (st + int i + 1, buf_data (lh_block h i) j)) [0..<n] @ (st, head_block h x) #
     map (\<lambda>i. (lh_block h i, buf_data (lh_block h i) j)) [0..<n] @
     [(st, head_block (h\<lparr>lh_n := 0\<rparr>) (head_block h x))])"

lemma commit_journal_ext:
  assumes "log_ok st h" and "0 < lh_n h"
  shows "ext (commit_writes st h j) j (commit_journal st h j)"
proof -
  let ?n = "nat (lh_n h)" and ?x = "buf_data st j"
  let ?L = "map (\<lambda>i. (st + int i + 1, buf_data (lh_block h i) j)) [0..<?n]"
  let ?j1 = "write_log st h j"
  let ?j2 = "write_head st h ?j1"
  have L: "ext ?L j ?j1" and Ld: "\<forall>i < ?n. buf_data (st + int i + 1) ?j1 = buf_data (lh_block h i) j"
    and Lh: "buf_data st ?j1 = ?x"
    using write_log_run [OF assms(1) order_refl, of j] by (simp_all add: write_log_def)
  have H: "ext [(st, head_block h ?x)] ?j1 ?j2" using write_head_ext [of st h ?j1] Lh by simp
  have same: "map (\<lambda>i. (lh_block h i, buf_data (st + int i + 1) ?j2)) [0..<?n] =
      map (\<lambda>i. (lh_block h i, buf_data (lh_block h i) j)) [0..<?n]" using Ld by auto
  note run = install_run [OF assms(1) order_refl, of ?j2, folded install_trans_def, unfolded same]
  have I: "ext (map (\<lambda>i. (lh_block h i, buf_data (lh_block h i) j)) [0..<?n]) ?j2 (install_trans st h ?j2)"
    using run by blast
  have Ih: "buf_data st (install_trans st h ?j2) = head_block h ?x"
    using run assms(2) Lh by simp
  have E: "ext [(st, head_block (h\<lparr>lh_n := 0\<rparr>) (head_block h ?x))] (install_trans st h ?j2) (commit_journal st h j)"
    using write_head_ext [of st "h\<lparr>lh_n := 0\<rparr>" "install_trans st h ?j2"] Ih assms(2)
    by (simp add: commit_journal_def)
  show ?thesis using ext_trans [OF ext_trans [OF ext_trans [OF L H] I] E] 
    by (simp add: commit_writes_def Let_def)
qed

section \<open>A commit is atomic\<close>

text \<open>The machine stops after \<open>k\<close> of the writes; the caches are empty when it starts again.\<close>

definition crashed :: "nat \<Rightarrow> (int \<times> blk) list \<Rightarrow> (int \<Rightarrow> blk) \<Rightarrow> journal" where
  "crashed k ws d = \<lparr>jdisk = apply_writes (take k ws) d, jcache = (\<lambda>_. None), jpins = (\<lambda>_. 0), jtrace = []\<rparr>"

definition recovered_disk :: "int \<Rightarrow> loghdr \<Rightarrow> journal \<Rightarrow> int \<Rightarrow> blk" where
  "recovered_disk st h0 j = jdisk (replay_journal st (head_of_block (buf_data st j) h0) j)"

definition home :: "int \<Rightarrow> loghdr \<Rightarrow> int \<Rightarrow> bool" where
  "home st h b \<longleftrightarrow> b < st \<or> st + lh_n h < b"

definition logged :: "loghdr \<Rightarrow> int set" where
  "logged h = lh_block h ` {..<nat (lh_n h)}"

lemma replay_ext:
  assumes "log_ok st h" and "b \<noteq> st"
  shows "jdisk (replay_journal st h j) b =
    apply_writes (map (\<lambda>i. (lh_block h i, buf_data (st + int i + 1) j)) [0..<nat (lh_n h)]) (jdisk j) b"
  using conjunct1 [OF install_run [OF assms(1) order_refl, of j, folded install_trans_def]]
    write_head_ext [of st "h\<lparr>lh_n := 0\<rparr>" "install_trans st h j"] assms(2)
  by (simp add: ext_def replay_journal_def)

lemma crashed_data [simp]: "buf_data b (crashed k ws d) = apply_writes (take k ws) d b"
  "jdisk (crashed k ws d) = apply_writes (take k ws) d"
  by (simp_all add: crashed_def buf_data_def)

text \<open>Replaying a disk with an empty header, and one whose log holds the transaction.\<close>

lemma recovered_empty:
  assumes "buf_data st j 0 = 0" and "b \<noteq> st"
  shows "recovered_disk st h0 j b = jdisk j b"
proof -
  have "log_ok st (head_of_block (buf_data st j) h0)" using assms(1) by (simp add: log_ok_def head_of_block_def)
  from replay_ext [OF this assms(2), of j] show ?thesis
    using assms(1) by (simp add: recovered_disk_def head_of_block_def)
qed

lemma recovered_full:
  assumes "log_ok st h" and "buf_data st j = head_block h x" and "b \<noteq> st"
    and "\<forall>i < nat (lh_n h). buf_data (st + int i + 1) j = G (lh_block h i)"
  shows "recovered_disk st h0 j b = (if b \<in> logged h then G b else jdisk j b)"
proof -
  let ?h = "head_of_block (buf_data st j) h0"
  have h: "lh_n ?h = lh_n h" "\<forall>i < nat (lh_n h). lh_block ?h i = lh_block h i"
    by (simp_all add: assms(2) head_of_block_def head_block_def Suc_le_eq)
  have "log_ok st ?h" using assms(1) h unfolding log_ok_def by simp
  from replay_ext [OF this assms(3), of j] have "recovered_disk st h0 j b =
      apply_writes (map (\<lambda>i. (lh_block ?h i, buf_data (st + int i + 1) j)) [0..<nat (lh_n h)]) (jdisk j) b"
    by (simp add: recovered_disk_def h(1))
  also have "map (\<lambda>i. (lh_block ?h i, buf_data (st + int i + 1) j)) [0..<nat (lh_n h)] =
      map (\<lambda>i. (lh_block h i, G (lh_block h i))) [0..<nat (lh_n h)]" using h(2) assms(4) by simp
  finally show ?thesis by (simp add: apply_writes_fun [where G = G] logged_def image_image atLeast0LessThan)
qed

text \<open>
  C4. Wherever the machine stops during a commit (after any number of its disk writes),
  recovery from the log at the next start leaves every block outside the log either with the
  contents the transaction gave it, if the header with the block numbers had been written, or as
  it was before the commit: all of the transaction, or nothing of it.
\<close>

theorem commit_atomic:
  assumes "log_ok st h" and "0 < lh_n h" and "jdisk j st 0 = 0" and "home st h b"
    and "ws = drop (length (jtrace j)) (jtrace (commit_journal st h j))"
  shows "recovered_disk st h0 (crashed k ws (jdisk j)) b =
    (if nat (lh_n h) < k \<and> b \<in> logged h then buf_data b j else jdisk j b)"
proof -
  let ?n = "nat (lh_n h)" and ?d = "jdisk j"
  define L where "L = map (\<lambda>i. (st + int i + 1, buf_data (lh_block h i) j)) [0..<?n]"
  define I where "I = map (\<lambda>i. (lh_block h i, buf_data (lh_block h i) j)) [0..<?n]"
  define H E where "H = (st, head_block h (buf_data st j))"
    and "E = (st, head_block (h\<lparr>lh_n := 0\<rparr>) (head_block h (buf_data st j)))"
  have ws: "ws = L @ H # I @ [E]"
    using commit_journal_ext [OF assms(1,2), of j] assms(5)
    by (simp add: ext_def commit_writes_def Let_def L_def I_def H_def E_def)
  have keysL: "fst ` set L = {st + 1..st + lh_n h}"
  proof -
    have "{st + 1..st + lh_n h} \<subseteq> (\<lambda>i. st + int i + 1) ` {0..<?n}"
    proof
      fix c assume "c \<in> {st + 1..st + lh_n h}"
      then have "c = st + int (nat (c - st - 1)) + 1" "nat (c - st - 1) \<in> {0..<?n}" by auto
      then show "c \<in> (\<lambda>i. st + int i + 1) ` {0..<?n}" by (rule image_eqI)
    qed
    then show ?thesis by (auto simp: L_def image_image)
  qed
  have keysI: "fst ` set (take m I) \<subseteq> logged h" for m
    using set_take_subset [of m I] by (auto simp: I_def logged_def)
  have out: "c \<notin> logged h" if "st \<le> c" "c \<le> st + lh_n h" for c
    using assms(1) that by (fastforce simp: log_ok_def logged_def)
  have bs: "b \<noteq> st" "b \<notin> fst ` set L" using assms(2,4) unfolding keysL by (auto simp: home_def)
  have takeI: "apply_writes (take m I) d b = (if b \<in> fst ` set (take m I) then buf_data b j else d b)" for m d
    using set_take_subset [of m I] by (intro apply_writes_fun) (auto simp: I_def)
  have len: "length L = ?n" "length I = ?n" by (simp_all add: L_def I_def)
  consider (none) "k \<le> ?n" | (some) "?n < k" "k \<le> Suc ?n + ?n" | (all) "Suc ?n + ?n < k" by linarith
  then show ?thesis
  proof cases
    case none
    then have t: "take k ws = take k L" by (simp add: ws len)
    have "c \<notin> fst ` set (take k L)" if "c \<notin> fst ` set L" for c
      using that set_take_subset [of k L] by blast
    then have u: "apply_writes (take k ws) ?d c = ?d c" if "c \<notin> fst ` set L" for c
      using that by (simp add: t apply_writes_other)
    have "st \<notin> fst ` set L" unfolding keysL by simp
    then have "recovered_disk st h0 (crashed k ws ?d) b = ?d b"
      using recovered_empty [of st "crashed k ws ?d" b h0] u bs assms(3) by simp
    then show ?thesis using none by simp
  next
    case some
    define m where "m = k - Suc ?n"
    have k: "k = length L + Suc m" "m \<le> ?n" using some by (simp_all add: m_def len)
    then have "take k ws = L @ H # take m I" by (simp add: ws len)
    then have d: "apply_writes (take k ws) ?d = apply_writes (take m I) (apply_writes (L @ [H]) ?d)" by simp
    have st: "apply_writes (take k ws) ?d st = head_block h (buf_data st j)"
      unfolding d using keysI [of m] out [of st] assms(2) by (subst apply_writes_other) (auto simp: H_def)
    have lg: "apply_writes (take k ws) ?d (st + int i + 1) = buf_data (lh_block h i) j" if "i < ?n" for i
    proof -
      have "apply_writes L ?d (st + int i + 1) = buf_data (lh_block h (nat (st + int i + 1 - st - 1))) j"
        using that by (subst apply_writes_fun [where G = "\<lambda>c. buf_data (lh_block h (nat (c - st - 1))) j"])
          (auto simp: L_def image_image)
      then show ?thesis
        unfolding d using keysI [of m] out [of "st + int i + 1"] that
        by (subst apply_writes_other) (auto simp: H_def)
    qed
    have "recovered_disk st h0 (crashed k ws ?d) b =
        (if b \<in> logged h then buf_data b j else apply_writes (take k ws) ?d b)"
      using recovered_full [OF assms(1), of "crashed k ws ?d" "buf_data st j" b "\<lambda>c. buf_data c j" h0]
        st lg bs(1) by simp
    moreover have "apply_writes (take k ws) ?d b = ?d b" if "b \<notin> logged h"
      unfolding d using that keysI [of m] bs by (subst apply_writes_other) (auto simp: H_def apply_writes_other)
    ultimately show ?thesis using some by simp
  next
    case all
    then have t: "take k ws = ws" by (simp add: ws len)
    have "apply_writes (take k ws) ?d st 0 = 0" unfolding t by (simp add: ws E_def head_block_def)
    then have "recovered_disk st h0 (crashed k ws ?d) b = apply_writes ws ?d b"
      using recovered_empty [of st "crashed k ws ?d" b h0] bs(1) t by simp
    also have "\<dots> = (if b \<in> logged h then buf_data b j else ?d b)"
      using takeI [of ?n] bs unfolding ws
      by (simp add: E_def H_def len apply_writes_other I_def logged_def image_image atLeast0LessThan)
    finally show ?thesis using all by simp
  qed
qed

text \<open>One block, 50, with the log at block 2: the machine stops before the third of four writes.\<close>

definition demo_hdr :: loghdr where
  "demo_hdr = \<lparr>lh_n = 1, lh_block = (\<lambda>_. 50)\<rparr>"

definition demo_journal :: journal where
  "demo_journal = \<lparr>jdisk = (\<lambda>_ _. 0), jcache = (\<lambda>b. if b = 50 then Some (\<lambda>_. 7) else None),
     jpins = (\<lambda>_. 0), jtrace = []\<rparr>"

theorem commit_atomic_witness:
  "recovered_disk 2 demo_hdr (crashed 2 (jtrace (commit_journal 2 demo_hdr demo_journal)) (\<lambda>_ _. 0)) 50 = (\<lambda>_. 7)"
  using commit_atomic [of 2 demo_hdr demo_journal 50 "jtrace (commit_journal 2 demo_hdr demo_journal)" demo_hdr 2]
  by (simp add: demo_hdr_def demo_journal_def log_ok_def home_def logged_def buf_data_def)

section \<open>The in-memory header\<close>

text \<open>The replica of the header moves with the header: every call keeps the two equal.\<close>

definition replica_ok :: "'a logstate_scheme \<Rightarrow> bool" where
  "replica_ok s \<longleftrightarrow> dup_lhdr s = lh (klog s) \<and> dup_outstanding s = outstanding (klog s)"

lemma replica_steps [simp]:
  "replica_ok s \<Longrightarrow> replica_ok (set_lh f s)" "replica_ok s \<Longrightarrow> replica_ok (add_outstanding d s)"
  "replica_ok (set_committing b s) = replica_ok s" "replica_ok s \<Longrightarrow> replica_ok (commit s)"
  by (simp_all add: replica_ok_def set_lh_def add_outstanding_def set_committing_def commit_def)

text \<open>A block that is logged twice takes one slot, and the blocks in the header stay distinct.\<close>

definition header_ok :: "loghdr \<Rightarrow> bool" where
  "header_ok h \<longleftrightarrow> 0 \<le> lh_n h \<and> lh_n h \<le> int LOGSIZE \<and> inj_on (lh_block h) {..<nat (lh_n h)}"

lemma log_slot_absorbs:
  assumes "header_ok h" and "lh_n h < int LOGSIZE"
  shows "header_ok (log_block (log_slot b h) b (int (log_slot b h) = lh_n h) h) \<and>
    logged (log_block (log_slot b h) b (int (log_slot b h) = lh_n h) h) = insert b (logged h)"
proof (cases "first_idx (\<lambda>i. lh_block h i = b) (nat (lh_n h))")
  case None
  then have ne: "\<forall>i < nat (lh_n h). lh_block h i \<noteq> b" by (simp add: first_idx_None)
  have n: "int (nat (lh_n h)) = lh_n h" "nat (lh_n h + 1) = Suc (nat (lh_n h))"
    using assms(1) by (simp_all add: header_ok_def nat_add_distrib)
  have "log_slot b h = nat (lh_n h)" using None by (simp add: log_slot_def)
  then show ?thesis using ne n assms
    by (auto simp: header_ok_def log_block_def logged_def lessThan_Suc inj_on_def)
next
  case (Some i)
  then have i: "i < nat (lh_n h)" "lh_block h i = b" by (simp_all add: first_idx_Some)
  have "log_slot b h = i" using Some by (simp add: log_slot_def)
  moreover have "(lh_block h)(i := b) = lh_block h" using i by auto
  moreover have "insert b (logged h) = logged h"
    using i by (simp add: logged_def insert_absorb rev_image_eqI [of i])
  moreover have "int i \<noteq> lh_n h" using i(1) by simp
  ultimately show ?thesis using i assms(1) by (simp add: header_ok_def log_block_def logged_def)
qed

end
