(* ===== verification/DRing.thy ===== *)
theory DRing
  imports Prelude
begin

text \<open>
  Doubly linked rings through a head node, as the buffer cache keeps its buffers: \<open>nx\<close> and
  \<open>pv\<close> are the \<open>next\<close> and \<open>prev\<close> fields by address, and a ring is described by the
  list of its nodes. The lemmas state what the usual pointer updates do to that list.
\<close>

section \<open>Paths\<close>

fun path :: "(nat \<Rightarrow> nat) \<Rightarrow> nat \<Rightarrow> nat list \<Rightarrow> nat \<Rightarrow> bool" where
  "path f a [] c \<longleftrightarrow> f a = c"
| "path f a (b # bs) c \<longleftrightarrow> f a = b \<and> path f b bs c"

lemma path_append: "path f a (xs @ b # ys) c \<longleftrightarrow> path f a xs b \<and> path f b ys c"
  by (induction xs arbitrary: a) auto

lemma path_last: "path f a xs c \<Longrightarrow> f (last (a # xs)) = c"
  by (induction xs arbitrary: a) auto

lemma path_hd: "path f a xs c \<Longrightarrow> f a = hd (xs @ [c])"
  by (cases xs) auto

lemma path_upd_other: "x \<notin> set (a # xs) \<Longrightarrow> path (f(x := y)) a xs c \<longleftrightarrow> path f a xs c"
  by (induction xs arbitrary: a) auto

lemma path_upd_last: "path f a xs c \<Longrightarrow> distinct (a # xs) \<Longrightarrow> path (f(last (a # xs) := d)) a xs d"
  by (induction xs arbitrary: a) auto

lemma path_remove:
  assumes "path f a (xs @ b # ys) c" and "distinct (a # xs @ b # ys)"
  shows "path (f(last (a # xs) := f b)) a (xs @ ys) c"
proof -
  have p: "path f a xs b" "path f b ys c" using assms(1) by (simp_all add: path_append)
  have u: "path (f(last (a # xs) := f b)) a xs (f b)" using path_upd_last [OF p(1)] assms(2) by simp
  show ?thesis
  proof (cases ys)
    case Nil
    then show ?thesis using u p(2) by simp
  next
    case (Cons y ys')
    have "last (a # xs) \<notin> set (y # ys')"
      using assms(2) Cons last_in_set [of "a # xs"] by (auto simp del: last_in_set)
    then have "path (f(last (a # xs) := f b)) y ys' c" using p(2) Cons by (simp add: path_upd_other)
    then show ?thesis using u p(2) Cons by (simp add: path_append)
  qed
qed

lemma path_insert_front:
  assumes "path f a xs c" and "b \<notin> set (a # xs)" and "a \<notin> set xs"
  shows "path (f(b := f a, a := b)) a (b # xs) c"
proof (cases xs)
  case Nil
  then show ?thesis using assms by simp
next
  case (Cons x xs')
  then show ?thesis using assms by (simp add: path_upd_other)
qed

lemma path_insert_back:
  assumes "path f a xs c" and "distinct (a # xs)" and "b \<notin> set (a # xs)"
  shows "path (f(b := c, last (a # xs) := b)) a (xs @ [b]) c"
proof -
  have ne: "b \<noteq> last (a # xs)" using assms(3) last_in_set [of "a # xs"] by (metis list.distinct(1))
  have "path (f(b := c)) a xs c" using assms(1,3) by (simp add: path_upd_other)
  then have "path (f(b := c, last (a # xs) := b)) a xs b" using assms(2) by (rule path_upd_last)
  then show ?thesis using ne by (simp add: path_append)
qed

section \<open>Rings\<close>

definition dring :: "nat \<Rightarrow> nat list \<Rightarrow> (nat \<Rightarrow> nat) \<Rightarrow> (nat \<Rightarrow> nat) \<Rightarrow> bool" where
  "dring h bs nx pv \<longleftrightarrow> distinct (h # bs) \<and> path nx h bs h \<and> path pv h (rev bs) h"

lemma dring_ends: "dring h bs nx pv \<Longrightarrow> nx h = hd (bs @ [h]) \<and> pv h = last (h # bs)"
  using path_hd [of nx h bs h] path_hd [of pv h "rev bs" h] by (cases bs rule: rev_cases) (auto simp: dring_def)

lemma last_rev_hd: "last (h # rev bs) = hd (bs @ [h])"
  by (cases bs) auto

lemma dring_neighbours:
  assumes "dring h (xs @ b # ys) nx pv"
  shows "nx b = hd (ys @ [h])" and "pv b = last (h # xs)"
proof -
  have n: "path nx h (xs @ b # ys) h" and p: "path pv h (rev ys @ b # rev xs) h"
    using assms by (auto simp: dring_def)
  show "nx b = hd (ys @ [h])" using n path_hd by (simp add: path_append)
  have "pv b = hd (rev xs @ [h])" using p path_hd by (simp add: path_append)
  then show "pv b = last (h # xs)" by (cases xs rule: rev_cases) auto
qed

text \<open>\<open>b->next->prev = b->prev; b->prev->next = b->next\<close>\<close>

definition unlink_node :: "nat \<Rightarrow> (nat \<Rightarrow> nat) \<times> (nat \<Rightarrow> nat) \<Rightarrow> (nat \<Rightarrow> nat) \<times> (nat \<Rightarrow> nat)" where
  "unlink_node b l = (case l of (nx, pv) \<Rightarrow>
     let pv = pv(nx b := pv b); nx = nx(pv b := nx b) in (nx, pv))"

text \<open>\<open>b->next = h->next; b->prev = h; h->next->prev = b; h->next = b\<close>\<close>

definition link_front :: "nat \<Rightarrow> nat \<Rightarrow> (nat \<Rightarrow> nat) \<times> (nat \<Rightarrow> nat) \<Rightarrow> (nat \<Rightarrow> nat) \<times> (nat \<Rightarrow> nat)" where
  "link_front h b l = (case l of (nx, pv) \<Rightarrow>
     let nx = nx(b := nx h); pv = pv(b := h); pv = pv(nx h := b); nx = nx(h := b) in (nx, pv))"

text \<open>\<open>b->next = h; b->prev = h->prev; h->prev->next = b; h->prev = b\<close>\<close>

definition link_back :: "nat \<Rightarrow> nat \<Rightarrow> (nat \<Rightarrow> nat) \<times> (nat \<Rightarrow> nat) \<Rightarrow> (nat \<Rightarrow> nat) \<times> (nat \<Rightarrow> nat)" where
  "link_back h b l = (case l of (nx, pv) \<Rightarrow>
     let nx = nx(b := h); pv = pv(b := pv h); nx = nx(pv h := b); pv = pv(h := b) in (nx, pv))"

lemma unlink_node_ring:
  assumes "dring h (xs @ b # ys) nx pv" and "unlink_node b (nx, pv) = (nx', pv')"
  shows "dring h (xs @ ys) nx' pv'"
proof -
  note n = dring_neighbours [OF assms(1)]
  have d: "distinct (h # xs @ b # ys)" "path nx h (xs @ b # ys) h" "path pv h (rev ys @ b # rev xs) h"
    using assms(1) by (auto simp: dring_def)
  have ne: "nx b \<noteq> b" using n(1) d(1) by (cases ys) auto
  then have u: "nx' = nx(pv b := nx b)" "pv' = pv(nx b := pv b)"
    using assms(2) by (auto simp: unlink_node_def Let_def)
  have "path nx' h (xs @ ys) h" using path_remove [OF d(2,1)] u(1) n(2) by simp
  moreover have "path pv' h (rev ys @ rev xs) h"
  proof -
    have "distinct (h # rev ys @ b # rev xs)" using d(1) by auto
    from path_remove [OF d(3) this] show ?thesis unfolding u(2) n(1) last_rev_hd .
  qed
  ultimately show ?thesis using d(1) by (simp add: dring_def)
qed

lemma link_front_ring:
  assumes "dring h bs nx pv" and "b \<notin> set (h # bs)" and "link_front h b (nx, pv) = (nx', pv')"
  shows "dring h (b # bs) nx' pv'"
proof -
  have d: "distinct (h # bs)" "path nx h bs h" "path pv h (rev bs) h" using assms(1) by (auto simp: dring_def)
  have e: "nx h = last (h # rev bs)" using dring_ends [OF assms(1)] by (simp only: last_rev_hd)
  have u: "nx' = nx(b := nx h, h := b)" "pv' = pv(b := h, nx h := b)"
    using assms(2,3) by (auto simp: link_front_def Let_def)
  have "path nx' h (b # bs) h" using path_insert_front [OF d(2)] assms(2) d(1) u(1) by simp
  moreover have "path pv' h (rev bs @ [b]) h"
    using path_insert_back [OF d(3), of b] d(1) assms(2) u(2) e by simp
  ultimately show ?thesis using d(1) assms(2) by (auto simp: dring_def)
qed

lemma link_back_ring:
  assumes "dring h bs nx pv" and "b \<notin> set (h # bs)" and "link_back h b (nx, pv) = (nx', pv')"
  shows "dring h (bs @ [b]) nx' pv'"
proof -
  have d: "distinct (h # bs)" "path nx h bs h" "path pv h (rev bs) h" using assms(1) by (auto simp: dring_def)
  have e: "pv h = last (h # bs)" using dring_ends [OF assms(1)] by simp
  have u: "nx' = nx(b := h, pv h := b)" "pv' = pv(b := pv h, h := b)"
    using assms(2,3) by (auto simp: link_back_def Let_def)
  have "path nx' h (bs @ [b]) h" using path_insert_back [OF d(2,1), of b] assms(2) u(1) e by simp
  moreover have "path pv' h (b # rev bs) h" using path_insert_front [OF d(3)] d(1) assms(2) u(2) by simp
  ultimately show ?thesis using d(1) assms(2) by (auto simp: dring_def)
qed

section \<open>Searches along a ring\<close>

datatype seen = At nat | Nowhere | Null

partial_function (option) seek :: "(nat \<Rightarrow> nat) \<Rightarrow> nat \<Rightarrow> (nat \<Rightarrow> bool) \<Rightarrow> nat \<Rightarrow> seen option" where
  "seek f h P b = (if b = h then Some Nowhere else if b = 0 then Some Null
     else if P b then Some (At b) else seek f h P (f b))"

lemma seek_path:
  "path f b xs h \<Longrightarrow> h \<notin> set (b # xs) \<Longrightarrow> 0 \<notin> set (b # xs) \<Longrightarrow>
   seek f h P b = Some (case find P (b # xs) of Some x \<Rightarrow> At x | None \<Rightarrow> Nowhere)"
proof (induction xs arbitrary: b)
  case Nil
  then show ?case by (subst seek.simps) (simp add: seek.simps [of f h P h])
next
  case (Cons x xs)
  then show ?case by (subst seek.simps) simp
qed

lemma seek_ring:
  assumes "dring h bs nx pv" and "0 \<notin> set bs"
  shows "seek nx h P (nx h) = Some (case find P bs of Some x \<Rightarrow> At x | None \<Rightarrow> Nowhere)"
    and "seek pv h P (pv h) = Some (case find P (rev bs) of Some x \<Rightarrow> At x | None \<Rightarrow> Nowhere)"
proof -
  have d: "distinct (h # bs)" "path nx h bs h" "path pv h (rev bs) h" using assms(1) by (auto simp: dring_def)
  have s: "seek f h P (f h) = Some (case find P xs of Some x \<Rightarrow> At x | None \<Rightarrow> Nowhere)"
    if "path f h xs h" "h \<notin> set xs" "0 \<notin> set xs" for f xs
    using that seek_path [of f "hd xs" "tl xs" h P]
    by (cases xs) (auto simp: seek.simps [of f h P h])
  show "seek nx h P (nx h) = Some (case find P bs of Some x \<Rightarrow> At x | None \<Rightarrow> Nowhere)"
    using s [OF d(2)] d(1) assms(2) by simp
  show "seek pv h P (pv h) = Some (case find P (rev bs) of Some x \<Rightarrow> At x | None \<Rightarrow> Nowhere)"
    using s [OF d(3)] d(1) assms(2) by simp
qed

end
