(* ===== verification/Bio.thy ===== *)
theory Bio
  imports Log DRing
begin

text \<open>
  \<open>kernel/bio.c\<close>: the buffer cache. Buffers are named by their addresses; the \<open>next\<close> and
  \<open>prev\<close> fields are two maps, which include the head. The disk is the one of \<open>Log\<close>;
  \<open>disk_rw\<close> is the effect of \<open>virtio_disk_rw\<close> once the device has answered. The main
  theorem: no block is ever cached in two buffers, and the buffers form one ring.
\<close>

section \<open>State\<close>

record buf =
  valid :: bool
  disk_owns :: bool
  dev :: nat
  blockno :: int
  refcnt :: u32
  data :: blk

record cache =
  bufs :: "nat \<Rightarrow> buf"
  bnext :: "nat \<Rightarrow> nat"
  bprev :: "nat \<Rightarrow> nat"

record biostate = logstate +
  bc :: cache
  bhead :: nat              \<comment> \<open>\<open>&bcache.head\<close>\<close>
  barr :: "nat \<Rightarrow> nat"      \<comment> \<open>\<open>&bcache.buf[i]\<close>\<close>
  bslock :: "nat \<Rightarrow> nat"    \<comment> \<open>number of the sleep lock of the buffer at an address\<close>

definition upd_buf :: "nat \<Rightarrow> (buf \<Rightarrow> buf) \<Rightarrow> cache \<Rightarrow> cache" where
  "upd_buf b f c = c\<lparr>bufs := (bufs c)(b := f (bufs c b))\<rparr>"

definition set_links :: "(nat \<Rightarrow> nat) \<times> (nat \<Rightarrow> nat) \<Rightarrow> cache \<Rightarrow> cache" where
  "set_links l c = c\<lparr>bnext := fst l, bprev := snd l\<rparr>"

section \<open>Operations on the cache\<close>

definition has_block :: "nat \<Rightarrow> int \<Rightarrow> cache \<Rightarrow> nat \<Rightarrow> bool" where
  "has_block d n c b \<longleftrightarrow> dev (bufs c b) = d \<and> blockno (bufs c b) = n"

definition ref_buf :: "nat \<Rightarrow> cache \<Rightarrow> cache" where
  "ref_buf b = upd_buf b (\<lambda>x. x\<lparr>refcnt := refcnt x + 1\<rparr>)"

definition unref_buf :: "nat \<Rightarrow> cache \<Rightarrow> cache" where
  "unref_buf b = upd_buf b (\<lambda>x. x\<lparr>refcnt := refcnt x - 1\<rparr>)"

definition recycle :: "nat \<Rightarrow> int \<Rightarrow> nat \<Rightarrow> cache \<Rightarrow> cache" where
  "recycle d n b = upd_buf b (\<lambda>x. x\<lparr>dev := d, blockno := n, valid := False, refcnt := 1\<rparr>)"

definition release_buf :: "nat \<Rightarrow> nat \<Rightarrow> cache \<Rightarrow> cache" where
  "release_buf h b c = (let c = unref_buf b c in
     if refcnt (bufs c b) = 0
     then set_links (link_front h b (unlink_node b (bnext c, bprev c))) c else c)"

datatype lookup = Hit nat | Recycle nat | NoBuffers | BadLink | Loop

definition bget_find :: "nat \<Rightarrow> nat \<Rightarrow> int \<Rightarrow> cache \<Rightarrow> lookup" where
  "bget_find h d n c = (case seek (bnext c) h (has_block d n c) (bnext c h) of
       None \<Rightarrow> Loop | Some Null \<Rightarrow> BadLink | Some (At b) \<Rightarrow> Hit b
     | Some Nowhere \<Rightarrow> (case seek (bprev c) h (\<lambda>b. refcnt (bufs c b) = 0) (bprev c h) of
           None \<Rightarrow> Loop | Some Null \<Rightarrow> BadLink | Some (At b) \<Rightarrow> Recycle b | Some Nowhere \<Rightarrow> NoBuffers))"

section \<open>The calls\<close>

definition map_bc :: "(cache \<Rightarrow> cache) \<Rightarrow> 'a biostate_scheme \<Rightarrow> 'a biostate_scheme" where
  "map_bc f s = s\<lparr>bc := f (bc s)\<rparr>"

definition binit :: "'a biostate_scheme \<Rightarrow> 'a biostate_scheme res" where
  "binit s = bindE (initlock LkBcache ''bcache'' s) (\<lambda>s. let h = bhead s; m = mhead s MLbuf in
     if m = 0 then Inl Trap
     else foldE (\<lambda>i s. let b = barr s i in
       bindE (initsleeplock (bslock s b) ''buffer'' (map_bc (\<lambda>c. c\<lparr>bnext := (bnext c)(b := bnext c h), bprev := (bprev c)(b := h)\<rparr>) s)) (\<lambda>s.
         register_memobj b m (map_bc (\<lambda>c. c\<lparr>bprev := (bprev c)(bnext c h := b), bnext := (bnext c)(h := b)\<rparr>) s)))
       [0..<NBUF]
       (map_bc (\<lambda>c. c\<lparr>bprev := (bprev c)(h := h), bnext := (bnext c)(h := h)\<rparr>)
         (s\<lparr>mem := (mem s)(m := h, m + 8 := m)\<rparr>)))"

definition bget :: "nat \<Rightarrow> int \<Rightarrow> 'a biostate_scheme \<Rightarrow> (nat \<times> 'a biostate_scheme) res" where
  "bget d n s = bindE (enter_recovery_critical_section RL_BCACHE 0 s) (\<lambda>s.
     bindE (acquire LkBcache s) (\<lambda>s.
     case bget_find (bhead s) d n (bc s) of
       Loop \<Rightarrow> Inl Blocked
     | BadLink \<Rightarrow> Inl Trap
     | NoBuffers \<Rightarrow> Inl (Panic ''bget: no buffers'')
     | Hit b \<Rightarrow> bindE (enter_recovery_critical_section_nodes RL_BUF b s) (\<lambda>s.
         bindE (release LkBcache (map_bc (ref_buf b) s)) (\<lambda>s.
         bindE (exit_recovery_critical_section RL_BCACHE 0 s) (\<lambda>s.
         bindE (acquiresleep (bslock s b) s) (\<lambda>s. Inr (b, s)))))
     | Recycle b \<Rightarrow> bindE (release LkBcache (map_bc (recycle d n b) s)) (\<lambda>s.
         bindE (exit_recovery_critical_section RL_BCACHE 0 s) (\<lambda>s.
         bindE (enter_recovery_critical_section_nodes RL_BUF b s) (\<lambda>s.
         bindE (acquiresleep (bslock s b) s) (\<lambda>s. Inr (b, s)))))))"

text \<open>The transfer between a buffer and its block on disk.\<close>

definition disk_rw :: "nat \<Rightarrow> bool \<Rightarrow> 'a biostate_scheme \<Rightarrow> 'a biostate_scheme" where
  "disk_rw b wr s = (let n = blockno (bufs (bc s) b) in
     if wr then s\<lparr>jr := (jr s)\<lparr>jdisk := (jdisk (jr s))(n := data (bufs (bc s) b)),
            jtrace := jtrace (jr s) @ [(n, data (bufs (bc s) b))]\<rparr>\<rparr>
     else map_bc (upd_buf b (\<lambda>x. x\<lparr>data := jdisk (jr s) n\<rparr>)) s)"

definition bread :: "nat \<Rightarrow> int \<Rightarrow> 'a biostate_scheme \<Rightarrow> (nat \<times> 'a biostate_scheme) res" where
  "bread d n s = bindE (bget d n s) (\<lambda>(b, s).
     if \<not> valid (bufs (bc s) b)
     then Inr (b, map_bc (upd_buf b (\<lambda>x. x\<lparr>valid := True\<rparr>)) (disk_rw b False s)) else Inr (b, s))"

definition bwrite :: "nat \<Rightarrow> 'a biostate_scheme \<Rightarrow> 'a biostate_scheme res" where
  "bwrite b s = bindE (holdingsleep (bslock s b) s) (\<lambda>(r, s).
     if \<not> r then Inl (Panic ''bwrite'') else Inr (disk_rw b True s))"

definition brelse :: "nat \<Rightarrow> 'a biostate_scheme \<Rightarrow> 'a biostate_scheme res" where
  "brelse b s = bindE (holdingsleep (bslock s b) s) (\<lambda>(r, s).
     if \<not> r then Inl (Panic ''brelse'')
     else bindE (releasesleep (bslock s b) s) (\<lambda>s.
       bindE (enter_recovery_critical_section RL_BCACHE 0 s) (\<lambda>s.
       bindE (acquire LkBcache s) (\<lambda>s.
       bindE (exit_recovery_critical_section_nodes RL_BUF b (map_bc (release_buf (bhead s) b) s)) (\<lambda>s.
       bindE (release LkBcache s) (exit_recovery_critical_section RL_BCACHE 0))))))"

definition bpin :: "nat \<Rightarrow> 'a biostate_scheme \<Rightarrow> 'a biostate_scheme res" where
  "bpin b s = bindE (acquire LkBcache s) (\<lambda>s. release LkBcache (map_bc (ref_buf b) s))"

definition bunpin :: "nat \<Rightarrow> 'a biostate_scheme \<Rightarrow> 'a biostate_scheme res" where
  "bunpin b s = bindE (acquire LkBcache s) (\<lambda>s. release LkBcache (map_bc (unref_buf b) s))"

section \<open>One buffer per block\<close>

definition cache_ring :: "nat \<Rightarrow> nat list \<Rightarrow> cache \<Rightarrow> bool" where
  "cache_ring h bs c \<longleftrightarrow> dring h bs (bnext c) (bprev c) \<and> 0 \<notin> set bs"

definition cached :: "nat list \<Rightarrow> cache \<Rightarrow> bool" where
  "cached bs c \<longleftrightarrow> (\<forall>x \<in> set bs. \<forall>y \<in> set bs. dev (bufs c x) \<noteq> 0 \<longrightarrow>
     dev (bufs c x) = dev (bufs c y) \<longrightarrow> blockno (bufs c x) = blockno (bufs c y) \<longrightarrow> x = y)"

lemma upd_buf_sel [simp]:
  "bnext (upd_buf b f c) = bnext c" "bprev (upd_buf b f c) = bprev c"
  "bufs (upd_buf b f c) = (bufs c)(b := f (bufs c b))"
  by (simp_all add: upd_buf_def)

lemma set_links_sel [simp]:
  "bnext (set_links l c) = fst l" "bprev (set_links l c) = snd l" "bufs (set_links l c) = bufs c"
  by (simp_all add: set_links_def)

lemma bget_find_ring:
  assumes "cache_ring h bs c"
  shows "bget_find h d n c = (case find (has_block d n c) bs of Some b \<Rightarrow> Hit b
    | None \<Rightarrow> (case find (\<lambda>b. refcnt (bufs c b) = 0) (rev bs) of Some b \<Rightarrow> Recycle b | None \<Rightarrow> NoBuffers))"
  using assms seek_ring [of h bs "bnext c" "bprev c"]
  by (auto simp: bget_find_def cache_ring_def split: option.splits)

lemma find_SomeD: "find P xs = Some x \<Longrightarrow> x \<in> set xs \<and> P x"
  by (auto simp: find_Some_iff)

text \<open>
  A life of the cache, starting with the ring that \<open>binit\<close> builds of unused buffers: any
  sequence of lookups, releases, pins and unpins. A buffer is released by a holder.
\<close>

inductive cache_run :: "nat \<Rightarrow> nat set \<Rightarrow> cache \<Rightarrow> bool" where
  start: "cache_ring h bs c \<Longrightarrow> \<forall>b. dev (bufs c b) = 0 \<Longrightarrow> cache_run h (set bs) c"
| hit: "cache_run h B c \<Longrightarrow> bget_find h d n c = Hit b \<Longrightarrow> cache_run h B (ref_buf b c)"
| miss: "cache_run h B c \<Longrightarrow> bget_find h d n c = Recycle b \<Longrightarrow> d \<noteq> 0 \<Longrightarrow> cache_run h B (recycle d n b c)"
| rel: "cache_run h B c \<Longrightarrow> b \<in> B \<Longrightarrow> cache_run h B (release_buf h b c)"
| pin: "cache_run h B c \<Longrightarrow> b \<in> B \<Longrightarrow> cache_run h B (ref_buf b c)"
| unpin: "cache_run h B c \<Longrightarrow> b \<in> B \<Longrightarrow> cache_run h B (unref_buf b c)"
| io: "cache_run h B c \<Longrightarrow> cache_run h B (upd_buf b (\<lambda>x. x\<lparr>valid := True, data := v\<rparr>) c)"

lemma cached_same: "cached bs c \<Longrightarrow> set bs' = set bs \<Longrightarrow>
  \<forall>b. dev (bufs c' b) = dev (bufs c b) \<and> blockno (bufs c' b) = blockno (bufs c b) \<Longrightarrow> cached bs' c'"
  by (simp add: cached_def)

lemma move_to_front:
  assumes "cache_ring h bs c" and "b \<in> set bs"
  shows "cache_ring h (b # remove1 b bs) (set_links (link_front h b (unlink_node b (bnext c, bprev c))) c)"
proof -
  obtain xs ys where bs: "bs = xs @ b # ys" "b \<notin> set xs" using split_list_first [OF assms(2)] by blast
  obtain nx pv where u: "unlink_node b (bnext c, bprev c) = (nx, pv)" by fastforce
  obtain nx' pv' where f: "link_front h b (nx, pv) = (nx', pv')" by fastforce
  have r: "dring h (xs @ b # ys) (bnext c) (bprev c)" using assms(1) bs by (simp add: cache_ring_def)
  have "b \<notin> set (h # xs @ ys)" using r by (auto simp: dring_def)
  then have "dring h (b # xs @ ys) nx' pv'"
    using link_front_ring [OF unlink_node_ring [OF r u] _ f] by blast
  moreover have "remove1 b bs = xs @ ys" using bs by (simp add: remove1_append)
  ultimately show ?thesis using assms(1) bs u f by (simp add: cache_ring_def)
qed

text \<open>The least recently released buffer is the last of the ring.\<close>

lemma release_buf_ring:
  assumes "cache_ring h bs c" and "b \<in> set bs"
  shows "cache_ring h (if refcnt (bufs c b) = 1 then b # remove1 b bs else bs) (release_buf h b c)"
proof -
  have "cache_ring h bs (unref_buf b c)" using assms(1) by (simp add: cache_ring_def unref_buf_def)
  then have "cache_ring h (b # remove1 b bs) (set_links (link_front h b (unlink_node b
      (bnext (unref_buf b c), bprev (unref_buf b c)))) (unref_buf b c))"
    using assms(2) by (rule move_to_front)
  then show ?thesis using assms(1) by (simp add: release_buf_def unref_buf_def Let_def cache_ring_def)
qed

lemma cache_run_inv: "cache_run h B c \<Longrightarrow> \<exists>bs. cache_ring h bs c \<and> set bs = B \<and> cached bs c"
proof (induction rule: cache_run.induct)
  case (start h bs c)
  then show ?case by (intro exI [of _ bs]) (auto simp: cached_def)
next
  case (miss h B c d n b)
  then obtain bs where bs: "cache_ring h bs c" "set bs = B" "cached bs c" by blast
  have none: "find (has_block d n c) bs = None" and b: "b \<in> set bs"
    using miss(2) bget_find_ring [OF bs(1), of d n] by (auto split: option.splits dest: find_SomeD)
  have "\<forall>x \<in> set bs. \<not> has_block d n c x" using none by (simp add: find_None_iff)
  then have "cached bs (recycle d n b c)"
    using bs(3) by (auto simp: cached_def recycle_def has_block_def)
  then show ?case using bs by (intro exI [of _ bs]) (simp add: cache_ring_def recycle_def)
next
  case (rel h B c b)
  then obtain bs where bs: "cache_ring h bs c" "set bs = B" "cached bs c" by blast
  let ?bs = "if refcnt (bufs c b) = 1 then b # remove1 b bs else bs"
  have "distinct bs" using bs(1) by (simp add: cache_ring_def dring_def)
  then have s: "set ?bs = set bs" using rel(2) bs(2) by auto
  have "cached ?bs (release_buf h b c)"
    using cached_same [OF bs(3) s] by (simp add: release_buf_def unref_buf_def Let_def)
  moreover have "cache_ring h ?bs (release_buf h b c)" using release_buf_ring [OF bs(1)] rel(2) bs(2) by blast
  ultimately show ?case using bs(2) s by metis
qed (auto simp: cache_ring_def ref_buf_def unref_buf_def cached_def split: if_splits; blast)+

text \<open>
  C15. After any sequence of lookups, releases, pins and transfers the cached blocks are in one
  buffer each: a lookup of the block of any buffer of the ring returns just that buffer.
\<close>

theorem one_buffer_per_block:
  assumes "cache_run h B c" and "b \<in> B" and "dev (bufs c b) \<noteq> 0"
  shows "bget_find h (dev (bufs c b)) (blockno (bufs c b)) c = Hit b"
proof -
  obtain bs where bs: "cache_ring h bs c" "set bs = B" "cached bs c" using cache_run_inv [OF assms(1)] by blast
  have "find (has_block (dev (bufs c b)) (blockno (bufs c b)) c) bs = Some b"
  proof -
    obtain x where x: "find (has_block (dev (bufs c b)) (blockno (bufs c b)) c) bs = Some x"
      using assms(2) bs(2) by (metis find_None_iff has_block_def option.exhaust)
    from find_SomeD [OF this] have "x = b" using bs(2,3) assms(2,3) by (auto simp: cached_def has_block_def)
    with x show ?thesis by simp
  qed
  then show ?thesis using bget_find_ring [OF bs(1)] by simp
qed

definition demo_cache :: cache where
  "demo_cache = \<lparr>bufs = (\<lambda>_. \<lparr>valid = False, disk_owns = False, dev = 0, blockno = 0, refcnt = 0, data = (\<lambda>_. 0)\<rparr>),
     bnext = (\<lambda>a. if a = 100 then 200 else if a = 200 then 300 else 100),
     bprev = (\<lambda>a. if a = 100 then 300 else if a = 300 then 200 else 100)\<rparr>"

lemma demo_cache_ring: "cache_ring 100 [200, 300] demo_cache"
  by (simp add: cache_ring_def dring_def demo_cache_def)

theorem one_buffer_per_block_witness:
  "bget_find 100 1 7 (recycle 1 7 300 demo_cache) = Hit 300"
proof -
  have "bget_find 100 1 7 demo_cache = Recycle 300"
    unfolding bget_find_ring [OF demo_cache_ring] by (simp add: has_block_def demo_cache_def)
  moreover have "cache_run 100 (set [200, 300]) demo_cache"
    using demo_cache_ring by (rule cache_run.start) (simp add: demo_cache_def)
  ultimately have "cache_run 100 (set [200, 300]) (recycle 1 7 300 demo_cache)" by (auto intro: cache_run.miss)
  from one_buffer_per_block [OF this, of 300] show ?thesis by (simp add: recycle_def)
qed

end
