(* ===== verification/HandlerBuf.thy ===== *)
theory HandlerBuf
  imports Bio Policy Tracker
begin

text \<open>
  \<open>recovery_handler_buf\<close> (\<open>kernel/recovery_handler_buf.c\<close>): a broken buffer is taken out of
  the ring and a new one put at its end; then the log is made to fit the lost buffer. The
  requests of the disk device that refer to the broken buffer are not modelled.
\<close>

section \<open>The two lock handlers\<close>

definition recovery_handler_spinlock :: "string \<Rightarrow> lockid \<Rightarrow> nat \<Rightarrow> 'a memstate_scheme \<Rightarrow> 'a memstate_scheme res" where
  "recovery_handler_spinlock name lk broken s = bindE (initlock lk name s) (delete_memobj broken (mhead s MLspn) 0)"

definition recovery_handler_sleeplock ::
  "string \<Rightarrow> nat \<Rightarrow> nat \<Rightarrow> nat \<Rightarrow> 'a memstate_scheme \<Rightarrow> 'a memstate_scheme res" where
  "recovery_handler_sleeplock name n broken sz s = bindE (initsleeplock n name s) (\<lambda>s.
     bindE (delete_memobj broken (mhead s MLslp) sz s) (\<lambda>s. delete_memobj broken (mhead s MLspn) sz s))"

section \<open>Surgery on the ring\<close>

text \<open>
  The neighbour whose field points to the broken buffer is looked for in the head and in the
  static array only, the last match counting; 0 when there is none.
\<close>

definition neighbour :: "(nat \<Rightarrow> nat) \<Rightarrow> nat \<Rightarrow> (nat \<Rightarrow> nat) \<Rightarrow> nat \<Rightarrow> nat" where
  "neighbour f h arr b =
     fold (\<lambda>i p. if f (arr i) = b then arr i else p) [0..<NBUF] (if f h = b then h else 0)"

definition detach_buf :: "nat \<Rightarrow> (nat \<Rightarrow> nat) \<Rightarrow> nat \<Rightarrow> cache \<Rightarrow> cache res" where
  "detach_buf h arr b c =
     (let p = neighbour (bnext c) h arr b; n = neighbour (bprev c) h arr b in
      if p = 0 \<or> n = 0 then Inl Trap
      else Inr (set_links ((bnext c)(p := n), (bprev c)(n := p)) c))"

definition attach_buf :: "nat \<Rightarrow> nat \<Rightarrow> cache \<Rightarrow> cache" where
  "attach_buf h new c = set_links (link_back h new (bnext c, bprev c)) c"

definition clean_buf :: buf where
  "clean_buf = \<lparr>valid = False, disk_owns = False, dev = 0, blockno = 0, refcnt = 0, data = (\<lambda>_. 0)\<rparr>"

section \<open>The log after the loss of a buffer\<close>

definition evict_at :: "nat \<Rightarrow> int \<Rightarrow> loghdr \<Rightarrow> loghdr" where
  "evict_at k n h = h\<lparr>lh_block := (\<lambda>j. if k \<le> j \<and> int j < n then lh_block h (j + 1)
      else if int j = n then 0 else lh_block h j), lh_n := lh_n h - 1\<rparr>"

text \<open>
  The search of each logged block in the ring leaves its loop after the first buffer; \<open>first\<close>
  is the block of that buffer, \<open>None\<close> for an empty ring; \<open>k\<close> is \<open>nonum\<close>.
\<close>

function evict_loop :: "int option \<Rightarrow> nat \<Rightarrow> int \<Rightarrow> loghdr \<Rightarrow> loghdr \<Rightarrow> loghdr \<times> loghdr" where
  "evict_loop first i k h d =
     (if int i < lh_n h then
        let k = (case first of None \<Rightarrow> k | Some n \<Rightarrow> if n = lh_block h i then -1 else int i) in
        if k \<noteq> -1 then evict_loop first (Suc i) (-1) (evict_at (nat k) (lh_n h) h) (evict_at (nat k) (lh_n h) d)
        else evict_loop first (Suc i) k h d
      else (h, d))"
  by pat_completeness auto
termination
  by (relation "measure (\<lambda>(f, i, k, h, d). nat (lh_n h) - i)") (auto simp: evict_at_def)

declare evict_loop.simps [simp del]

definition first_block :: "'a biostate_scheme \<Rightarrow> int option" where
  "first_block s = (let b = bnext (bc s) (bhead s) in
     if b = bhead s then None else Some (blockno (bufs (bc s) b)))"

definition pop_to :: "int \<Rightarrow> 'a mach_scheme \<Rightarrow> 'a mach_scheme res" where
  "pop_to k s = foldE (\<lambda>_. pop_off) [0..<nat (noff s (hart s) - k)] s"

text \<open>\<open>islocks\<close> are the sleep locks of the inodes of the cache.\<close>

definition solve_inconsistency_buf ::
  "env \<Rightarrow> u64 list \<Rightarrow> nat \<Rightarrow> nat list \<Rightarrow> 'a biostate_scheme \<Rightarrow> 'a biostate_scheme res" where
  "solve_inconsistency_buf E pcs p islocks s =
     bindE (if committing (klog s) then
         let site = find (\<lambda>pc. inside E pc F_install_trans \<or> inside E pc F_commit) pcs in
         bindE (case site of None \<Rightarrow> Inr s
           | Some pc \<Rightarrow> if inside E pc F_install_trans then recover_from_log s else Inr (commit s)) (\<lambda>s.
         bindE (holding LkLog s) (\<lambda>(h, s).
         bindE (if h then Inr s else acquire LkLog s) (\<lambda>s. Inr (set_committing False s))))
       else Inr s) (\<lambda>s.
     let (h, d) = (if lh_n (lh (klog s)) \<noteq> 0 then evict_loop (first_block s) 0 0 (lh (klog s)) (dup_lhdr s)
                   else (lh (klog s), dup_lhdr s));
         s = s\<lparr>klog := (klog s)\<lparr>lh := h\<rparr>, dup_lhdr := d\<rparr>;
         s = (if outstanding (klog s) > 0 then add_outstanding (-1) s else s) in
     bindE (holding LkLog s) (\<lambda>(h, s).
     bindE (if h then release LkLog s else Inr s) (\<lambda>s.
     bindE (wakeup ChLog s) (\<lambda>s.
     bindE (foldE (\<lambda>n s. if spid (slocks s n) = p then releasesleep n s else Inr s) islocks s) (\<lambda>s.
     bindE (check_and_handle_trans_log p s) (\<lambda>(_, s). pop_to 2 s))))))"

section \<open>The handler\<close>

abbreviation BUF_SIZE :: nat where "BUF_SIZE \<equiv> 1120"   \<comment> \<open>\<open>sizeof(struct buf)\<close>\<close>

partial_function (option) ring_from :: "(nat \<Rightarrow> nat) \<Rightarrow> nat \<Rightarrow> nat \<Rightarrow> nat list option" where
  "ring_from f h b = (if b = h then Some [] else if b = 0 then None
     else Option.bind (ring_from f h (f b)) (\<lambda>bs. Some (b # bs)))"

text \<open>The buffers the process had locked are given back.\<close>

definition free_buf_lock :: "nat \<Rightarrow> nat \<Rightarrow> 'a biostate_scheme \<Rightarrow> 'a biostate_scheme res" where
  "free_buf_lock p b s = (let n = bslock s b in
     if spid (slocks s n) = p
     then bindE (if locked (locks s (LkSleep n)) then release (LkSleep n) s else Inr s) (releasesleep n)
     else Inr s)"

definition release_buf_locks :: "nat \<Rightarrow> 'a biostate_scheme \<Rightarrow> 'a biostate_scheme res" where
  "release_buf_locks p s = bindE (acquire LkBcache s) (\<lambda>s.
     case ring_from (bnext (bc s)) (bhead s) (bnext (bc s) (bhead s)) of
       None \<Rightarrow> Inl Trap
     | Some bs \<Rightarrow> bindE (foldE (free_buf_lock p) bs s) (release LkBcache))"

text \<open>
  \<open>pcs\<close> is the stack of the interrupted process, \<open>n\<close> the number of the new buffer's sleep
  lock, \<open>islocks\<close> are the sleep locks of the inodes.
\<close>

definition surgery_buf :: "nat \<Rightarrow> nat \<Rightarrow> nat \<Rightarrow> 'a biostate_scheme \<Rightarrow> 'a biostate_scheme res" where
  "surgery_buf broken new n s =
     bindE (holding LkBcache s) (\<lambda>(h, s).
     bindE (if h then Inr s else acquire LkBcache s) (\<lambda>s.
     bindE (detach_buf (bhead s) (barr s) broken (bc s)) (\<lambda>c.
     bindE (release LkBcache (map_bc (\<lambda>_. upd_buf new (\<lambda>_. clean_buf) c) s)) (\<lambda>s.
     bindE (recovery_handler_sleeplock ''bcache'' n broken BUF_SIZE (s\<lparr>bslock := (bslock s)(new := n)\<rparr>)) (\<lambda>s.
     bindE (acquire LkBcache s) (\<lambda>s.
       release LkBcache (map_bc (attach_buf (bhead s) new) s)))))))"

definition recovery_handler_buf ::
  "env \<Rightarrow> u64 list \<Rightarrow> nat \<Rightarrow> nat list \<Rightarrow> nat \<Rightarrow> nat \<Rightarrow> 'a biostate_scheme \<Rightarrow> (int \<times> 'a biostate_scheme) res" where
  "recovery_handler_buf E pcs n islocks broken p s =
     bindE (acquire_recovery_lock_buf broken s) (\<lambda>s.
     bindE (my_kalloc 0 0 s) (\<lambda>(new, s).
     if check_fail_stop_cases_buf E pcs \<or> new = 0 then Inr (FAIL_STOP, s)
     else bindE (check_and_count_procs_in_rcs RL_BUF broken s) (\<lambda>k.
       if k > 1 then Inr (FAIL_STOP, s)
       else bindE (delete_memobj broken (mhead s MLbuf) 0 s) (\<lambda>s.
         bindE (register_memobj new (mhead s MLbuf) s) (\<lambda>s.
         bindE (surgery_buf broken new n s) (\<lambda>s.
         bindE (release_buf_locks p s) (\<lambda>s.
         bindE (release_recovery_lock_buf new (update_recovery_lock_idx RL_BUF broken new s)) (\<lambda>s.
         bindE (solve_inconsistency_buf E pcs p islocks s) (\<lambda>s.
         bindE (exit_rcs_after_recovery p 0 s) (\<lambda>s.
           Inr (after_treatment_buf E pcs, s)))))))))))"

section \<open>What the surgery does to the ring\<close>

lemma fold_neighbour:
  "fold (\<lambda>i p. if f (arr i) = b then arr i else p) [0..<n] p =
     (case find (\<lambda>i. f (arr i) = b) (rev [0..<n]) of Some i \<Rightarrow> arr i | None \<Rightarrow> p)"
  by (induction n arbitrary: p) auto

text \<open>The neighbour is found when it is the head or one of the original buffers.\<close>

lemma neighbour_found:
  assumes "f q = b" and "q = h \<or> q \<in> arr ` {0..<NBUF}"
    and "\<And>x. x = h \<or> x \<in> arr ` {0..<NBUF} \<Longrightarrow> f x = b \<Longrightarrow> x = q"
  shows "neighbour f h arr b = q"
proof (cases "find (\<lambda>i. f (arr i) = b) (rev [0..<NBUF])")
  case None
  then have "\<forall>i < NBUF. f (arr i) \<noteq> b" by (auto simp: find_None_iff)
  then have "q = h" using assms(1,2) by auto
  then show ?thesis using None assms(1) by (simp add: neighbour_def fold_neighbour)
next
  case (Some i)
  then have "i < NBUF" "f (arr i) = b" by (auto dest!: find_SomeD)
  then have "arr i = q" using assms(3) by auto
  then show ?thesis using Some by (simp add: neighbour_def fold_neighbour)
qed

lemma path_image: "path f a zs c \<Longrightarrow> f ` insert a (set zs) = insert c (set zs)"
proof (induction zs arbitrary: a)
  case (Cons z zs)
  then have "f ` insert z (set zs) = insert c (set zs)" "f a = z" by auto
  then show ?case by auto
qed simp

lemma path_inj: "path f a zs c \<Longrightarrow> distinct (a # zs) \<Longrightarrow> c \<notin> set zs \<Longrightarrow> inj_on f (insert a (set zs))"
proof (induction zs arbitrary: a)
  case (Cons z zs)
  have "inj_on f (insert z (set zs))" using Cons by auto
  moreover have "f ` insert z (set zs) = insert c (set zs)" using Cons.prems(1) path_image by auto
  then have "f a \<notin> f ` insert z (set zs)" using Cons.prems by auto
  moreover have "insert z (set zs) - {a} = insert z (set zs)" using Cons.prems(2) by auto
  ultimately show ?case by (simp only: list.set inj_on_insert) blast
qed simp

lemma dring_succ_unique:
  assumes "dring h (xs @ b # ys) nx pv" and "x = h \<or> x \<in> set (xs @ b # ys)"
  shows "nx x = b \<longleftrightarrow> x = last (h # xs)" and "pv x = b \<longleftrightarrow> x = hd (ys @ [h])"
proof -
  have d: "distinct (h # xs @ b # ys)" "path nx h (xs @ b # ys) h" "path pv h (rev ys @ b # rev xs) h"
    using assms(1) by (auto simp: dring_def)
  have i: "inj_on nx (insert h (set (xs @ b # ys)))" "inj_on pv (insert h (set (rev ys @ b # rev xs)))"
    using path_inj [OF d(2,1)] path_inj [OF d(3)] d(1) by auto
  have l: "nx (last (h # xs)) = b" "pv (last (h # rev ys)) = b"
    using d(2,3) path_last by (auto simp: path_append simp del: last.simps)
  have m: "last (h # xs) \<in> insert h (set (xs @ b # ys))" "last (h # rev ys) \<in> insert h (set (rev ys @ b # rev xs))"
    using last_in_set [of "h # xs"] last_in_set [of "h # rev ys"] by auto
  show "nx x = b \<longleftrightarrow> x = last (h # xs)"
    using inj_on_eq_iff [OF i(1) _ m(1), of x] l(1) assms(2) by auto
  have "pv x = b \<longleftrightarrow> x = last (h # rev ys)"
    using inj_on_eq_iff [OF i(2) _ m(2), of x] l(2) assms(2) by auto
  then show "pv x = b \<longleftrightarrow> x = hd (ys @ [h])" by (simp only: last_rev_hd)
qed

text \<open>
  The other neighbours in the array must not point to the broken buffer, which holds when every
  original buffer is in the ring or has been replaced.
\<close>

lemma detach_buf_ring:
  assumes "cache_ring h (xs @ b # ys) c" and "0 < h"
    and "last (h # xs) = h \<or> last (h # xs) \<in> arr ` {0..<NBUF}"
    and "hd (ys @ [h]) = h \<or> hd (ys @ [h]) \<in> arr ` {0..<NBUF}"
    and "\<forall>x \<in> arr ` {0..<NBUF} - set (xs @ b # ys). bnext c x \<noteq> b \<and> bprev c x \<noteq> b"
  obtains nx pv where "detach_buf h arr b c = Inr (set_links (nx, pv) c)" and "dring h (xs @ ys) nx pv"
proof -
  let ?p = "last (h # xs)" and ?n = "hd (ys @ [h])"
  have r: "dring h (xs @ b # ys) (bnext c) (bprev c)" and z: "0 \<notin> set (xs @ b # ys)"
    using assms(1) by (simp_all add: cache_ring_def)
  note nb = dring_neighbours [OF r]
  have pin: "?p = h \<or> ?p \<in> set (xs @ b # ys)" using last_in_set [of "h # xs"] by auto
  have nin: "?n = h \<or> ?n \<in> set (xs @ b # ys)" by (cases ys) auto
  have on: "x = h \<or> x \<in> set (xs @ b # ys)"
    if "x = h \<or> x \<in> arr ` {0..<NBUF}" "bnext c x = b \<or> bprev c x = b" for x
    using that assms(5) by blast
  have p: "neighbour (bnext c) h arr b = ?p"
    using dring_succ_unique(1) [OF r] pin assms(3) on by (intro neighbour_found) (simp, blast+)
  have n: "neighbour (bprev c) h arr b = ?n"
    using dring_succ_unique(2) [OF r] nin assms(4) on by (intro neighbour_found) (simp, blast+)
  have nz: "?p \<noteq> 0" "?n \<noteq> 0" using pin nin z assms(2) by (metis less_nat_zero_code)+
  obtain nx pv where u: "unlink_node b (bnext c, bprev c) = (nx, pv)" by fastforce
  have ne: "?n \<noteq> b" using r by (cases ys) (auto simp: dring_def)
  have "nx = (bnext c)(?p := ?n)" "pv = (bprev c)(?n := ?p)"
    using u ne by (auto simp: unlink_node_def nb Let_def)
  then have "detach_buf h arr b c = Inr (set_links (nx, pv) c)" using p n nz by (simp add: detach_buf_def Let_def)
  then show thesis using that unlink_node_ring [OF r u] by blast
qed


text \<open>
  The replacement is not in the static array: when its neighbour breaks later, the search for
  the neighbour fails and a null pointer is written through.
\<close>

text \<open>
  The neighbours of the broken buffer are looked for in the static array only. A buffer that
  stands behind one that was itself put in by an earlier recovery has none there, and the
  handler follows a null pointer.
\<close>

text \<open>
  The neighbours of the broken buffer are looked for in the static array only. A buffer that
  stands behind one that was itself put in by an earlier recovery has none there, and the
  handler follows a null pointer.
\<close>

theorem second_buf_recovery_traps:
  assumes "cache_ring h (xs @ b # ys) c" and "0 < h"
    and "last (h # xs) \<noteq> h" and "last (h # xs) \<notin> arr ` {0..<NBUF}"
    and "\<forall>x \<in> arr ` {0..<NBUF} - set (xs @ b # ys). bnext c x \<noteq> b"
  shows "detach_buf h arr b c = Inl Trap"
proof -
  have r: "dring h (xs @ b # ys) (bnext c) (bprev c)" using assms(1) by (simp add: cache_ring_def)
  have "bnext c x \<noteq> b" if "x = h \<or> x \<in> arr ` {0..<NBUF}" for x
  proof
    assume e: "bnext c x = b"
    then have "x = h \<or> x \<in> set (xs @ b # ys)" using that assms(5) by blast
    then have "x = last (h # xs)" using dring_succ_unique(1) [OF r] e by blast
    then show False using that assms(3,4) by blast
  qed
  then have "bnext c h \<noteq> b" "find (\<lambda>i. bnext c (arr i) = b) (rev [0..<NBUF]) = None"
    by (auto simp: find_None_iff)
  then have "neighbour (bnext c) h arr b = 0" by (simp add: neighbour_def fold_neighbour)
  then show ?thesis by (simp add: detach_buf_def)
qed

lemma evict_subset:
  "fst (evict_loop f i k h d) = h' \<Longrightarrow> 0 \<le> k \<or> k = -1 \<Longrightarrow>
   f \<noteq> None \<Longrightarrow> lh_n h' \<le> lh_n h \<and> lh_block h' ` {0..<nat (lh_n h')} \<subseteq> lh_block h ` {0..<nat (lh_n h)}"
proof (induction f i k h d rule: evict_loop.induct)
  case (1 f i k h d)
  obtain n where f: "f = Some n" using 1(5) by auto
  let ?k = "if n = lh_block h i then -1 else int i"
  show ?case
  proof (cases "int i < lh_n h")
    case False
    then show ?thesis using 1(3) by (simp add: evict_loop.simps [of f i])
  next
    case True
    note step = evict_loop.simps [of f i k h d]
    show ?thesis
    proof (cases "n = lh_block h i")
      case eq: True
      then have "fst (evict_loop f (Suc i) (-1) h d) = h'" using 1(3) True f step by simp
      then show ?thesis using 1(2) [OF True] f eq by simp
    next
      case ne: False
      let ?h = "evict_at i (lh_n h) h" and ?d = "evict_at i (lh_n h) d"
      have "fst (evict_loop f (Suc i) (-1) ?h ?d) = h'" using 1(3) True f ne step by simp
      then have IH: "lh_n h' \<le> lh_n ?h \<and> lh_block h' ` {0..<nat (lh_n h')} \<subseteq> lh_block ?h ` {0..<nat (lh_n ?h)}"
        using 1(1) [OF True] f ne by simp
      have "lh_block ?h ` {0..<nat (lh_n ?h)} \<subseteq> lh_block h ` {0..<nat (lh_n h)}"
      proof
        fix x assume "x \<in> lh_block ?h ` {0..<nat (lh_n ?h)}"
        moreover have "lh_n ?h = lh_n h - 1" by (simp add: evict_at_def)
        ultimately obtain j where j: "x = lh_block ?h j" "int j < lh_n h - 1" by force
        then show "x \<in> lh_block h ` {0..<nat (lh_n h)}"
          by (cases "i \<le> j") (auto simp: evict_at_def)
      qed
      then show ?thesis using IH by (auto simp: evict_at_def)
    qed
  qed
qed


text \<open>Buffers 1 to 30 at the addresses 200, 300, ...; the one at 200 breaks.\<close>

definition demo_arr :: "nat \<Rightarrow> nat" where
  "demo_arr i = (if i = 0 then 200 else 300)"


text \<open>After that recovery, the buffer behind the replacement at 700 breaks.\<close>

definition demo_replaced :: cache where
  "demo_replaced = demo_cache\<lparr>bnext := (\<lambda>a. if a = 100 then 700 else if a = 700 then 300 else 100),
     bprev := (\<lambda>a. if a = 100 then 300 else if a = 300 then 700 else 100)\<rparr>"

theorem second_buf_recovery_traps_witness:
  "detach_buf 100 demo_arr 300 demo_replaced = Inl Trap"
proof -
  have "cache_ring 100 ([700] @ 300 # []) demo_replaced"
    by (simp add: cache_ring_def dring_def demo_replaced_def)
  then show ?thesis
    by (rule second_buf_recovery_traps) (auto simp: demo_arr_def demo_replaced_def)
qed


end
