(* ===== verification/PtbList.thy ===== *)
theory PtbList
  imports Allocator PteBits
begin

text \<open>
  The list of page-table pages (\<open>kernel/mlist_pagetable.c\<close>) and its search
  (\<open>search_ptb_mlist\<close> of \<open>kernel/mlist_tracker.c\<close>): a chain of pages of 511 packed
  entries, the last word of a page being the address of the next page, or of the first one.
\<close>

section \<open>Pages of entries\<close>

definition entry_at :: "nat \<Rightarrow> nat \<Rightarrow> nat" where
  "entry_at page i = page + 8 * i"

definition link_of :: "memory \<Rightarrow> nat \<Rightarrow> nat" where
  "link_of m page = m (entry_at page 511)"

definition entry_free :: "nat \<Rightarrow> bool" where
  "entry_free w \<longleftrightarrow> w = 0 \<or> w = JUNK"

definition node_of :: "nat \<Rightarrow> nat \<Rightarrow> nat \<Rightarrow> nat" where
  "node_of pd addr level = unat (of_nat addr OR pid2mlnode (of_nat pd) OR (of_nat level :: u64))"

definition node_pid :: "nat \<Rightarrow> nat" where
  "node_pid w = unat (mlnode2pid (of_nat w))"

definition node_pa :: "nat \<Rightarrow> nat" where
  "node_pa w = unat (mlnode2pa (of_nat w))"

section \<open>Walks over the pages\<close>

datatype place = Entry nat | LastPage nat | NullPage

partial_function (option) find_entry :: "memory \<Rightarrow> (nat \<Rightarrow> bool) \<Rightarrow> nat \<Rightarrow> nat \<Rightarrow> place option" where
  "find_entry m P h0 page =
     (if page = 0 then Some NullPage
      else case first_idx (\<lambda>i. P (m (entry_at page i))) 511 of
          Some i \<Rightarrow> Some (Entry (entry_at page i))
        | None \<Rightarrow> if link_of m page = h0 then Some (LastPage page)
            else find_entry m P h0 (link_of m page))"

text \<open>
  \<open>delete_ptb_mlist_all\<close> and \<open>search_ptb_mlist\<close> set their index to 0 at the end of a page and
  the loop increments it: entry 0 of every further page is left out, and the link is
  looked at like an entry.
\<close>

definition clear_page :: "nat \<Rightarrow> nat \<Rightarrow> nat \<Rightarrow> memory \<Rightarrow> memory" where
  "clear_page pd from page m = (\<lambda>a. if (\<exists>i \<in> {from..<512}. a = entry_at page i) \<and> node_pid (m a) = pd
     then 0 else m a)"

partial_function (option) clear_pid :: "nat \<Rightarrow> nat \<Rightarrow> nat \<Rightarrow> nat \<Rightarrow> memory \<Rightarrow> memory option" where
  "clear_pid pd h0 from page m =
     (let m' = clear_page pd from page m in
      if node_pid (link_of m page) = pd \<or> link_of m page = h0 then Some m'
      else clear_pid pd h0 1 (link_of m page) m')"

definition holds_target :: "nat \<Rightarrow> nat \<Rightarrow> bool" where
  "holds_target a w \<longleftrightarrow> node_pa w \<le> a \<and> a < node_pa w + PGSIZE"

partial_function (option) search_from :: "memory \<Rightarrow> nat \<Rightarrow> nat \<Rightarrow> nat \<Rightarrow> nat \<Rightarrow> nat option" where
  "search_from m a h0 from page =
     (case find (\<lambda>i. holds_target a (m (entry_at page i))) [from..<512] of
        Some i \<Rightarrow> Some (m (entry_at page i))
      | None \<Rightarrow> if link_of m page = h0 then Some 0 else search_from m a h0 1 (link_of m page))"

section \<open>Operations\<close>

definition register_ptb_mlist :: "nat \<Rightarrow> nat \<Rightarrow> nat \<Rightarrow> 'a memstate_scheme \<Rightarrow> 'a memstate_scheme res" where
  "register_ptb_mlist pd addr level s = (let h0 = ptb_list s; w = node_of pd addr level in
     bindE (acquire LkPtb s) (\<lambda>s.
     case find_entry (mem s) entry_free h0 h0 of
       None \<Rightarrow> Inl Blocked
     | Some NullPage \<Rightarrow> Inl Trap
     | Some (Entry e) \<Rightarrow> release LkPtb (s\<lparr>mem := (mem s)(e := w)\<rparr>)
     | Some (LastPage p) \<Rightarrow> bindE (kalloc s) (\<lambda>(pg, s).
         if pg = 0 then release LkPtb s
         else let m = (mem s)(entry_at pg 511 := h0, entry_at p 511 := pg) in
           release LkPtb (s\<lparr>mem := (case first_idx (\<lambda>i. entry_free (m (entry_at pg i))) 511 of
             Some i \<Rightarrow> m(entry_at pg i := w) | None \<Rightarrow> m)\<rparr>))))"

definition delete_ptb_mlist :: "nat \<Rightarrow> 'a memstate_scheme \<Rightarrow> 'a memstate_scheme res" where
  "delete_ptb_mlist addr s = (let h0 = ptb_list s in
     bindE (acquire LkPtb s) (\<lambda>s.
     case find_entry (mem s) (\<lambda>w. node_pa w = addr) h0 h0 of
       None \<Rightarrow> Inl Blocked
     | Some NullPage \<Rightarrow> Inl Trap
     | Some (Entry e) \<Rightarrow> release LkPtb (s\<lparr>mem := (mem s)(e := 0)\<rparr>)
     | Some (LastPage p) \<Rightarrow> release LkPtb s))"

definition delete_ptb_mlist_all :: "nat \<Rightarrow> 'a memstate_scheme \<Rightarrow> 'a memstate_scheme res" where
  "delete_ptb_mlist_all pd s = bindE (acquire LkPtb s) (\<lambda>s.
     case clear_pid pd (ptb_list s) 0 (ptb_list s) (mem s) of
       None \<Rightarrow> Inl Blocked | Some m \<Rightarrow> release LkPtb (s\<lparr>mem := m\<rparr>))"

definition search_ptb_mlist :: "nat \<Rightarrow> 'a memstate_scheme \<Rightarrow> (nat \<times> 'a memstate_scheme) res" where
  "search_ptb_mlist a s = bindE (acquire LkGiant s) (\<lambda>s.
     case search_from (mem s) a (ptb_list s) 0 (ptb_list s) of
       None \<Rightarrow> Inl Blocked | Some w \<Rightarrow> bindE (release LkGiant s) (\<lambda>s. Inr (w, s)))"

section \<open>Properties\<close>

text \<open>The pages of the list, in order.\<close>

fun ptb_chain :: "memory \<Rightarrow> nat \<Rightarrow> nat list \<Rightarrow> bool" where
  "ptb_chain m h0 [] \<longleftrightarrow> False"
| "ptb_chain m h0 [p] \<longleftrightarrow> p \<noteq> 0 \<and> link_of m p = h0"
| "ptb_chain m h0 (p # q # ps) \<longleftrightarrow> p \<noteq> 0 \<and> link_of m p = q \<and> q \<noteq> h0 \<and> ptb_chain m h0 (q # ps)"

definition page_entries :: "nat \<Rightarrow> nat list" where
  "page_entries p = map (entry_at p) [0..<511]"

lemma find_map: "find P (map f xs) = map_option f (find (\<lambda>x. P (f x)) xs)"
  by (induction xs) simp_all

lemma find_entry_chain:
  "ptb_chain m h0 (p # ps) \<Longrightarrow> find_entry m P h0 p =
     Some (case find (\<lambda>e. P (m e)) (concat (map page_entries (p # ps))) of
       Some e \<Rightarrow> Entry e | None \<Rightarrow> LastPage (last (p # ps)))"
proof (induction m h0 "p # ps" arbitrary: p ps rule: ptb_chain.induct)
  case (2 m h0 p)
  then show ?case
    by (subst find_entry.simps)
      (auto simp: first_idx_def page_entries_def find_map o_def split: option.splits)
next
  case (3 m h0 p q ps)
  then show ?case
    by (subst find_entry.simps)
      (auto simp: first_idx_def page_entries_def find_map o_def find_append split: option.splits)
qed

lemma search_from_entries:
  "ptb_chain m h0 (p # ps) \<Longrightarrow> search_from m a h0 k p =
     Some (case find (\<lambda>e. holds_target a (m e))
         (concat (map (entry_at p) [k..<512] # map (\<lambda>q. map (entry_at q) [1..<512]) ps)) of
       Some e \<Rightarrow> m e | None \<Rightarrow> 0)"
proof (induction m h0 "p # ps" arbitrary: k p ps rule: ptb_chain.induct)
  case (2 m h0 p)
  then show ?case
    by (subst search_from.simps) (auto simp: find_map o_def split: option.splits)
next
  case (3 m h0 p q ps)
  then show ?case
    by (subst search_from.simps) (auto simp: find_map o_def find_append split: option.splits)
qed

text \<open>The words \<open>delete_ptb_mlist_all\<close> looks at: entry 0 of later pages is not one of them.\<close>

definition visited :: "nat list \<Rightarrow> nat set" where
  "visited ps = entry_at (List.hd ps) ` {0..<512} \<union> (\<Union>q \<in> set (tl ps). entry_at q ` {1..<512})"

definition cleared :: "nat \<Rightarrow> nat set \<Rightarrow> memory \<Rightarrow> memory" where
  "cleared pd A m = (\<lambda>a. if a \<in> A \<and> node_pid (m a) = pd then 0 else m a)"

lemma node_pid_0: "node_pid 0 = 0"
  by (simp add: node_pid_def mlnode2pid_def)

lemma cleared_cleared: "pd \<noteq> 0 \<Longrightarrow> cleared pd B (cleared pd A m) = cleared pd (A \<union> B) m"
  by (auto simp: cleared_def node_pid_0 fun_eq_iff)

lemma clear_page_cleared: "clear_page pd k p m = cleared pd (entry_at p ` {k..<512}) m"
  by (auto simp: clear_page_def cleared_def fun_eq_iff)

text \<open>Links are addresses of pages, which read as entries of process 0.\<close>

definition links_ok :: "memory \<Rightarrow> nat list \<Rightarrow> bool" where
  "links_ok m ps \<longleftrightarrow> (\<forall>p \<in> set ps. node_pid (link_of m p) = 0)"

lemma cleared_link: "pd \<noteq> 0 \<Longrightarrow> node_pid (link_of m p) = 0 \<Longrightarrow> link_of (cleared pd A m) p = link_of m p"
  by (simp add: link_of_def cleared_def)

lemma cleared_chain:
  "ptb_chain m h0 ps \<Longrightarrow> links_ok m ps \<Longrightarrow> pd \<noteq> 0 \<Longrightarrow> ptb_chain (cleared pd A m) h0 ps \<and> links_ok (cleared pd A m) ps"
  by (induction m h0 ps rule: ptb_chain.induct) (auto simp: cleared_link links_ok_def)

lemma clear_pid_exact:
  "ptb_chain m h0 (p # ps) \<Longrightarrow> links_ok m (p # ps) \<Longrightarrow> pd \<noteq> 0 \<Longrightarrow>
   clear_pid pd h0 k p m =
     Some (cleared pd (entry_at p ` {k..<512} \<union> (\<Union>q \<in> set ps. entry_at q ` {1..<512})) m)"
proof (induction ps arbitrary: p m k)
  case Nil
  then show ?case by (subst clear_pid.simps) (simp add: links_ok_def clear_page_cleared Let_def)
next
  case (Cons q ps)
  let ?m = "cleared pd (entry_at p ` {k..<512}) m"
  have c: "ptb_chain ?m h0 (q # ps)" "links_ok ?m (q # ps)"
    using cleared_chain [OF Cons.prems, of "entry_at p ` {k..<512}"] by (simp_all add: links_ok_def)
  have l: "link_of m p = q" "q \<noteq> h0" "node_pid q = 0"
    using Cons.prems(1,2) by (auto simp: links_ok_def)
  have "clear_pid pd h0 k p m = clear_pid pd h0 1 q ?m"
    using l Cons.prems(3) by (subst clear_pid.simps) (simp add: clear_page_cleared Let_def)
  also have "\<dots> = Some (cleared pd (entry_at q ` {1..<512} \<union> (\<Union>q \<in> set ps. entry_at q ` {1..<512})) ?m)"
    using c Cons.prems(3) by (intro Cons.IH) simp_all
  finally show ?case
    using Cons.prems(3) by (simp add: cleared_cleared Un_ac)
qed

lemma node_roundtrip:
  assumes "aligned 12 a" and "below 10 p" and "below 2 l"
  shows "mlnode2pa (a OR pid2mlnode p OR l) = a"
    and "mlnode2pid (a OR pid2mlnode p OR l) = p"
    and "mlnode2level (a OR pid2mlnode p OR l) = l"
proof -
  note bits = mlnode2pa_def mlnode2pid_def mlnode2level_def pid2mlnode_def const_bits mask_bits
  have f: "bit a i \<Longrightarrow> 12 \<le> i \<and> i < 64" "bit p i \<Longrightarrow> i < 10" "bit l i \<Longrightarrow> i < 2" for i
    using assms bit_imp_le_length [of a i] by (auto simp: below_def aligned_def not_less [symmetric])
  show "mlnode2pa (a OR pid2mlnode p OR l) = a"
    by (intro bit_word_eqI, simp only: bits) (auto dest: f)
  show "mlnode2pid (a OR pid2mlnode p OR l) = p"
    by (intro bit_word_eqI, simp only: bits) (auto dest: f)
  show "mlnode2level (a OR pid2mlnode p OR l) = l"
    by (intro bit_word_eqI, simp only: bits) (auto dest: f)
qed

lemma node_of_fields:
  assumes "aligned 12 (of_nat addr :: u64)" and "addr < 2 ^ 64" and "pd < 1024" and "level < 4"
  shows "node_pa (node_of pd addr level) = addr" and "node_pid (node_of pd addr level) = pd"
proof -
  have "below 10 (of_nat pd :: u64)" "below 2 (of_nat level :: u64)"
    using assms(3,4) by (auto intro!: below_less simp: unat_of_nat)
  note r = node_roundtrip [OF assms(1) this]
  show "node_pa (node_of pd addr level) = addr"
    using assms(2) by (simp add: node_pa_def node_of_def r unat_of_nat)
  show "node_pid (node_of pd addr level) = pd"
    using assms(3) by (simp add: node_pid_def node_of_def r unat_of_nat)
qed

lemma ptb_list_sel [simp]:
  "ptb_list (taken lk s) = ptb_list s" "ptb_list (saved s) = ptb_list s"
  by (simp_all add: taken_def saved_def)

text \<open>
  C33. \<open>delete_ptb_mlist_all\<close> ends and clears the entries of the process in all the words it
  visits (the whole first page, and every further page without its first entry), changes
  nothing else, and leaves the lock free.
\<close>

theorem ptb_delete_all_exact:
  assumes "cpu_ok s" and "free_lock LkPtb s" and "ptb_chain (mem s) (ptb_list s) (ptb_list s # ps)"
    and "links_ok (mem s) (ptb_list s # ps)" and "pd \<noteq> 0"
  shows "delete_ptb_mlist_all pd s =
    Inr (saved (s\<lparr>mem := cleared pd (visited (ptb_list s # ps)) (mem s)\<rparr>))"
  using assms clear_pid_exact [OF assms(3-5), of 0]
  by (simp add: delete_ptb_mlist_all_def lock_simps visited_def)

lemma visited_list:
  "set (concat (map (entry_at p) [0..<512] # map (\<lambda>q. map (entry_at q) [1..<512]) ps)) = visited (p # ps)"
  by (auto simp: visited_def)

text \<open>
  A page table whose entry is the first of any page but the first of the list is never found
  by the search for a broken address.
\<close>

text \<open>
  A page table whose entry is the first of any page but the first of the list is never found
  by the search for a broken address.
\<close>

text \<open>
  A page table whose entry is the first of any page but the first of the list is never found
  by the search for a broken address.
\<close>

text \<open>
  A page table whose entry is the first of any page but the first of the list is never found
  by the search for a broken address.
\<close>

theorem ptb_search_misses:
  assumes "cpu_ok s" and "free_lock LkGiant s" and "ptb_chain (mem s) (ptb_list s) (ptb_list s # ps)"
    and "q \<in> set ps" and "holds_target a (mem s (entry_at q 0))"
    and "\<forall>e \<in> visited (ptb_list s # ps). \<not> holds_target a (mem s e)"
  shows "search_ptb_mlist a s = Inr (0, saved s)"
proof -
  have "find (\<lambda>e. holds_target a (mem s e)) (concat (map (entry_at (ptb_list s)) [0..<512] #
      map (\<lambda>q. map (entry_at q) [1..<512]) ps)) = None"
    using assms(6) unfolding find_None_iff visited_list by blast
  then show ?thesis
    using assms(1,2) search_from_entries [OF assms(3), of a 0] by (simp add: search_ptb_mlist_def lock_simps)
qed

text \<open>A table registered in the first page is found through every address inside it.\<close>


definition demo_ptb :: memory where
  "demo_ptb a = (if a = 0x80110ff8 then 0x80120000 else if a = 0x80120ff8 then 0x80110000
     else if a = 0x80120000 then 0x8030001c else 0)"

lemma boot_ptb_list [simp]: "ptb_list (boot_mem m fl) = 0x80110000"
  by (simp add: boot_mem_def memstate.defs transtate.defs)

lemma demo_ptb_pa: "node_pa (demo_ptb e) \<in> {0, 0x80120000, 0x80110000, 0x80300000}"
  by (simp add: demo_ptb_def node_pa_def mlnode2pa_def)

lemma demo_ptb_chain: "ptb_chain demo_ptb 0x80110000 [0x80110000, 0x80120000]"
  by (simp add: link_of_def entry_at_def demo_ptb_def)

theorem ptb_delete_all_exact_witness:
  "\<exists>m. delete_ptb_mlist_all 7 (boot_mem demo_ptb 0) = Inr (saved (boot_mem demo_ptb 0\<lparr>mem := m\<rparr>)) \<and>
     node_pid (m 0x80120000) = 7"
proof -
  have l: "links_ok demo_ptb [0x80110000, 0x80120000]"
    by (simp add: links_ok_def link_of_def entry_at_def demo_ptb_def node_pid_def mlnode2pid_def)
  have "0x80120000 \<notin> visited [0x80110000, 0x80120000]" by (auto simp: visited_def entry_at_def)
  then have "node_pid (cleared 7 (visited [0x80110000, 0x80120000]) demo_ptb 0x80120000) = 7"
    by (simp add: cleared_def demo_ptb_def node_pid_def mlnode2pid_def)
  then show ?thesis
    using ptb_delete_all_exact [of "boot_mem demo_ptb 0" "[0x80120000]" 7] demo_ptb_chain l by auto
qed

theorem ptb_search_misses_witness:
  "search_ptb_mlist 0x80300010 (boot_mem demo_ptb 0) = Inr (0, saved (boot_mem demo_ptb 0))"
proof (rule ptb_search_misses [where q = "0x80120000" and ps = "[0x80120000]"])
  have "\<not> holds_target 0x80300010 (demo_ptb e)" if "e \<noteq> 0x80120000" for e
    using that by (auto simp: holds_target_def node_pa_def mlnode2pa_def demo_ptb_def)
  then show "\<forall>e \<in> visited (ptb_list (boot_mem demo_ptb 0) # [0x80120000]).
      \<not> holds_target 0x80300010 (mem (boot_mem demo_ptb 0) e)"
    by (auto simp: visited_def entry_at_def)
  show "holds_target 0x80300010 (mem (boot_mem demo_ptb 0) (entry_at 0x80120000 0))"
    by (simp add: entry_at_def demo_ptb_def holds_target_def node_pa_def mlnode2pa_def)
  show "ptb_chain (mem (boot_mem demo_ptb 0)) (ptb_list (boot_mem demo_ptb 0)) (ptb_list (boot_mem demo_ptb 0) # [0x80120000])"
    using demo_ptb_chain by simp
qed simp_all

definition demo_ptb1 :: memory where
  "demo_ptb1 a = (if a = 0x80110ff8 then 0x80110000 else 0)"


end
