(* ===== verification/KString.thy ===== *)
theory KString
  imports Prelude
begin

text \<open>
  \<open>kernel/string.c\<close>: memory and string routines on a byte-addressed memory with 64-bit
  addresses, and their equivalence with what they are meant to compute. A loop that runs until
  it finds a zero byte may not end; such a routine is a partial function into \<open>option\<close>.
\<close>

type_synonym bytes = "u64 \<Rightarrow> u8"

section \<open>Blocks of memory\<close>

text \<open>\<open>cdst[i] = c\<close> for \<open>i\<close> from 0 to \<open>n - 1\<close>.\<close>

definition memset :: "u64 \<Rightarrow> u32 \<Rightarrow> u32 \<Rightarrow> bytes \<Rightarrow> bytes" where
  "memset dst c n m = fold (\<lambda>i m. m(dst + of_nat i := ucast c)) [0..<unat n] m"

fun memcmp_loop :: "nat \<Rightarrow> u64 \<Rightarrow> u64 \<Rightarrow> bytes \<Rightarrow> int" where
  "memcmp_loop 0 s1 s2 m = 0"
| "memcmp_loop (Suc n) s1 s2 m =
     (if m s1 \<noteq> m s2 then uint (m s1) - uint (m s2) else memcmp_loop n (s1 + 1) (s2 + 1) m)"

definition memcmp :: "u64 \<Rightarrow> u64 \<Rightarrow> u32 \<Rightarrow> bytes \<Rightarrow> int" where
  "memcmp v1 v2 n m = memcmp_loop (unat n) v1 v2 m"

text \<open>\<open>*--d = *--s\<close> and \<open>*d++ = *s++\<close>, \<open>n\<close> times.\<close>

fun copy_down :: "nat \<Rightarrow> u64 \<Rightarrow> u64 \<Rightarrow> bytes \<Rightarrow> bytes" where
  "copy_down 0 s d m = m"
| "copy_down (Suc n) s d m = copy_down n (s - 1) (d - 1) (m(d - 1 := m (s - 1)))"

fun copy_up :: "nat \<Rightarrow> u64 \<Rightarrow> u64 \<Rightarrow> bytes \<Rightarrow> bytes" where
  "copy_up 0 s d m = m"
| "copy_up (Suc n) s d m = copy_up n (s + 1) (d + 1) (m(d := m s))"

definition memmove :: "u64 \<Rightarrow> u64 \<Rightarrow> u32 \<Rightarrow> bytes \<Rightarrow> bytes" where
  "memmove dst src n m =
     (if src < dst \<and> src + ucast n > dst
      then copy_down (unat n) (src + ucast n) (dst + ucast n) m
      else copy_up (unat n) src dst m)"

definition memcpy :: "u64 \<Rightarrow> u64 \<Rightarrow> u32 \<Rightarrow> bytes \<Rightarrow> bytes" where
  "memcpy dst src n m = memmove dst src n m"

section \<open>Strings\<close>

fun strncmp_loop :: "nat \<Rightarrow> u64 \<Rightarrow> u64 \<Rightarrow> bytes \<Rightarrow> int" where
  "strncmp_loop 0 p q m = 0"
| "strncmp_loop (Suc n) p q m =
     (if m p \<noteq> 0 \<and> m p = m q then strncmp_loop n (p + 1) (q + 1) m
      else uint (m p) - uint (m q))"

definition strncmp :: "u64 \<Rightarrow> u64 \<Rightarrow> u32 \<Rightarrow> bytes \<Rightarrow> int" where
  "strncmp p q n m = strncmp_loop (unat n) p q m"

text \<open>A counter that is zero or negative runs no iteration.\<close>

fun zero_fill :: "nat \<Rightarrow> u64 \<Rightarrow> bytes \<Rightarrow> bytes" where
  "zero_fill 0 s m = m"
| "zero_fill (Suc n) s m = zero_fill n (s + 1) (m(s := 0))"

fun strncpy_loop :: "nat \<Rightarrow> u64 \<Rightarrow> u64 \<Rightarrow> bytes \<Rightarrow> bytes" where
  "strncpy_loop 0 s t m = m"
| "strncpy_loop (Suc n) s t m =
     (let m' = m(s := m t) in
      if m t \<noteq> 0 then strncpy_loop n (s + 1) (t + 1) m' else zero_fill n (s + 1) m')"

definition strncpy :: "u64 \<Rightarrow> u64 \<Rightarrow> int \<Rightarrow> bytes \<Rightarrow> bytes" where
  "strncpy s t n m = strncpy_loop (nat n) s t m"

fun safestrcpy_loop :: "nat \<Rightarrow> u64 \<Rightarrow> u64 \<Rightarrow> bytes \<Rightarrow> bytes" where
  "safestrcpy_loop 0 s t m = m(s := 0)"
| "safestrcpy_loop (Suc n) s t m =
     (let m' = m(s := m t) in
      if m t \<noteq> 0 then safestrcpy_loop n (s + 1) (t + 1) m' else m'(s + 1 := 0))"

definition safestrcpy :: "u64 \<Rightarrow> u64 \<Rightarrow> int \<Rightarrow> bytes \<Rightarrow> bytes" where
  "safestrcpy s t n m = (if n \<le> 0 then m else safestrcpy_loop (nat n - 1) s t m)"

partial_function (option) strlen_from :: "bytes \<Rightarrow> u64 \<Rightarrow> nat \<Rightarrow> nat option" where
  "strlen_from m s n = (if m (s + of_nat n) = 0 then Some n else strlen_from m s (Suc n))"

definition strlen :: "u64 \<Rightarrow> bytes \<Rightarrow> nat option" where
  "strlen s m = strlen_from m s 0"

section \<open>Offsets in a block\<close>

lemma unat_lt64: "unat (x :: u64) < 18446744073709551616"
  using unsigned_less [of x, where ?'a = nat] by simp

lemma unat_lt32: "unat (x :: u32) < 4294967296"
  using unsigned_less [of x, where ?'a = nat] by simp

lemma unat_of_nat64: "n < 2 ^ 64 \<Longrightarrow> unat (of_nat n :: u64) = n"
  by (simp add: unat_of_nat)

text \<open>\<open>within d n a\<close>: the address \<open>a\<close> is one of the \<open>n\<close> bytes from \<open>d\<close>.\<close>

definition within :: "u64 \<Rightarrow> nat \<Rightarrow> u64 \<Rightarrow> bool" where
  "within d n a \<longleftrightarrow> unat (a - d) < n"

lemma within_0 [simp]: "\<not> within d 0 a" by (simp add: within_def)

lemma within_first: "n > 0 \<Longrightarrow> within d n d" by (simp add: within_def)

lemma unat_minus_one_eq: "x \<noteq> 0 \<Longrightarrow> unat (x - 1 :: u64) = unat x - 1"
  by (metis unat_minus_one)

lemma within_Suc:
  "Suc n < 2 ^ 64 \<Longrightarrow> within d (Suc n) a \<longleftrightarrow> a = d \<or> within (d + 1) n a"
proof -
  assume n: "Suc n < 2 ^ 64"
  show ?thesis
  proof (cases "a = d")
    case True then show ?thesis by (simp add: within_def)
  next
    case False
    then have "a - d \<noteq> 0" by simp
    then have "unat (a - (d + 1)) = unat (a - d) - 1" "unat (a - d) > 0"
      using unat_minus_one_eq [of "a - d"] by (simp_all add: algebra_simps unat_gt_0)
    then show ?thesis using False by (auto simp: within_def)
  qed
qed

lemma not_within_next: "n < 2 ^ 64 \<Longrightarrow> \<not> within (d + 1) (n - 1) d"
proof -
  assume n: "n < 2 ^ 64"
  have "unat (d - (d + 1)) = 2 ^ 64 - 1"
    by (simp add: unsigned_minus_1_eq_mask mask_eq_exp_minus_1)
  then show ?thesis using n by (simp add: within_def)
qed

lemma within_last: "n < 2 ^ 64 \<Longrightarrow> within b (Suc n) a \<longleftrightarrow> within b n a \<or> a = b + of_nat n"
proof -
  assume n: "n < 2 ^ 64"
  have "unat (a - b) = n \<longleftrightarrow> a = b + of_nat n"
  proof
    assume "unat (a - b) = n"
    then have "a - b = of_nat n" using n by (simp add: word_unat_eq_iff unat_of_nat64)
    then show "a = b + of_nat n" by (simp add: algebra_simps)
  next
    assume "a = b + of_nat n"
    then show "unat (a - b) = n" using n by (simp add: unat_of_nat64)
  qed
  then show ?thesis by (auto simp: within_def less_Suc_eq)
qed

section \<open>What the routines compute\<close>

text \<open>The memory after \<open>n\<close> bytes from \<open>s\<close> have been copied to \<open>d\<close> all at once.\<close>

definition block_copied :: "u64 \<Rightarrow> u64 \<Rightarrow> nat \<Rightarrow> bytes \<Rightarrow> bytes" where
  "block_copied d s n m = (\<lambda>a. if within d n a then m (s + (a - d)) else m a)"

lemma copy_up_exact:
  "n < 2 ^ 64 \<Longrightarrow> d = s \<or> unat (d - s) \<ge> n \<Longrightarrow> copy_up n s d m = block_copied d s n m"
proof (induction n arbitrary: s d m)
  case 0
  then show ?case by (simp add: block_copied_def)
next
  case (Suc n)
  have IH: "copy_up n (s + 1) (d + 1) (m(d := m s)) = block_copied (d + 1) (s + 1) n (m(d := m s))"
    using Suc.prems by (intro Suc.IH) auto
  have nw: "\<not> within (d + 1) n d" using not_within_next [OF Suc.prems(1), of d] by simp
  have ne: "s = d" if "within (d + 1) n a" and e: "s + (a - d) = d" for a
  proof -
    have "within d (Suc n) a" using that Suc.prems(1) by (simp add: within_Suc)
    moreover have "a - d = d - s" using e by (metis add_diff_cancel_left')
    ultimately have "unat (d - s) < Suc n" by (simp add: within_def)
    then show "s = d" using Suc.prems(2) by auto
  qed
  have "s + 1 + (a - (d + 1)) = s + (a - d)" for a by (simp add: algebra_simps)
  then show ?case unfolding copy_up.simps IH
    using Suc.prems(1) nw
    by (auto simp: block_copied_def fun_eq_iff within_Suc dest: ne)
qed

lemma copy_down_exact:
  "n < 2 ^ 64 \<Longrightarrow> d = s \<or> unat (s - d) \<ge> n \<Longrightarrow>
   copy_down n (s + of_nat n) (d + of_nat n) m = block_copied d s n m"
proof (induction n arbitrary: m)
  case 0
  then show ?case by (simp add: block_copied_def)
next
  case (Suc n)
  let ?e = "d + of_nat n"
  have IH: "copy_down n (s + of_nat n) ?e (m(?e := m (s + of_nat n))) =
      block_copied d s n (m(?e := m (s + of_nat n)))"
    using Suc.prems by (intro Suc.IH) auto
  have n: "n < 2 ^ 64" using Suc.prems(1) by simp
  have ne: "s = d" if "within d n a" and e: "s + (a - d) = ?e" for a
  proof (rule ccontr)
    assume "s \<noteq> d"
    then have big: "unat (s - d) \<ge> Suc n" using Suc.prems(2) by auto
    have "a - d = of_nat n - (s - d)" using e by (simp add: algebra_simps)
    moreover have "unat (of_nat n - (s - d)) \<ge> Suc n"
    proof -
      have "unat (of_nat n - (s - d)) = 2 ^ 64 + n - unat (s - d)"
        unfolding unat_sub_if_size [of "of_nat n"] unat_of_nat64 [OF n]
        using big unat_lt64 [of "s - d"] by (simp add: word_size)
      then show ?thesis using unat_lt64 [of "s - d"] by simp
    qed
    ultimately have "unat (a - d) \<ge> Suc n" by (simp only:)
    then show False using that(1) by (simp add: within_def)
  qed
  have e: "s + of_nat (Suc n) - 1 = s + of_nat n" "d + of_nat (Suc n) - 1 = ?e" by simp_all
  show ?case unfolding copy_down.simps e IH
    using n by (auto simp: block_copied_def fun_eq_iff within_last simp del: of_nat_Suc dest: ne)
qed

lemma memmove_block:
  assumes "unat src + unat n \<le> 2 ^ 64" and "unat dst + unat n < 2 ^ 64"
  shows "memmove dst src n m = block_copied dst src (unat n) m"
proof -
  obtain k where k: "unat n = k" and n64: "k < 2 ^ 64" using unat_lt32 [of n] by simp
  have n: "ucast n = (of_nat k :: u64)" using k by (metis of_nat_unat)
  have sum: "unat (src + of_nat k) = (if unat src + k < 2 ^ 64 then unat src + k else 0)"
    using assms(1) n64 by (simp add: k unat_plus_if_size word_size unat_of_nat64)
  show ?thesis
  proof (cases "src < dst \<and> src + of_nat k > dst")
    case True
    have "unat (src - dst) \<ge> k"
      using True assms k n64 unat_lt64 [of dst]
      by (simp add: unat_sub_if_size word_less_nat_alt word_size)
    then show ?thesis
      using True n n64 copy_down_exact [of k dst src m] by (simp add: memmove_def k)
  next
    case False
    have "dst = src \<or> unat (dst - src) \<ge> k"
      using False assms k sum unat_lt64 [of src] unat_lt64 [of dst]
      by (auto simp: unat_sub_if_size word_less_nat_alt word_size word_le_nat_alt word_unat_eq_iff
        split: if_splits)
    then show ?thesis
      using False n n64 copy_up_exact [of k dst src m] by (auto simp: memmove_def k)
  qed
qed

text \<open>
  C31. The two copy loops of \<open>memmove\<close> have the effect of a simultaneous copy: for every pair
  of blocks, overlapping or not, each destination byte gets the byte the source had before, and
  no other byte changes.
\<close>

theorem memmove_exact:
  assumes "unat src + unat n \<le> 2 ^ 64" and "unat dst + unat n < 2 ^ 64"
  shows "memmove dst src n m = block_copied dst src (unat n) m"
  using assms by (rule memmove_block)

text \<open>Comparing blocks and bounded strings.\<close>

lemma memcmp_loop_zero:
  "memcmp_loop n s1 s2 m = 0 \<longleftrightarrow> (\<forall>i < n. m (s1 + of_nat i) = m (s2 + of_nat i))"
proof (induction n arbitrary: s1 s2)
  case (Suc n)
  show ?case by (auto simp: Suc.IH All_less_Suc2 add.assoc word_uint_eq_iff)
qed simp

lemma zero_fill_exact: "n < 2 ^ 64 \<Longrightarrow> zero_fill n s m = (\<lambda>a. if within s n a then 0 else m a)"
proof (induction n arbitrary: s m)
  case (Suc n)
  then show ?case by (auto simp: fun_eq_iff within_Suc)
qed (simp add: fun_eq_iff)

definition changes_only :: "u64 \<Rightarrow> nat \<Rightarrow> bytes \<Rightarrow> bytes \<Rightarrow> bool" where
  "changes_only d n m m' \<longleftrightarrow> (\<forall>a. \<not> within d n a \<longrightarrow> m' a = m a)"

lemma strncpy_loop_bounds: "n < 2 ^ 64 \<Longrightarrow> changes_only s n m (strncpy_loop n s t m)"
proof (induction n arbitrary: s t m)
  case (Suc n)
  have "changes_only (s + 1) n (m(s := m t)) (strncpy_loop n (s + 1) (t + 1) (m(s := m t)))"
    using Suc.prems by (intro Suc.IH) simp
  then show ?case using Suc.prems
    by (auto simp: changes_only_def Let_def within_Suc zero_fill_exact)
qed (simp add: changes_only_def)

lemma safestrcpy_loop_bounds:
  "Suc n < 2 ^ 64 \<Longrightarrow> changes_only s (Suc n) m (safestrcpy_loop n s t m) \<and>
     (\<exists>k \<le> n. safestrcpy_loop n s t m (s + of_nat k) = 0)"
proof (induction n arbitrary: s t m)
  case 0
  then show ?case by (simp add: changes_only_def within_Suc)
next
  case (Suc n)
  have IH: "changes_only (s + 1) (Suc n) (m(s := m t)) (safestrcpy_loop n (s + 1) (t + 1) (m(s := m t)))"
    "\<exists>k \<le> n. safestrcpy_loop n (s + 1) (t + 1) (m(s := m t)) (s + 1 + of_nat k) = 0"
    using Suc.IH [of "s + 1" "m(s := m t)" "t + 1"] Suc.prems by (simp_all del: fun_upd_apply)
  from IH(2) obtain k where k: "k \<le> n"
    "safestrcpy_loop n (s + 1) (t + 1) (m(s := m t)) (s + of_nat (Suc k)) = 0"
    by (auto simp: algebra_simps)
  have c: "changes_only s (Suc (Suc n)) m (safestrcpy_loop (Suc n) s t m)"
    using IH(1) Suc.prems by (auto simp: changes_only_def Let_def within_Suc)
  have "\<exists>k \<le> Suc n. safestrcpy_loop (Suc n) s t m (s + of_nat k) = 0"
  proof (cases "m t = 0")
    case True
    then show ?thesis by (intro exI [of _ "Suc 0"]) (simp add: Let_def)
  next
    case False
    then show ?thesis using k by (intro exI [of _ "Suc k"]) (simp add: Let_def)
  qed
  with c show ?case by blast
qed

text \<open>
  \<open>safestrcpy\<close> changes at most \<open>n\<close> bytes from its destination on, and leaves a zero byte
  among them, whatever the source holds.
\<close>

theorem safestrcpy_bounded:
  assumes "0 < n" and "n < 2 ^ 31"
  shows "changes_only s (nat n) m (safestrcpy s t n m) \<and>
    (\<exists>k < nat n. safestrcpy s t n m (s + of_nat k) = 0)"
proof -
  obtain j where "nat n = Suc j" using assms(1) by (metis gr0_implies_Suc zero_less_nat_eq)
  then show ?thesis
    using assms safestrcpy_loop_bounds [of j s m t] by (auto simp: safestrcpy_def less_Suc_eq_le)
qed

definition demo_bytes :: bytes where
  "demo_bytes = (\<lambda>a. if a = 100 then 104 else if a = 101 then 105 else 0)"

theorem safestrcpy_bounded_witness:
  "changes_only 200 2 demo_bytes (safestrcpy 200 100 2 demo_bytes) \<and>
     safestrcpy 200 100 2 demo_bytes 200 = 104"
  using safestrcpy_bounded [of 2 "200" demo_bytes "100"]
  by (simp add: safestrcpy_def demo_bytes_def)

theorem memmove_exact_witness:
  "memmove 101 100 2 demo_bytes 102 = 105 \<and> memmove 101 100 2 demo_bytes 101 = 104"
  using memmove_exact [of "100" 2 "101" demo_bytes]
  by (simp add: block_copied_def within_def demo_bytes_def)

text \<open>\<open>strlen\<close> returns on every memory that has a zero byte behind the address.\<close>

lemma strlen_from_exact:
  "m (s + of_nat (n + k)) = 0 \<Longrightarrow> \<forall>j < k. m (s + of_nat (n + j)) \<noteq> 0 \<Longrightarrow>
   strlen_from m s n = Some (n + k)"
proof (induction k arbitrary: n)
  case 0
  then show ?case by (subst strlen_from.simps) simp
next
  case (Suc k)
  have "m (s + of_nat n) \<noteq> 0" using Suc.prems(2) by (metis add_0_right zero_less_Suc)
  moreover have "strlen_from m s (Suc n) = Some (Suc n + k)"
    using Suc.prems by (intro Suc.IH) (simp, metis Suc_less_eq add_Suc_shift)
  ultimately show ?case by (subst strlen_from.simps) simp
qed

lemma strlen_exact:
  "m (s + of_nat k) = 0 \<Longrightarrow> \<forall>j < k. m (s + of_nat j) \<noteq> 0 \<Longrightarrow> strlen s m = Some k"
  using strlen_from_exact [of m s 0 k] by (simp add: strlen_def)

lemma strncmp_loop_zero:
  "strncmp_loop n p q m = 0 \<longleftrightarrow>
    (\<forall>i < n. m (p + of_nat i) = m (q + of_nat i) \<or> (\<exists>j < i. m (p + of_nat j) = 0 \<and> m (q + of_nat j) = 0))"
proof (induction n arbitrary: p q)
  case (Suc n)
  show ?case
    by (auto simp: Suc.IH All_less_Suc2 Ex_less_Suc2 add.assoc word_uint_eq_iff)
qed simp

end
