(* ===== verification/Grep.thy ===== *)
theory Grep
  imports Prelude
begin

text \<open>
  \<open>user/grep.c\<close>: the matcher for \<open>^ . * $\<close> and the loop that reads a file in pieces and
  writes the matching lines. A C string is the list of its bytes before the NUL. The matcher
  is proved equivalent to the language of the pattern, the loop to matching every complete
  line of the file, however \<open>read\<close> cuts it into pieces.
\<close>

section \<open>The matcher\<close>

abbreviation CARET :: u8 where "CARET \<equiv> 94"
abbreviation STAR :: u8 where "STAR \<equiv> 42"
abbreviation DOLLAR :: u8 where "DOLLAR \<equiv> 36"
abbreviation DOT :: u8 where "DOT \<equiv> 46"
abbreviation NL :: u8 where "NL \<equiv> 10"

function (sequential) matchhere :: "u8 list \<Rightarrow> u8 list \<Rightarrow> bool"
  and matchstar :: "u8 \<Rightarrow> u8 list \<Rightarrow> u8 list \<Rightarrow> bool" where
  "matchhere [] str = True"
| "matchhere (c # re) str =
     (if re \<noteq> [] \<and> hd re = STAR then matchstar c (tl re) str
      else if c = DOLLAR \<and> re = [] then str = []
      else case str of [] \<Rightarrow> False | t # ts \<Rightarrow> (c = DOT \<or> c = t) \<and> matchhere re ts)"
| "matchstar c re str =
     (matchhere re str \<or>
      (case str of [] \<Rightarrow> False | t # ts \<Rightarrow> (t = c \<or> c = DOT) \<and> matchstar c re ts))"
  by pat_completeness auto
termination
  by (relation "measure (\<lambda>x. case x of Inl (re, str) \<Rightarrow> 2 * (length re + length str)
      | Inr (c, re, str) \<Rightarrow> 2 * (length re + length str) + 1)") auto

text \<open>The \<open>do ... while(*str++ != 0)\<close> of \<open>match\<close>: every suffix, the empty one included.\<close>

fun match_from :: "u8 list \<Rightarrow> u8 list \<Rightarrow> bool" where
  "match_from re [] = matchhere re []"
| "match_from re (t # ts) = (matchhere re (t # ts) \<or> match_from re ts)"

definition match :: "u8 list \<Rightarrow> u8 list \<Rightarrow> bool" where
  "match re str = (case re of c # re' \<Rightarrow> if c = CARET then matchhere re' str else match_from re str
     | [] \<Rightarrow> match_from re str)"

section \<open>The file loop\<close>

abbreviation BUFSZ :: nat where "BUFSZ \<equiv> 1024"

text \<open>\<open>strchr(p, '\n')\<close>: the bytes before the first newline, unless a NUL comes first.\<close>

definition next_line :: "u8 list \<Rightarrow> (u8 list \<times> u8 list) option" where
  "next_line xs = (case dropWhile (\<lambda>c. c \<noteq> NL \<and> c \<noteq> 0) xs of
       [] \<Rightarrow> None
     | c # rest \<Rightarrow> if c = NL then Some (takeWhile (\<lambda>c. c \<noteq> NL \<and> c \<noteq> 0) xs, rest) else None)"

lemma next_line_shorter: "next_line xs = Some (l, rest) \<Longrightarrow> length rest < length xs"
proof -
  assume "next_line xs = Some (l, rest)"
  then obtain c where "dropWhile (\<lambda>c. c \<noteq> NL \<and> c \<noteq> 0) xs = c # rest"
    by (auto simp: next_line_def split: list.splits if_splits)
  then show ?thesis
    using length_dropWhile_le [of "\<lambda>c. c \<noteq> NL \<and> c \<noteq> 0" xs] by simp
qed

text \<open>The inner loop: the output for the complete lines, and what is left behind them.\<close>

function grep_lines :: "u8 list \<Rightarrow> u8 list \<Rightarrow> u8 list \<times> u8 list" where
  "grep_lines re p = (case next_line p of
       None \<Rightarrow> ([], p)
     | Some (l, rest) \<Rightarrow> (let (out, left) = grep_lines re rest in
         (if match re l then l @ NL # out else out, left)))"
  by auto
termination by (relation "measure (\<lambda>(re, p). length p)") (auto dest: next_line_shorter)

declare grep_lines.simps [simp del]

text \<open>
  \<open>read(fd, buf+m, sizeof(buf)-m-1)\<close> is a parameter: call number \<open>k\<close> returns at most
  \<open>sz k\<close> bytes of the rest \<open>inp\<close> of the file; 0 ends the loop.
\<close>

function grep_loop :: "(nat \<Rightarrow> nat) \<Rightarrow> u8 list \<Rightarrow> nat \<Rightarrow> u8 list \<Rightarrow> u8 list \<Rightarrow> u8 list" where
  "grep_loop sz re k buf inp =
     (let n = min (BUFSZ - length buf - 1) (min (sz k) (length inp)) in
      if n = 0 then []
      else let (out, left) = grep_lines re (buf @ take n inp) in
        out @ grep_loop sz re (Suc k) left (drop n inp))"
  by auto
termination by (relation "measure (\<lambda>(sz, re, k, buf, inp). length inp)") auto

declare grep_loop.simps [simp del]

definition grep :: "(nat \<Rightarrow> nat) \<Rightarrow> u8 list \<Rightarrow> u8 list \<Rightarrow> u8 list" where
  "grep sz re inp = grep_loop sz re 0 [] inp"

section \<open>The language of a pattern\<close>

text \<open>A pattern is a list of characters, each perhaps starred, and perhaps a final \<open>$\<close>.\<close>

function (sequential) items :: "u8 list \<Rightarrow> (u8 \<times> bool) list \<times> bool" where
  "items [] = ([], False)"
| "items (c # re) =
     (if re \<noteq> [] \<and> hd re = STAR then (let (its, e) = items (tl re) in ((c, True) # its, e))
      else if c = DOLLAR \<and> re = [] then ([], True)
      else (let (its, e) = items re in ((c, False) # its, e)))"
  by pat_completeness auto
termination by (relation "measure length") auto

declare items.simps(2) [simp del]

definition accepts :: "u8 \<Rightarrow> u8 \<Rightarrow> bool" where
  "accepts c t \<longleftrightarrow> c = DOT \<or> c = t"

fun lang :: "(u8 \<times> bool) list \<Rightarrow> u8 list set" where
  "lang [] = {[]}"
| "lang ((c, False) # its) = {t # w |t w. accepts c t \<and> w \<in> lang its}"
| "lang ((c, True) # its) = {u @ w |u w. (\<forall>t \<in> set u. accepts c t) \<and> w \<in> lang its}"

definition prefix_matches :: "u8 list \<Rightarrow> u8 list \<Rightarrow> bool" where
  "prefix_matches re str \<longleftrightarrow>
     (\<exists>u v. str = u @ v \<and> u \<in> lang (fst (items re)) \<and> (snd (items re) \<longrightarrow> v = []))"

definition star_matches :: "u8 \<Rightarrow> u8 list \<Rightarrow> u8 list \<Rightarrow> bool" where
  "star_matches c re str \<longleftrightarrow>
     (\<exists>u v. str = u @ v \<and> (\<forall>t \<in> set u. accepts c t) \<and> prefix_matches re v)"

lemma star_matches_unfold:
  "star_matches c re str \<longleftrightarrow> prefix_matches re str \<or>
     (case str of [] \<Rightarrow> False | t # ts \<Rightarrow> accepts c t \<and> star_matches c re ts)"
  (is "?l \<longleftrightarrow> ?r")
proof
  assume ?l
  then obtain u v where "str = u @ v" "\<forall>t \<in> set u. accepts c t" "prefix_matches re v"
    by (auto simp: star_matches_def)
  then show ?r by (cases u) (auto simp: star_matches_def)
next
  assume ?r
  then show ?l
  proof (elim disjE)
    assume "prefix_matches re str"
    then show ?l unfolding star_matches_def by (intro exI [of _ "[]"] exI [of _ str]) simp
  next
    assume "case str of [] \<Rightarrow> False | t # ts \<Rightarrow> accepts c t \<and> star_matches c re ts"
    then obtain t u v where "str = t # u @ v" "accepts c t" "\<forall>t \<in> set u. accepts c t"
      "prefix_matches re v" by (cases str) (auto simp: star_matches_def)
    then show ?l unfolding star_matches_def by (intro exI [of _ "t # u"] exI [of _ v]) simp
  qed
qed

lemma prefix_matches_starred: "prefix_matches (c # STAR # re) str \<longleftrightarrow> star_matches c re str"
proof -
  obtain its e where i: "items re = (its, e)" by (cases "items re")
  have ci: "items (c # STAR # re) = ((c, True) # its, e)" by (simp add: items.simps(2) i)
  show ?thesis
  proof
    assume "prefix_matches (c # STAR # re) str"
    then obtain x v where x: "str = x @ v" "x \<in> lang ((c, True) # its)" "e \<longrightarrow> v = []"
      unfolding prefix_matches_def ci by auto
    then obtain u w where "x = u @ w" "\<forall>t \<in> set u. accepts c t" "w \<in> lang its" by auto
    with x show "star_matches c re str"
      unfolding star_matches_def prefix_matches_def i fst_conv snd_conv
      by (intro exI [of _ u] exI [of _ "w @ v"]) auto
  next
    assume "star_matches c re str"
    then obtain u y where u: "str = u @ y" "\<forall>t \<in> set u. accepts c t" "prefix_matches re y"
      by (auto simp: star_matches_def)
    then obtain w v where "y = w @ v" "w \<in> lang its" "e \<longrightarrow> v = []"
      unfolding prefix_matches_def i by auto
    with u show "prefix_matches (c # STAR # re) str"
      unfolding prefix_matches_def ci by (intro exI [of _ "u @ w"] exI [of _ v]) auto
  qed
qed

lemma prefix_matches_plain:
  assumes "re = [] \<or> hd re \<noteq> STAR" and "\<not> (c = DOLLAR \<and> re = [])"
  shows "prefix_matches (c # re) str \<longleftrightarrow>
    (case str of [] \<Rightarrow> False | t # ts \<Rightarrow> accepts c t \<and> prefix_matches re ts)"
proof -
  obtain its e where i: "items re = (its, e)" by (cases "items re")
  have ci: "items (c # re) = ((c, False) # its, e)" using assms by (auto simp: i items.simps(2))
  show ?thesis
  proof (cases str)
    case Nil
    then show ?thesis by (simp add: prefix_matches_def ci)
  next
    case (Cons t ts)
    have eq: "t # ts = u @ v \<and> u \<in> lang ((c, False) # its) \<longleftrightarrow>
      (\<exists>w. u = t # w \<and> accepts c t \<and> ts = w @ v \<and> w \<in> lang its)" for u v
      by (auto simp: Cons_eq_append_conv)
    have "prefix_matches (c # re) str \<longleftrightarrow>
      (\<exists>u v. (t # ts = u @ v \<and> u \<in> lang ((c, False) # its)) \<and> (e \<longrightarrow> v = []))"
      unfolding prefix_matches_def ci Cons by simp
    also have "\<dots> \<longleftrightarrow> accepts c t \<and> prefix_matches re ts"
      unfolding eq prefix_matches_def i fst_conv snd_conv by blast
    finally show ?thesis by (simp add: Cons)
  qed
qed

lemma matchhere_matchstar:
  "matchhere re str \<longleftrightarrow> prefix_matches re str"
  "matchstar c re str \<longleftrightarrow> star_matches c re str"
proof (induction re str and c re str rule: matchhere_matchstar.induct)
  case (1 str)
  then show ?case by (simp add: prefix_matches_def)
next
  case (2 c re str)
  consider (star) re' where "re = STAR # re'" | (fin) "c = DOLLAR" "re = []"
    | (plain) "re = [] \<or> hd re \<noteq> STAR" "\<not> (c = DOLLAR \<and> re = [])"
    by (cases re) auto
  then show ?case
  proof cases
    case star
    then show ?thesis using 2(1) by (simp add: prefix_matches_starred)
  next
    case fin
    then show ?thesis by (simp add: prefix_matches_def items.simps(2))
  next
    case plain
    then have n: "\<not> (re \<noteq> [] \<and> hd re = STAR)" by auto
    have "matchhere (c # re) str \<longleftrightarrow>
        (case str of [] \<Rightarrow> False | t # ts \<Rightarrow> (c = DOT \<or> c = t) \<and> matchhere re ts)"
      unfolding matchhere.simps if_not_P [OF n] if_not_P [OF plain(2)] ..
    then show ?thesis using 2(2) [OF n plain(2)] plain
      by (cases str) (simp_all add: prefix_matches_plain accepts_def)
  qed
next
  case (3 c re str)
  then show ?case by (subst star_matches_unfold) (auto simp: accepts_def split: list.splits)
qed

lemma match_from_suffix: "match_from re str \<longleftrightarrow> (\<exists>p v. str = p @ v \<and> matchhere re v)"
proof (induction str)
  case (Cons t ts)
  show ?case by (auto simp: Cons.IH Cons_eq_append_conv)
qed simp

definition anchored :: "u8 list \<Rightarrow> bool" where
  "anchored re \<longleftrightarrow> re \<noteq> [] \<and> hd re = CARET"

definition pattern_of :: "u8 list \<Rightarrow> (u8 \<times> bool) list \<times> bool" where
  "pattern_of re = items (if anchored re then tl re else re)"

text \<open>
  C30. The recursive matcher agrees with the regular language of the pattern: it accepts a text
  exactly when the text contains a word of the language, at its start under \<open>^\<close> and at its end
  under \<open>$\<close>.
\<close>

theorem match_is_language:
  "match re str \<longleftrightarrow> (\<exists>p u v. str = p @ u @ v \<and> u \<in> lang (fst (pattern_of re)) \<and>
     (anchored re \<longrightarrow> p = []) \<and> (snd (pattern_of re) \<longrightarrow> v = []))"
proof -
  have "match re str \<longleftrightarrow> (\<exists>p v. str = p @ v \<and> (anchored re \<longrightarrow> p = []) \<and>
      prefix_matches (if anchored re then tl re else re) v)"
    by (cases re) (auto simp: match_def anchored_def match_from_suffix matchhere_matchstar)
  then show ?thesis by (auto simp: prefix_matches_def pattern_of_def)
qed

theorem match_is_language_witness:
  "\<exists>p u v. [120, 97, 97, 98] = p @ u @ v \<and> u \<in> lang [(97, True), (98, False)] \<and> v = []"
proof -
  have "match [97, 42, 98, 36] [120, 97, 97, 98]" by (simp add: match_def)
  moreover have "pattern_of [97, 42, 98, 36] = ([(97, True), (98, False)], True)"
    by (simp add: pattern_of_def anchored_def items.simps(2))
  ultimately show ?thesis
    using match_is_language [of "[97, 42, 98, 36]" "[120, 97, 97, 98]"] by simp blast
qed

section \<open>The lines of the file\<close>

function complete_lines :: "u8 list \<Rightarrow> u8 list list" where
  "complete_lines xs = (if NL \<in> set xs
     then takeWhile (\<lambda>c. c \<noteq> NL) xs # complete_lines (tl (dropWhile (\<lambda>c. c \<noteq> NL) xs)) else [])"
  by auto
termination
proof (relation "measure length")
  fix xs :: "u8 list"
  assume "NL \<in> set xs"
  then have "dropWhile (\<lambda>c. c \<noteq> NL) xs \<noteq> []" by (simp add: dropWhile_eq_Nil_conv)
  then show "(tl (dropWhile (\<lambda>c. c \<noteq> NL) xs), xs) \<in> measure length"
    using length_dropWhile_le [of "\<lambda>c. c \<noteq> NL" xs]
    by (cases "dropWhile (\<lambda>c. c \<noteq> NL) xs") auto
qed simp

declare complete_lines.simps [simp del]

definition matching_lines :: "u8 list \<Rightarrow> u8 list \<Rightarrow> u8 list" where
  "matching_lines re xs = concat (map (\<lambda>l. if match re l then l @ [NL] else []) (complete_lines xs))"

lemma complete_lines_none: "NL \<notin> set xs \<Longrightarrow> complete_lines xs = []"
  by (simp add: complete_lines.simps)

lemma complete_lines_line:
  "NL \<notin> set l \<Longrightarrow> complete_lines (l @ NL # xs) = l # complete_lines xs"
proof -
  assume l: "NL \<notin> set l"
  then have "takeWhile (\<lambda>c. c \<noteq> NL) (l @ NL # xs) = l" "dropWhile (\<lambda>c. c \<noteq> NL) (l @ NL # xs) = NL # xs"
    by (auto simp: takeWhile_append dropWhile_append)
  then show ?thesis by (subst complete_lines.simps) simp
qed

lemma next_line_None: "0 \<notin> set xs \<Longrightarrow> next_line xs = None \<longleftrightarrow> NL \<notin> set xs"
proof -
  assume z: "0 \<notin> set xs"
  then have d: "dropWhile (\<lambda>c. c \<noteq> NL \<and> c \<noteq> 0) xs = dropWhile (\<lambda>c. c \<noteq> NL) xs"
    by (intro dropWhile_cong) auto
  have "next_line xs = None \<longleftrightarrow> dropWhile (\<lambda>c. c \<noteq> NL) xs = []"
    using hd_dropWhile [of "\<lambda>c. c \<noteq> NL" xs]
    by (cases "dropWhile (\<lambda>c. c \<noteq> NL) xs") (simp_all add: next_line_def d del: dropWhile_eq_Nil_conv)
  also have "\<dots> \<longleftrightarrow> NL \<notin> set xs" by (auto simp: dropWhile_eq_Nil_conv)
  finally show ?thesis .
qed

lemma next_line_Some:
  assumes "next_line xs = Some (l, rest)"
  shows "xs = l @ NL # rest" and "NL \<notin> set l" and "0 \<notin> set l"
proof -
  have d: "dropWhile (\<lambda>c. c \<noteq> NL \<and> c \<noteq> 0) xs = NL # rest"
    and t: "l = takeWhile (\<lambda>c. c \<noteq> NL \<and> c \<noteq> 0) xs"
    using assms by (auto simp: next_line_def split: list.splits if_splits)
  show "xs = l @ NL # rest" using d t by (metis takeWhile_dropWhile_id)
  show "NL \<notin> set l" "0 \<notin> set l" using t by (auto dest: set_takeWhileD)
qed

lemma grep_lines_exact:
  "0 \<notin> set p \<Longrightarrow> \<exists>l. NL \<notin> set l \<and> grep_lines re p = (matching_lines re p, l) \<and>
     (\<exists>q. p = q @ l \<and> (\<forall>ys. complete_lines (p @ ys) = complete_lines p @ complete_lines (l @ ys)))"
proof (induction re p rule: grep_lines.induct)
  case (1 re p)
  show ?case
  proof (cases "next_line p")
    case None
    then have "NL \<notin> set p" using 1(2) by (simp add: next_line_None)
    moreover from this have "grep_lines re p = (matching_lines re p, p)"
      using None by (subst grep_lines.simps) (simp add: matching_lines_def complete_lines_none)
    ultimately show ?thesis by (auto simp: complete_lines_none)
  next
    case (Some x)
    obtain l rest where x: "next_line p = Some (l, rest)" using Some by (cases x) auto
    note ln = next_line_Some [OF x]
    have "0 \<notin> set rest" using 1(2) ln(1) by auto
    from 1(1) [OF x refl this] obtain l' q where l': "NL \<notin> set l'" "rest = q @ l'"
      "grep_lines re rest = (matching_lines re rest, l')"
      "\<And>ys. complete_lines (rest @ ys) = complete_lines rest @ complete_lines (l' @ ys)" by auto
    have cl: "complete_lines (p @ ys) = l # complete_lines (rest @ ys)" for ys
      using complete_lines_line [OF ln(2)] by (simp add: ln(1))
    have "grep_lines re p = (matching_lines re p, l')"
      using cl [of "[]"] by (subst grep_lines.simps) (simp add: x l'(3) matching_lines_def)
    moreover have "p = (l @ NL # q) @ l'" using ln(1) l'(2) by simp
    moreover have "complete_lines (p @ ys) = complete_lines p @ complete_lines (l' @ ys)" for ys
      using cl [of ys] cl [of "[]"] l'(4) by simp
    ultimately show ?thesis using l'(1) by blast
  qed
qed

lemma grep_loop_exact:
  assumes "\<forall>k. 0 < sz k" and "0 \<notin> set (buf @ inp)" and "NL \<notin> set buf"
    and "\<forall>l \<in> set (complete_lines (buf @ inp)). length l < BUFSZ - 1"
  shows "grep_loop sz re k buf inp = matching_lines re (buf @ inp)"
  using assms
proof (induction "length inp" arbitrary: k buf inp rule: less_induct)
  case less
  define n where "n = min (BUFSZ - length buf - 1) (min (sz k) (length inp))"
  have step: "grep_loop sz re k buf inp = (if n = 0 then []
      else let (out, left) = grep_lines re (buf @ take n inp) in
        out @ grep_loop sz re (Suc k) left (drop n inp))"
    by (subst grep_loop.simps) (simp only: n_def Let_def)
  show ?case
  proof (cases "n = 0")
    case True
    have "complete_lines (buf @ inp) = []"
    proof (rule ccontr)
      assume c: "complete_lines (buf @ inp) \<noteq> []"
      then have nl: "NL \<in> set inp" using less.prems(3) complete_lines_none [of "buf @ inp"] by auto
      then obtain a b where ab: "inp = a @ NL # b" "NL \<notin> set a" by (meson split_list_first)
      have "complete_lines (buf @ inp) = (buf @ a) # complete_lines b"
        using complete_lines_line [of "buf @ a" b] ab less.prems(3) by simp
      then have "length buf < BUFSZ - 1" using less.prems(4) by simp
      moreover have "0 < sz k" "inp \<noteq> []" using less.prems(1) nl by auto
      ultimately show False using True unfolding n_def
        by (cases inp) (auto simp: min_def split: if_splits)
    qed
    then show ?thesis using True by (simp add: step matching_lines_def)
  next
    case False
    obtain l where l: "NL \<notin> set l" "grep_lines re (buf @ take n inp) = (matching_lines re (buf @ take n inp), l)"
      and q: "\<exists>q. buf @ take n inp = q @ l"
      and c: "\<And>ys. complete_lines ((buf @ take n inp) @ ys) = complete_lines (buf @ take n inp) @ complete_lines (l @ ys)"
      using grep_lines_exact [of "buf @ take n inp" re] less.prems(2) set_take_subset [of n inp] by auto
    have split: "complete_lines (buf @ inp) = complete_lines (buf @ take n inp) @ complete_lines (l @ drop n inp)"
      using c [of "drop n inp"] by simp
    have "n \<le> length inp" unfolding n_def by auto
    then have "length (drop n inp) < length inp" using False by simp
    moreover have "0 \<notin> set (l @ drop n inp)"
    proof -
      obtain q' where "buf @ take n inp = q' @ l" using q by blast
      then have "set l \<subseteq> set buf \<union> set (take n inp)" by (metis Un_upper2 set_append)
      then show ?thesis
        using less.prems(2) set_take_subset [of n inp] set_drop_subset [of n inp] by auto
    qed
    moreover have "\<forall>l' \<in> set (complete_lines (l @ drop n inp)). length l' < BUFSZ - 1"
      using less.prems(4) split by auto
    ultimately have IH: "grep_loop sz re (Suc k) l (drop n inp) = matching_lines re (l @ drop n inp)"
      using less.hyps less.prems(1) l(1) by blast
    show ?thesis
      using False l(2) IH split by (simp add: step matching_lines_def)
  qed
qed

text \<open>A line that fills the buffer ends the output: \<open>read\<close> is asked for 0 bytes.\<close>

lemma grep_loop_full: "length buf \<ge> BUFSZ - 1 \<Longrightarrow> grep_loop sz re k buf inp = []"
  by (subst grep_loop.simps) (simp add: Let_def)

text \<open>
  C38. Whatever sizes the reads return, as long as each returns something and no line fills the
  buffer, \<open>grep\<close> ends and prints exactly the matching complete lines, in their order.
\<close>

theorem grep_exact:
  assumes "\<forall>k. 0 < sz k" and "0 \<notin> set inp" and "\<forall>l \<in> set (complete_lines inp). length l < BUFSZ - 1"
  shows "grep sz re inp = matching_lines re inp"
  using grep_loop_exact [of sz "[]" inp] assms by (simp add: grep_def)

text \<open>\<open>a*b$\<close> on \<open>xaab\<close> and \<open>ab!\<close>, read one byte at a time.\<close>

theorem grep_exact_witness:
  "grep (\<lambda>_. 1) [97, 42, 98, 36] [120, 97, 97, 98, 10, 97, 98, 33, 10] = [120, 97, 97, 98, 10]"
proof -
  have c: "complete_lines [120, 97, 97, 98, 10, 97, 98, 33, 10] = [[120, 97, 97, 98], [97, 98, 33]]"
    by (simp add: complete_lines.simps)
  have "match [97, 42, 98, 36] [120, 97, 97, 98]" "\<not> match [97, 42, 98, 36] [97, 98, 33]"
    by (simp_all add: match_def)
  then show ?thesis
    using grep_exact [of "\<lambda>_. 1" "[120, 97, 97, 98, 10, 97, 98, 33, 10]" "[97, 42, 98, 36]"] c
    by (simp add: matching_lines_def)
qed

end
