(* ===== verification/Printf.thy ===== *)
theory Printf
  imports Prelude
begin

text \<open>
  Formatted output: \<open>user/printf.c\<close>, the formatting of \<open>kernel/printf.c\<close> and
  \<open>atoi\<close> of \<open>user/ulib.c\<close>. The output is the list of bytes handed to \<open>putc\<close> or
  \<open>consputc\<close>; \<open>Trap\<close> is a write outside \<open>char buf[16]\<close>, a division by zero, or a
  \<open>va_arg\<close> of the wrong type.
\<close>

section \<open>Numbers\<close>

text \<open>\<open>digits\<close>: upper case in the user's library, lower case in the kernel.\<close>

definition digit :: "bool \<Rightarrow> nat \<Rightarrow> u8" where
  "digit upper d = of_nat (if d < 10 then 48 + d else if upper then 55 + d else 87 + d)"

text \<open>The \<open>do ... while\<close> loop, with the room left in the buffer; least significant digit first.\<close>

fun put_digits :: "bool \<Rightarrow> nat \<Rightarrow> nat \<Rightarrow> nat \<Rightarrow> u8 list res" where
  "put_digits up 0 base x = Inl Trap"
| "put_digits up (Suc room) base x =
     (if base = 0 then Inl Trap
      else if x div base = 0 then Inr [digit up (x mod base)]
      else bindE (put_digits up room base (x div base)) (\<lambda>ds. Inr (digit up (x mod base) # ds)))"

definition printint :: "bool \<Rightarrow> int \<Rightarrow> nat \<Rightarrow> bool \<Rightarrow> u8 list res" where
  "printint up xx base sg =
     (let neg = (sg \<and> xx < 0); x = nat ((if neg then - xx else xx) mod 2 ^ 32) in
      bindE (put_digits up 16 base x) (\<lambda>ds.
        if neg \<and> length ds \<ge> 16 then Inl Trap
        else Inr (rev (if neg then ds @ [45] else ds))))"

text \<open>\<open>x >> 60\<close>, \<open>x <<= 4\<close>, sixteen times.\<close>

fun hex_digits :: "bool \<Rightarrow> nat \<Rightarrow> u64 \<Rightarrow> u8 list" where
  "hex_digits up 0 x = []"
| "hex_digits up (Suc n) x = digit up (unat (drop_bit 60 x)) # hex_digits up n (push_bit 4 x)"

definition printptr :: "bool \<Rightarrow> u64 \<Rightarrow> u8 list" where
  "printptr up x = [48, 120] @ hex_digits up 16 x"

section \<open>Formats\<close>

datatype varg = VNum u64 | VStr "u8 list option"

definition as_int :: "u64 \<Rightarrow> int" where
  "as_int w = sint (ucast w :: u32)"

definition null_str :: "u8 list" where
  "null_str = [40, 110, 117, 108, 108, 41]"

abbreviation PCT :: u8 where "PCT \<equiv> 37"

text \<open>\<open>vprintf\<close> of the user's library; the flag is \<open>state == '%'\<close>.\<close>

fun vprintf :: "bool \<Rightarrow> u8 list \<Rightarrow> varg list \<Rightarrow> u8 list res" where
  "vprintf st [] args = Inr []"
| "vprintf False (c # fmt) args =
     (if c = PCT then vprintf True fmt args else bindE (vprintf False fmt args) (\<lambda>r. Inr (c # r)))"
| "vprintf True (c # fmt) args =
     (if c \<in> {100, 108, 120, 112, 99} then
        (case args of VNum w # args' \<Rightarrow>
           bindE (if c = 100 then printint True (as_int w) 10 True
                  else if c = 108 then printint True (as_int w) 10 False
                  else if c = 120 then printint True (as_int w) 16 False
                  else if c = 112 then Inr (printptr True w) else Inr [ucast w]) (\<lambda>o1.
           bindE (vprintf False fmt args') (\<lambda>r. Inr (o1 @ r)))
         | _ \<Rightarrow> Inl Trap)
      else if c = 115 then
        (case args of VStr so # args' \<Rightarrow>
           bindE (vprintf False fmt args') (\<lambda>r. Inr ((case so of None \<Rightarrow> null_str | Some t \<Rightarrow> t) @ r))
         | _ \<Rightarrow> Inl Trap)
      else bindE (vprintf False fmt args) (\<lambda>r. Inr ((if c = PCT then [PCT] else [PCT, c]) @ r)))"

text \<open>The formatting loop of the kernel's \<open>printf\<close> and \<open>printf_without_pr\<close>.\<close>

fun kprintf :: "u8 list \<Rightarrow> varg list \<Rightarrow> u8 list res" where
  "kprintf [] args = Inr []"
| "kprintf [c] args = Inr (if c = PCT then [] else [c])"
| "kprintf (c # d # fmt) args =
     (if c \<noteq> PCT then bindE (kprintf (d # fmt) args) (\<lambda>r. Inr (c # r))
      else if d \<in> {100, 120, 112} then
        (case args of VNum w # args' \<Rightarrow>
           bindE (if d = 100 then printint False (as_int w) 10 True
                  else if d = 120 then printint False (as_int w) 16 True
                  else Inr (printptr False w)) (\<lambda>o1.
           bindE (kprintf fmt args') (\<lambda>r. Inr (o1 @ r)))
         | _ \<Rightarrow> Inl Trap)
      else if d = 115 then
        (case args of VStr so # args' \<Rightarrow>
           bindE (kprintf fmt args') (\<lambda>r. Inr ((case so of None \<Rightarrow> null_str | Some t \<Rightarrow> t) @ r))
         | _ \<Rightarrow> Inl Trap)
      else bindE (kprintf fmt args) (\<lambda>r. Inr ((if d = PCT then [PCT] else [PCT, d]) @ r)))"

text \<open>\<open>panic(s)\<close> passes its message as a format.\<close>

definition panic_output :: "u8 list \<Rightarrow> u8 list res" where
  "panic_output msg = bindE (kprintf [112, 97, 110, 105, 99, 58, 32] []) (\<lambda>a.
     bindE (kprintf msg []) (\<lambda>b. bindE (kprintf [10] []) (\<lambda>c. Inr (a @ b @ c))))"

section \<open>Reading numbers\<close>

text \<open>\<open>n = n*10 + *s++ - '0'\<close> in 32-bit arithmetic.\<close>

fun atoi_from :: "u32 \<Rightarrow> u8 list \<Rightarrow> u32" where
  "atoi_from n [] = n"
| "atoi_from n (c # s) =
     (if 48 \<le> c \<and> c \<le> 57 then atoi_from (n * 10 + ucast c - 48) s else n)"

definition atoi :: "u8 list \<Rightarrow> int" where
  "atoi s = sint (atoi_from 0 s)"

section \<open>Numbers that are printed can be read\<close>

fun value_of :: "nat \<Rightarrow> nat list \<Rightarrow> nat" where
  "value_of base [] = 0"
| "value_of base (d # ds) = d + base * value_of base ds"

lemma put_digits_value:
  "1 < base \<Longrightarrow> x < base ^ n \<Longrightarrow> 0 < n \<Longrightarrow> n \<le> room \<Longrightarrow>
   \<exists>ds. put_digits up room base x = Inr (map (digit up) ds) \<and> ds \<noteq> [] \<and> length ds \<le> n \<and>
     (\<forall>d \<in> set ds. d < base) \<and> value_of base ds = x"
proof (induction n arbitrary: x room)
  case (Suc n)
  obtain r where room: "room = Suc r" using Suc.prems(4) by (cases room) auto
  show ?case
  proof (cases "x div base = 0")
    case True
    then have "x < base" using Suc.prems(1) by (simp add: div_eq_0_iff)
    with True show ?thesis using Suc.prems(1) by (intro exI [of _ "[x]"]) (simp add: room)
  next
    case False
    then have "x \<ge> base" by (simp add: div_eq_0_iff)
    then have "n \<noteq> 0" using Suc.prems(2) by (cases n) auto
    moreover have "x div base < base ^ n"
      using Suc.prems(2) by (simp add: less_mult_imp_div_less mult.commute)
    ultimately obtain ds where ds: "put_digits up r base (x div base) = Inr (map (digit up) ds)"
      "ds \<noteq> []" "length ds \<le> n" "\<forall>d \<in> set ds. d < base" "value_of base ds = x div base"
      using Suc.IH [of "x div base" r] Suc.prems room by auto
    then show ?thesis using False Suc.prems(1)
      by (intro exI [of _ "x mod base # ds"]) (auto simp: room)
  qed
qed simp

lemma atoi_from_digits:
  "(\<forall>d \<in> set ds. d < 10) \<Longrightarrow>
   atoi_from (of_nat k) (map (digit up) ds @ s) = atoi_from (of_nat (foldl (\<lambda>a d. 10 * a + d) k ds)) s"
proof (induction ds arbitrary: k)
  case (Cons d ds)
  have d: "d < 10" using Cons.prems by simp
  have u: "unat (digit up d) = 48 + d"
    using d by (simp add: digit_def unat_of_nat del: of_nat_add)
  have c: "48 \<le> digit up d" "digit up d \<le> 57"
    using d by (simp_all add: u word_le_nat_alt)
  have "(ucast (digit up d) :: u32) = of_nat (48 + d)"
    by (metis u of_nat_unat)
  then have e: "of_nat k * 10 + ucast (digit up d) - 48 = (of_nat (10 * k + d) :: u32)"
    by (simp add: algebra_simps)
  have "atoi_from (of_nat k) (map (digit up) (d # ds) @ s) =
      atoi_from (of_nat k * 10 + ucast (digit up d) - 48) (map (digit up) ds @ s)"
    using c by simp
  also have "\<dots> = atoi_from (of_nat (foldl (\<lambda>a d. 10 * a + d) (10 * k + d) ds)) s"
    unfolding e by (rule Cons.IH) (use Cons.prems in simp)
  finally show ?case by simp
qed simp

lemma value_of_rev: "foldl (\<lambda>a d. 10 * a + d) k (rev ds) = 10 ^ length ds * k + value_of 10 ds"
  by (induction ds arbitrary: k) (simp_all add: algebra_simps)

text \<open>
  Every non-negative \<open>int\<close> is printed in decimal within the 16-byte buffer, and \<open>atoi\<close>
  reads the printed digits back to the number.
\<close>

text \<open>
  Every non-negative \<open>int\<close> is printed in decimal within the 16-byte buffer, and \<open>atoi\<close>
  reads the printed digits back to the number.
\<close>

text \<open>
  Every non-negative \<open>int\<close> is printed in decimal within the 16-byte buffer, and \<open>atoi\<close>
  reads the printed digits back to the number.
\<close>

text \<open>
  Every non-negative \<open>int\<close> is printed in decimal within the 16-byte buffer, and \<open>atoi\<close>
  reads the printed digits back to the number.
\<close>

text \<open>
  Every non-negative \<open>int\<close> is printed in decimal within the 16-byte buffer, and \<open>atoi\<close>
  reads the printed digits back to the number.
\<close>

theorem printint_atoi:
  assumes "0 \<le> xx" and "xx < 2 ^ 31"
  shows "\<exists>out. printint up xx 10 True = Inr out \<and> atoi out = xx \<and> length out \<le> 10"
proof -
  have "nat xx < 10 ^ 10" using assms by simp
  then obtain ds where ds: "put_digits up 16 10 (nat xx) = Inr (map (digit up) ds)" "length ds \<le> 10"
      "\<forall>d \<in> set ds. d < 10" "value_of 10 ds = nat xx"
    using put_digits_value [of 10 "nat xx" 10 16 up] by auto
  have p: "printint up xx 10 True = Inr (map (digit up) (rev ds))"
    using assms ds(1) by (simp add: printint_def rev_map)
  have "atoi_from 0 (map (digit up) (rev ds)) = of_nat (nat xx)"
    using atoi_from_digits [of "rev ds" 0 up "[]"] ds(3,4) by (simp add: value_of_rev)
  then have "atoi (map (digit up) (rev ds)) = xx"
    using assms by (simp add: atoi_def signed_of_int signed_take_bit_int_eq_self)
  with p ds(2) show ?thesis by auto
qed

theorem printint_atoi_witness:
  "\<exists>out. printint True 2147483647 10 True = Inr out \<and> atoi out = 2147483647 \<and> length out \<le> 10"
  by (rule printint_atoi) simp_all

text \<open>No 32-bit value overflows the buffer, in any base the callers use.\<close>

lemma printint_total:
  assumes "base \<in> {10, 16}"
  shows "\<exists>out. printint up xx base sg = Inr out \<and> 0 < length out \<and> length out \<le> 11"
proof -
  let ?x = "nat ((if sg \<and> xx < 0 then - xx else xx) mod 2 ^ 32)"
  have x: "?x < 2 ^ 32" by (simp add: nat_less_iff)
  moreover have "(2::nat) ^ 32 \<le> base ^ 10" using assms by auto
  ultimately have "?x < base ^ 10" by simp
  then obtain ds where "put_digits up 16 base ?x = Inr (map (digit up) ds)" "ds \<noteq> []" "length ds \<le> 10"
    using put_digits_value [of base ?x 10 16 up] assms by auto
  then show ?thesis unfolding printint_def Let_def by auto
qed

text \<open>A format without a \<open>%\<close> is printed as it is.\<close>

lemma kprintf_plain: "PCT \<notin> set fmt \<Longrightarrow> kprintf fmt args = Inr fmt"
  by (induction fmt args rule: kprintf.induct) auto

lemma vprintf_plain: "PCT \<notin> set fmt \<Longrightarrow> vprintf False fmt args = Inr fmt"
  by (induction fmt) auto

lemma panic_output_plain:
  "PCT \<notin> set msg \<Longrightarrow> panic_output msg = Inr ([112, 97, 110, 105, 99, 58, 32] @ msg @ [10])"
  by (simp add: panic_output_def kprintf_plain)

end
