(* ===== verification/Vm.thy ===== *)
theory Vm
  imports Ptdup PtbList KString
begin

text \<open>
  \<open>kernel/vm.c\<close>: page tables in physical memory (the words of \<open>memstate\<close>), the mapping and
  unmapping of user memory with the bookkeeping of duplicates, and the copies between user and
  kernel memory, which work on bytes and see a page table as the function \<open>walkaddr\<close>.
\<close>

abbreviation MAXVA :: u64 where "MAXVA \<equiv> 0x4000000000"
abbreviation TRAMPOLINE :: u64 where "TRAMPOLINE \<equiv> 0x3ffffff000"

section \<open>Walking a page table\<close>

definition pte_at :: "memory \<Rightarrow> nat \<Rightarrow> u64" where
  "pte_at m a = of_nat (m a)"

definition set_pte :: "nat \<Rightarrow> u64 \<Rightarrow> 'a memstate_scheme \<Rightarrow> 'a memstate_scheme" where
  "set_pte a e s = s\<lparr>mem := (mem s)(a := unat e)\<rparr>"

definition pte_addr :: "nat \<Rightarrow> nat \<Rightarrow> u64 \<Rightarrow> nat" where
  "pte_addr level pt va = pt + 8 * px level va"

text \<open>A new table at \<open>pg\<close>: registered and duplicated for user tables.\<close>

definition link_table :: "nat \<Rightarrow> nat \<Rightarrow> nat \<Rightarrow> u64 \<Rightarrow> nat \<Rightarrow> 'a ptdupstate_scheme \<Rightarrow> 'a ptdupstate_scheme res" where
  "link_table root level pt va pg s = (let pte = pte_addr level pt va in
     bindE (enter_trans_pagetable (s\<lparr>mem := page_fill pg 0 (mem s)\<rparr>)) (\<lambda>s.
     let s = set_pte pte (pa2pte (of_nat pg) OR PTE_V) s in
     bindE (if nextpid s > 2
            then bindE (curpid s) (\<lambda>p. bindE (register_ptb_mlist p pg (level - 1) s) (\<lambda>s.
              if level = 2 then ptdup_create_l1 root (\<lambda>j. pte_at (mem s) (root + 8 * j)) pg (pte_at (mem s) pte) s
              else ptdup_update root pt (pte_at (mem s) pte) (px 1 va) s))
            else Inr s) exit_trans_pagetable))"

text \<open>One round of the loop: the next table, or \<open>None\<close> for \<open>return 0\<close>.\<close>

definition walk_level ::
  "nat \<Rightarrow> nat \<Rightarrow> u64 \<Rightarrow> bool \<Rightarrow> nat \<Rightarrow> 'a ptdupstate_scheme \<Rightarrow> (nat option \<times> 'a ptdupstate_scheme) res" where
  "walk_level root level va alloc pt s =
     (if pt = 0 then Inl Trap
      else let e = pte_at (mem s) (pte_addr level pt va) in
        if e AND PTE_V \<noteq> 0 then Inr (Some (unat (pte2pa e)), s)
        else if \<not> alloc then Inr (None, s)
        else bindE (kalloc s) (\<lambda>(pg, s). if pg = 0 then Inr (None, s)
          else bindE (link_table root level pt va pg s) (\<lambda>s. Inr (Some pg, s))))"

definition walk ::
  "nat \<Rightarrow> u64 \<Rightarrow> bool \<Rightarrow> 'a ptdupstate_scheme \<Rightarrow> (nat option \<times> 'a ptdupstate_scheme) res" where
  "walk pt va alloc s =
     (if va \<ge> MAXVA then Inl (Panic ''walk'')
      else bindE (walk_level pt 2 va alloc pt s) (\<lambda>(l1, s). case l1 of None \<Rightarrow> Inr (None, s)
       | Some p1 \<Rightarrow> bindE (walk_level pt 1 va alloc p1 s) (\<lambda>(l0, s). case l0 of None \<Rightarrow> Inr (None, s)
         | Some p0 \<Rightarrow> Inr (Some (pte_addr 0 p0 va), s))))"

definition walkaddr :: "nat \<Rightarrow> u64 \<Rightarrow> 'a ptdupstate_scheme \<Rightarrow> (u64 \<times> 'a ptdupstate_scheme) res" where
  "walkaddr pt va s =
     (if va \<ge> MAXVA then Inr (0, s)
      else bindE (walk pt va False s) (\<lambda>(pte, s). case pte of None \<Rightarrow> Inr (0, s)
       | Some a \<Rightarrow> let e = pte_at (mem s) a in
           if e AND PTE_V = 0 then Inr (0, s) else if e AND PTE_U = 0 then Inr (0, s)
           else Inr (pte2pa e, s)))"

definition kvmpa :: "nat \<Rightarrow> u64 \<Rightarrow> 'a ptdupstate_scheme \<Rightarrow> (u64 \<times> 'a ptdupstate_scheme) res" where
  "kvmpa kpt va s = bindE (walk kpt va False s) (\<lambda>(pte, s). case pte of None \<Rightarrow> Inl (Panic ''kvmpa'')
     | Some a \<Rightarrow> let e = pte_at (mem s) a in
         if e AND PTE_V = 0 then Inl (Panic ''kvmpa'') else Inr (pte2pa e + va mod PGSZ, s))"

section \<open>Mapping\<close>

text \<open>
  The loops run from \<open>a\<close> to \<open>last\<close> in steps of a page; the fuel is the number of steps
  between the two, so that it never runs out (\<open>map_fuel\<close>).
\<close>

fun map_loop ::
  "nat \<Rightarrow> nat \<Rightarrow> u64 \<Rightarrow> u64 \<Rightarrow> u64 \<Rightarrow> u64 \<Rightarrow> 'a ptdupstate_scheme \<Rightarrow> (int \<times> 'a ptdupstate_scheme) res" where
  "map_loop n pt a las pa perm s =
     bindE (walk pt a True s) (\<lambda>(pte, s). case pte of None \<Rightarrow> Inr (-1, s)
     | Some p \<Rightarrow> if pte_at (mem s) p AND PTE_V \<noteq> 0 then Inl (Panic ''remap'')
         else let s = set_pte p (pa2pte pa OR perm OR PTE_V) s in
           if a = las then Inr (0, s)
           else (case n of 0 \<Rightarrow> Inl Blocked
             | Suc n \<Rightarrow> map_loop n pt (a + PGSZ) las (pa + PGSZ) perm s))"

declare map_loop.simps [simp del]

definition map_fuel :: "u64 \<Rightarrow> u64 \<Rightarrow> nat" where
  "map_fuel a las = unat (las - a) div 4096"

definition mappages ::
  "nat \<Rightarrow> u64 \<Rightarrow> u64 \<Rightarrow> u64 \<Rightarrow> u64 \<Rightarrow> 'a ptdupstate_scheme \<Rightarrow> (int \<times> 'a ptdupstate_scheme) res" where
  "mappages pt va sz pa perm s = (let a = pgrounddown va; las = pgrounddown (va + sz - 1) in
     map_loop (map_fuel a las) pt a las pa perm s)"

definition kvmmap :: "nat \<Rightarrow> u64 \<Rightarrow> u64 \<Rightarrow> u64 \<Rightarrow> u64 \<Rightarrow> 'a ptdupstate_scheme \<Rightarrow> 'a ptdupstate_scheme res" where
  "kvmmap kpt va pa sz perm s = bindE (mappages kpt va sz pa perm s) (\<lambda>(r, s).
     if r \<noteq> 0 then Inl (Panic ''kvmmap'') else Inr s)"

text \<open>\<open>et\<close> and \<open>tramp\<close> are the linker symbols \<open>etext\<close> and \<open>trampoline\<close>.\<close>

definition kvm_layout :: "u64 \<Rightarrow> u64 \<Rightarrow> (u64 \<times> u64 \<times> u64 \<times> u64) list" where
  "kvm_layout et tramp =
     [(0x10000000, 0x10000000, PGSZ, PTE_R OR PTE_W), (0x10001000, 0x10001000, PGSZ, PTE_R OR PTE_W),
      (0x2000000, 0x2000000, 0x10000, PTE_R OR PTE_W), (0xc000000, 0xc000000, 0x400000, PTE_R OR PTE_W),
      (0x80000000, 0x80000000, et - 0x80000000, PTE_R OR PTE_X), (et, et, 0x88000000 - et, PTE_R OR PTE_W),
      (TRAMPOLINE, tramp, PGSZ, PTE_R OR PTE_X)]"

definition kvminit :: "u64 \<Rightarrow> u64 \<Rightarrow> 'a ptdupstate_scheme \<Rightarrow> (nat \<times> 'a ptdupstate_scheme) res" where
  "kvminit et tramp s = bindE (kalloc s) (\<lambda>(kpt, s). if kpt = 0 then Inl Trap
     else bindE (foldE (\<lambda>(va, pa, sz, perm). kvmmap kpt va pa sz perm) (kvm_layout et tramp)
       (s\<lparr>mem := page_fill kpt 0 (mem s)\<rparr>)) (\<lambda>s. Inr (kpt, s)))"

fun unmap_loop ::
  "nat \<Rightarrow> nat \<Rightarrow> u64 \<Rightarrow> u64 \<Rightarrow> bool \<Rightarrow> 'a ptdupstate_scheme \<Rightarrow> 'a ptdupstate_scheme res" where
  "unmap_loop n pt a las do_free s =
     bindE (walk pt a False s) (\<lambda>(pte, s). case pte of None \<Rightarrow> Inl (Panic ''uvmunmap: walk'')
     | Some p \<Rightarrow> let e = pte_at (mem s) p in
         if e AND PTE_V = 0 then Inl (Panic ''uvmunmap: not mapped'')
         else if pte_flags e = PTE_V then Inl (Panic ''uvmunmap: not a leaf'')
         else bindE (if do_free then kfree (unat (pte2pa e)) s else Inr s) (\<lambda>s. let s = set_pte p 0 s in
           if a = las then Inr s
           else (case n of 0 \<Rightarrow> Inl Blocked | Suc n \<Rightarrow> unmap_loop n pt (a + PGSZ) las do_free s)))"

declare unmap_loop.simps [simp del]

definition uvmunmap ::
  "nat \<Rightarrow> u64 \<Rightarrow> u64 \<Rightarrow> bool \<Rightarrow> 'a ptdupstate_scheme \<Rightarrow> 'a ptdupstate_scheme res" where
  "uvmunmap pt va sz do_free s = (let a = pgrounddown va; las = pgrounddown (va + sz - 1) in
     bindE (enter_trans_pagetable s) (\<lambda>s.
     bindE (unmap_loop (map_fuel a las) pt a las do_free s) (\<lambda>s.
     bindE (l0_ptes_delete pt va (int (map_fuel a las)) s) exit_trans_pagetable)))"

section \<open>User memory\<close>

definition uvmcreate :: "'a memstate_scheme \<Rightarrow> (nat \<times> 'a memstate_scheme) res" where
  "uvmcreate s = bindE (kalloc s) (\<lambda>(pt, s). if pt = 0 then Inl (Panic ''uvmcreate: out of memory'')
     else Inr (pt, s\<lparr>mem := page_fill pt 0 (mem s)\<rparr>))"

abbreviation RWXU :: u64 where "RWXU \<equiv> PTE_W OR PTE_R OR PTE_X OR PTE_U"

text \<open>\<open>load pg\<close> stores the initial code into the page.\<close>

definition uvminit :: "nat \<Rightarrow> (nat \<Rightarrow> memory \<Rightarrow> memory) \<Rightarrow> nat \<Rightarrow> 'a ptdupstate_scheme \<Rightarrow> 'a ptdupstate_scheme res" where
  "uvminit pt load sz s =
     (if sz \<ge> PGSIZE then Inl (Panic ''inituvm: more than a page'')
      else bindE (kalloc s) (\<lambda>(pg, s). if pg = 0 then Inl Trap
        else bindE (enter_trans_pagetable (s\<lparr>mem := page_fill pg 0 (mem s)\<rparr>)) (\<lambda>s.
          bindE (mappages pt 0 PGSZ (of_nat pg) RWXU s) (\<lambda>(_, s).
          bindE (l0_ptes_add pt (va2ptds 0 OR ppn2ptds (pa2pte (of_nat pg)) OR RWXU) False s) (\<lambda>s.
          bindE (exit_trans_pagetable s) (\<lambda>s. Inr (s\<lparr>mem := load pg (mem s)\<rparr>)))))))"

definition uvmdealloc :: "nat \<Rightarrow> u64 \<Rightarrow> u64 \<Rightarrow> 'a ptdupstate_scheme \<Rightarrow> (u64 \<times> 'a ptdupstate_scheme) res" where
  "uvmdealloc pt oldsz newsz s =
     (if newsz \<ge> oldsz then Inr (oldsz, s)
      else let newup = pgrounddown (newsz + 0xfff) in
        bindE (if newup < pgrounddown (oldsz + 0xfff) then uvmunmap pt newup (oldsz - newup) True s else Inr s)
          (\<lambda>s. Inr (newsz, s)))"

definition add_dups :: "nat \<Rightarrow> (bool \<times> u64) list \<Rightarrow> 'a ptdupstate_scheme \<Rightarrow> 'a ptdupstate_scheme res" where
  "add_dups pt out s = foldE (\<lambda>(run, c). l0_ptes_add pt c run) out s"

abbreviation DUP0 :: dupst where
  "DUP0 \<equiv> \<lparr>dsize = 0, dorder = 0, dbmem = 0, dentry = 0, dout = []\<rparr>"

text \<open>Each round hands the entries that became complete to \<open>L0_ptes_add\<close>.\<close>

definition dup_round :: "nat \<Rightarrow> u64 \<Rightarrow> u64 \<Rightarrow> nat \<Rightarrow> dupst \<Rightarrow> 'a ptdupstate_scheme \<Rightarrow> (dupst \<times> 'a ptdupstate_scheme) res" where
  "dup_round pt old a pg st s = (let st' = dup_step old a (of_nat pg) st in
     bindE (add_dups pt (dout st') s) (\<lambda>s. Inr (st'\<lparr>dout := []\<rparr>, s)))"

definition dup_end :: "nat \<Rightarrow> dupst \<Rightarrow> 'a ptdupstate_scheme \<Rightarrow> 'a ptdupstate_scheme res" where
  "dup_end pt st s = add_dups pt (dup_finish st) s"

text \<open>The page addresses from \<open>old\<close> up to \<open>new\<close> that \<open>for(; a < newsz; a += PGSIZE)\<close> visits.\<close>

definition page_addrs :: "u64 \<Rightarrow> u64 \<Rightarrow> u64 list" where
  "page_addrs old new = map (\<lambda>i. old + of_nat i * PGSZ) [0..<(unat new - unat old + 4095) div 4096]"

fun uvmalloc_loop ::
  "nat \<Rightarrow> u64 \<Rightarrow> u64 list \<Rightarrow> u64 \<Rightarrow> dupst \<Rightarrow> 'a ptdupstate_scheme \<Rightarrow> (u64 \<times> 'a ptdupstate_scheme) res" where
  "uvmalloc_loop pt old [] new st s =
     bindE (dup_end pt st s) (\<lambda>s. bindE (exit_trans_pagetable s) (\<lambda>s. Inr (new, s)))"
| "uvmalloc_loop pt old (a # as) new st s =
     bindE (kalloc s) (\<lambda>(pg, s). if pg = 0 then
         bindE (uvmdealloc pt a old s) (\<lambda>(_, s). bindE (exit_trans_pagetable s) (\<lambda>s. Inr (0, s)))
       else bindE (mappages pt a PGSZ (of_nat pg) RWXU (s\<lparr>mem := page_fill pg 0 (mem s)\<rparr>)) (\<lambda>(r, s).
         if r \<noteq> 0 then bindE (kfree pg s) (\<lambda>s. bindE (uvmdealloc pt a old s) (\<lambda>(_, s).
           bindE (exit_trans_pagetable s) (\<lambda>s. Inr (0, s))))
         else bindE (dup_round pt old a pg st s) (\<lambda>(st, s). uvmalloc_loop pt old as new st s)))"

definition uvmalloc :: "nat \<Rightarrow> u64 \<Rightarrow> u64 \<Rightarrow> 'a ptdupstate_scheme \<Rightarrow> (u64 \<times> 'a ptdupstate_scheme) res" where
  "uvmalloc pt oldsz newsz s =
     (if newsz < oldsz then Inr (oldsz, s)
      else let old = pgrounddown (oldsz + 0xfff) in
        bindE (enter_trans_pagetable s) (uvmalloc_loop pt old (page_addrs old newsz) newsz DUP0))"

text \<open>The depth of the recursion is that of the table; a deeper table is not one of Sv39.\<close>

fun freewalk :: "nat \<Rightarrow> nat \<Rightarrow> 'a memstate_scheme \<Rightarrow> 'a memstate_scheme res" where
  "freewalk 0 pt s = Inl Trap"
| "freewalk (Suc n) pt s = bindE (enter_trans_pagetable s) (\<lambda>s.
     bindE (foldE (\<lambda>i s. let e = pte_at (mem s) (pt + 8 * i) in
         if e AND PTE_V \<noteq> 0 \<and> e AND (PTE_R OR PTE_W OR PTE_X) = 0
         then bindE (freewalk n (unat (pte2pa e)) s) (\<lambda>s. Inr (set_pte (pt + 8 * i) 0 s))
         else if e AND PTE_V \<noteq> 0 then Inl (Panic ''freewalk: leaf'') else Inr s) [0..<512] s) (\<lambda>s.
     bindE (kfree pt s) (\<lambda>s. bindE (delete_ptb_mlist pt s) exit_trans_pagetable)))"

definition uvmfree :: "nat \<Rightarrow> u64 \<Rightarrow> 'a ptdupstate_scheme \<Rightarrow> 'a ptdupstate_scheme res" where
  "uvmfree pt sz s = bindE (uvmunmap pt 0 sz True s) (freewalk 3 pt)"

definition page_copy :: "nat \<Rightarrow> nat \<Rightarrow> memory \<Rightarrow> memory" where
  "page_copy dst src m = (\<lambda>a. if dst \<le> a \<and> a < dst + PGSIZE then m (a - dst + src) else m a)"

fun uvmcopy_loop ::
  "nat \<Rightarrow> nat \<Rightarrow> u64 list \<Rightarrow> dupst \<Rightarrow> 'a ptdupstate_scheme \<Rightarrow> (int \<times> 'a ptdupstate_scheme) res" where
  "uvmcopy_loop old new [] st s =
     bindE (dup_end new st s) (\<lambda>s. bindE (exit_trans_pagetable s) (\<lambda>s. Inr (0, s)))"
| "uvmcopy_loop old new (i # vs) st s =
     bindE (walk old i False s) (\<lambda>(pte, s). case pte of None \<Rightarrow> Inl (Panic ''uvmcopy: pte should exist'')
     | Some p \<Rightarrow> let e = pte_at (mem s) p in
         if e AND PTE_V = 0 then Inl (Panic ''uvmcopy: page not present'')
         else bindE (kalloc s) (\<lambda>(pg, s).
           let err = (\<lambda>s. bindE (exit_trans_pagetable s) (\<lambda>s.
                 bindE (uvmunmap new 0 i True s) (\<lambda>s. Inr (-1, s)))) in
           if pg = 0 then err s
           else bindE (mappages new i PGSZ (of_nat pg) (pte_flags e)
                 (s\<lparr>mem := page_copy pg (unat (pte2pa e)) (mem s)\<rparr>)) (\<lambda>(r, s).
             if r \<noteq> 0 then bindE (kfree pg s) err
             else bindE (dup_round new 0 i pg st s) (\<lambda>(st, s). uvmcopy_loop old new vs st s))))"

definition uvmcopy :: "nat \<Rightarrow> nat \<Rightarrow> u64 \<Rightarrow> 'a ptdupstate_scheme \<Rightarrow> (int \<times> 'a ptdupstate_scheme) res" where
  "uvmcopy old new sz s = bindE (enter_trans_pagetable s) (uvmcopy_loop old new (page_addrs 0 sz) DUP0)"

definition uvmclear :: "nat \<Rightarrow> u64 \<Rightarrow> 'a ptdupstate_scheme \<Rightarrow> 'a ptdupstate_scheme res" where
  "uvmclear pt va s = bindE (walk pt va False s) (\<lambda>(pte, s). case pte of None \<Rightarrow> Inl (Panic ''uvmclear'')
     | Some p \<Rightarrow> bindE (enter_trans_pagetable s) (\<lambda>s.
         bindE (l0_ptes_clear_user pt va (set_pte p (pte_at (mem s) p AND NOT PTE_U) s)) exit_trans_pagetable))"

section \<open>Copies between user and kernel\<close>

text \<open>\<open>tr\<close> is \<open>walkaddr\<close> on the process's table: the physical page of a virtual page, or 0.\<close>

definition chunk :: "u64 \<Rightarrow> u64 \<Rightarrow> u64" where
  "chunk va n = (let k = PGSZ - (va - pgrounddown va) in if k > n then n else k)"

lemma page_off: "va - pgrounddown va = va AND 0xFFF"
proof -
  have "pgrounddown va AND (va AND 0xFFF) = 0"
    unfolding pgrounddown_def by (intro bit_word_eqI, simp only: mask_bits const_bits) simp
  moreover have "pgrounddown va OR (va AND 0xFFF) = va"
    unfolding pgrounddown_def by (intro bit_word_eqI, simp only: mask_bits const_bits) auto
  ultimately have "pgrounddown va + (va AND 0xFFF) = va" by (simp add: disjunctive_add_eq_or)
  then show ?thesis by (metis add_diff_cancel_left')
qed

lemma chunk_bounds:
  assumes "len \<noteq> 0"
  shows "unat (chunk va len) = min (4096 - unat va mod 4096) (unat len)"
    and "0 < unat (chunk va len)" and "unat (chunk va len) \<le> unat len" and "unat (chunk va len) \<le> 4096"
proof -
  have "unat (va AND 0xFFF) = unat va mod 4096"
    using take_bit_eq_mask [of 12 va] unsigned_take_bit_eq [of 12 va]
    by (simp add: mask_eq_exp_minus_1 take_bit_eq_mod)
  then have k: "unat (PGSZ - (va - pgrounddown va)) = 4096 - unat va mod 4096"
    unfolding page_off by (simp add: unat_sub word_le_nat_alt)
  show c: "unat (chunk va len) = min (4096 - unat va mod 4096) (unat len)"
    unfolding chunk_def Let_def using k by (simp add: word_less_nat_alt min_def)
  have "0 < unat len" using assms by (simp add: unat_gt_0)
  then show "0 < unat (chunk va len)" "unat (chunk va len) \<le> unat len" "unat (chunk va len) \<le> 4096"
    unfolding c by simp_all
qed

lemma chunk_less: "len \<noteq> 0 \<Longrightarrow> unat (len - chunk va len) < unat len"
  using chunk_bounds [of len va] by (simp add: unat_sub word_le_nat_alt)

function copyout :: "(u64 \<Rightarrow> u64) \<Rightarrow> u64 \<Rightarrow> u64 \<Rightarrow> u64 \<Rightarrow> bytes \<Rightarrow> int \<times> bytes" where
  "copyout tr dstva src len m =
     (if len = 0 then (0, m)
      else let va0 = pgrounddown dstva; pa0 = tr va0 in
        if pa0 = 0 then (-1, m)
        else let n = chunk dstva len in
          copyout tr (va0 + PGSZ) (src + n) (len - n) (memmove (pa0 + (dstva - va0)) src (ucast n) m))"
  by pat_completeness auto
termination
  by (relation "measure (\<lambda>(tr, va, src, len, m). unat len)") (auto simp: chunk_less)

function copyin :: "(u64 \<Rightarrow> u64) \<Rightarrow> u64 \<Rightarrow> u64 \<Rightarrow> u64 \<Rightarrow> bytes \<Rightarrow> int \<times> bytes" where
  "copyin tr dst srcva len m =
     (if len = 0 then (0, m)
      else let va0 = pgrounddown srcva; pa0 = tr va0 in
        if pa0 = 0 then (-1, m)
        else let n = chunk srcva len in
          copyin tr (dst + n) (va0 + PGSZ) (len - n) (memmove dst (pa0 + (srcva - va0)) (ucast n) m))"
  by pat_completeness auto
termination
  by (relation "measure (\<lambda>(tr, dst, va, len, m). unat len)") (auto simp: chunk_less)

declare copyout.simps [simp del] copyin.simps [simp del]

text \<open>The inner loop of \<open>copyinstr\<close>: copies up to the zero byte, at most \<open>n\<close> bytes.\<close>

fun copy_str :: "nat \<Rightarrow> u64 \<Rightarrow> u64 \<Rightarrow> bytes \<Rightarrow> bool \<times> nat \<times> bytes" where
  "copy_str 0 p dst m = (False, 0, m)"
| "copy_str (Suc n) p dst m =
     (if m p = 0 then (True, 0, m(dst := 0))
      else let (z, k, m) = copy_str n (p + 1) (dst + 1) (m(dst := m p)) in (z, Suc k, m))"

lemma copy_str_count: "copy_str n p dst m = (False, k, m') \<Longrightarrow> k = n"
  by (induction n p dst m arbitrary: k m' rule: copy_str.induct) (auto split: if_splits prod.splits)

function copyinstr :: "(u64 \<Rightarrow> u64) \<Rightarrow> u64 \<Rightarrow> u64 \<Rightarrow> u64 \<Rightarrow> bytes \<Rightarrow> int \<times> bytes" where
  "copyinstr tr dst srcva mx m =
     (if mx = 0 then (-1, m)
      else let va0 = pgrounddown srcva; pa0 = tr va0 in
        if pa0 = 0 then (-1, m)
        else let n = chunk srcva mx in
          (case copy_str (unat n) (pa0 + (srcva - va0)) dst m of
             (True, _, m) \<Rightarrow> (0, m)
           | (False, _, m) \<Rightarrow> copyinstr tr (dst + n) (va0 + PGSZ) (mx - n) m))"
  by pat_completeness auto
termination
  by (relation "measure (\<lambda>(tr, dst, va, mx, m). unat mx)") (auto simp: chunk_less)

declare copyinstr.simps [simp del]

section \<open>What the copies do\<close>

definition phys :: "(u64 \<Rightarrow> u64) \<Rightarrow> u64 \<Rightarrow> u64" where
  "phys tr va = tr (pgrounddown va) + (va AND 0xFFF)"

lemma unat_off: "unat (va AND 0xFFF :: u64) = unat va mod 4096"
  using take_bit_eq_mask [of 12 va] unsigned_take_bit_eq [of 12 va]
  by (simp add: mask_eq_exp_minus_1 take_bit_eq_mod)

lemma unat_pgrounddown: "unat (pgrounddown va) = unat va - unat va mod 4096"
proof -
  have "pgrounddown va = va - (va AND 0xFFF)" using page_off [of va] by (metis diff_diff_eq2 add_diff_cancel_left' )
  then show ?thesis by (simp add: unat_sub unat_off word_le_nat_alt)
qed

lemma page_step:
  assumes "i < 4096 - unat va mod 4096"
  shows "pgrounddown (va + of_nat i) = pgrounddown va" and "(va + of_nat i) AND 0xFFF = (va AND 0xFFF) + of_nat i"
proof -
  have i: "unat (of_nat i :: u64) = i" using assms by (simp add: unat_of_nat)
  have "unat va div 4096 < 4503599627370496" using unat_lt64 [of va] by (intro less_mult_imp_div_less) simp
  then have "4096 * (unat va div 4096) + 4096 \<le> 18446744073709551616" by simp
  moreover have "unat va = 4096 * (unat va div 4096) + unat va mod 4096" by simp
  ultimately have "unat va + i < 18446744073709551616" using assms by linarith
  then have lt: "unat va + i < 2 ^ 64" by simp
  then have u: "unat (va + of_nat i) = unat va + i" by (simp add: unat_word_ariths i)
  have m: "(unat va + i) mod 4096 = unat va mod 4096 + i" using assms by (metis add.commute mod_add_right_eq mod_less less_diff_conv)
  show "pgrounddown (va + of_nat i) = pgrounddown va"
    by (simp add: word_unat_eq_iff unat_pgrounddown u m)
  have "unat ((va + of_nat i) AND 0xFFF) = unat va mod 4096 + i" by (simp only: unat_off u m)
  moreover have "unat ((va AND 0xFFF) + of_nat i) = unat va mod 4096 + i"
    using assms by (simp add: unat_word_ariths unat_off i)
  ultimately show "(va + of_nat i) AND 0xFFF = (va AND 0xFFF) + of_nat i" by (simp only: word_unat_eq_iff)
qed

text \<open>
  The bytes of the user buffer: mapped, at different physical addresses, and with no page at the
  end of the address space.
\<close>

definition user_buffer :: "(u64 \<Rightarrow> u64) \<Rightarrow> u64 \<Rightarrow> nat \<Rightarrow> bool" where
  "user_buffer tr va n \<longleftrightarrow>
     (\<forall>i < n. tr (pgrounddown (va + of_nat i)) \<noteq> 0 \<and> unat (tr (pgrounddown (va + of_nat i))) + 4096 < 2 ^ 64) \<and>
     inj_on (\<lambda>i. phys tr (va + of_nat i)) {..<n}"

lemma user_buffer_tail:
  "user_buffer tr va n \<Longrightarrow> user_buffer tr (va + of_nat k) (n - k)"
proof -
  assume u: "user_buffer tr va n"
  have i: "inj_on (\<lambda>i. phys tr (va + of_nat i)) ((+) k ` {..<n - k})"
    using u by (auto simp: user_buffer_def elim!: inj_on_subset)
  have "inj_on ((\<lambda>i. phys tr (va + of_nat i)) \<circ> (+) k) {..<n - k}" by (rule comp_inj_on [OF _ i]) simp
  then have "inj_on (\<lambda>i. phys tr (va + of_nat k + of_nat i)) {..<n - k}" by (simp add: o_def add.assoc)
  moreover have "tr (pgrounddown (va + of_nat k + of_nat i)) \<noteq> 0 \<and>
      unat (tr (pgrounddown (va + of_nat k + of_nat i))) + 4096 < 2 ^ 64" if "i < n - k" for i
  proof -
    have "k + i < n" using that by simp
    then show ?thesis using u spec [where x = "k + i"] by (auto simp: user_buffer_def add.assoc)
  qed
  ultimately show ?thesis by (simp add: user_buffer_def)
qed

lemma next_page: "unat (chunk va len) < unat len \<Longrightarrow> pgrounddown va + PGSZ = va + chunk va len"
proof -
  assume "unat (chunk va len) < unat len"
  then have "chunk va len = PGSZ - (va - pgrounddown va)" by (auto simp: chunk_def Let_def split: if_splits)
  then show ?thesis by simp
qed

text \<open>One chunk is one \<open>memmove\<close> between contiguous bytes.\<close>

lemma chunk_phys:
  assumes "len \<noteq> 0" and "i < unat (chunk va len)"
  shows "phys tr (va + of_nat i) = phys tr va + of_nat i"
  using assms chunk_bounds(1) [OF assms(1), of va] page_step [of i va] by (simp add: phys_def)

lemma chunk_fits:
  assumes "len \<noteq> 0" and "unat (tr (pgrounddown va)) + 4096 < 2 ^ 64"
  shows "unat (phys tr va) + unat (chunk va len) < 2 ^ 64"
proof -
  have "unat (phys tr va) \<le> unat (tr (pgrounddown va)) + unat va mod 4096"
    by (simp add: phys_def unat_word_ariths unat_off)
  moreover have "unat va mod 4096 + unat (chunk va len) \<le> 4096" using chunk_bounds(1) [OF assms(1), of va] by simp
  ultimately show ?thesis using assms(2) by linarith
qed

lemma within_nth: "k < 2 ^ 64 \<Longrightarrow> within d k a \<longleftrightarrow> (\<exists>i < k. a = d + of_nat i)"
proof
  assume "within d k a"
  then show "\<exists>i < k. a = d + of_nat i" unfolding within_def by (intro exI [of _ "unat (a - d)"]) simp
next
  assume k: "k < 2 ^ 64" and "\<exists>i < k. a = d + of_nat i"
  then show "within d k a" by (auto simp: within_def unat_of_nat)
qed

text \<open>Copying \<open>n\<close> bytes, byte \<open>i\<close> from \<open>S i\<close> to \<open>D i\<close>; two such copies in a row.\<close>

definition copied :: "nat \<Rightarrow> (nat \<Rightarrow> u64) \<Rightarrow> (nat \<Rightarrow> u64) \<Rightarrow> bytes \<Rightarrow> bytes \<Rightarrow> bool" where
  "copied n D S m m' \<longleftrightarrow> (\<forall>i < n. m' (D i) = m (S i)) \<and> (\<forall>a. (\<forall>i < n. a \<noteq> D i) \<longrightarrow> m' a = m a)"

lemma copied_append:
  assumes "copied k D S m m1" and "copied (n - k) (\<lambda>i. D (k + i)) (\<lambda>i. S (k + i)) m1 m2" and "k \<le> n"
    and inj: "inj_on D {..<n}" and dj: "\<forall>i < n. \<forall>j < n. D i \<noteq> S j"
  shows "copied n D S m m2"
  unfolding copied_def
proof (intro conjI allI impI)
  fix i assume i: "i < n"
  show "m2 (D i) = m (S i)"
  proof (cases "i < k")
    case True
    have "D i \<noteq> D (k + j)" if "j < n - k" for j
    proof
      assume "D i = D (k + j)"
      moreover have "k + j < n" using that by linarith
      ultimately have "i = k + j" using inj i by (auto simp: inj_on_def)
      with True show False by simp
    qed
    then have "m2 (D i) = m1 (D i)" using assms(2) by (auto simp: copied_def)
    then show ?thesis using True assms(1) by (simp add: copied_def)
  next
    case False
    then have "i - k < n - k" using i by linarith
    then have "m2 (D (k + (i - k))) = m1 (S (k + (i - k)))" using assms(2) unfolding copied_def by blast
    moreover have "m1 (S i) = m (S i)" using assms(1) dj i assms(3) by (metis copied_def less_le_trans)
    ultimately show ?thesis using False by simp
  qed
next
  fix a assume a: "\<forall>i < n. a \<noteq> D i"
  then have "\<forall>i < n - k. a \<noteq> D (k + i)" by (simp add: less_diff_conv add.commute)
  then have "m2 a = m1 a" using assms(2) by (simp add: copied_def)
  also have "\<dots> = m a" using assms(1,3) a by (auto simp: copied_def)
  finally show "m2 a = m a" .
qed

lemma unat_chunk32: "len \<noteq> 0 \<Longrightarrow> unat (ucast (chunk va len) :: u32) = unat (chunk va len)"
  using chunk_bounds(4) [of len va] by (simp add: unsigned_ucast_eq take_bit_nat_eq_self)

lemma block_copied_copied:
  "k < 2 ^ 64 \<Longrightarrow> copied k (\<lambda>i. d + of_nat i) (\<lambda>i. s + of_nat i) m (block_copied d s k m)"
  by (auto simp: copied_def block_copied_def within_nth)

lemma copied_cong:
  "copied n D S m m' \<Longrightarrow> (\<And>i. i < n \<Longrightarrow> D' i = D i) \<Longrightarrow> (\<And>i. i < n \<Longrightarrow> S' i = S i) \<Longrightarrow> copied n D' S' m m'"
  by (auto simp: copied_def)

lemma chunk_rest:
  assumes "len \<noteq> 0"
  shows "unat (len - chunk va len) = unat len - unat (chunk va len)" and "unat (chunk va len) < 2 ^ 64"
  using chunk_bounds [OF assms, of va] by (simp_all add: unat_sub word_le_nat_alt)

lemma add_chunk: "x + chunk va len + of_nat i = x + of_nat (unat (chunk va len) + i)"
  by (simp add: add.assoc)

lemma disjoint_tail:
  "\<forall>i < n. \<forall>j < n. f i \<noteq> g j \<Longrightarrow> \<forall>i < n - k. \<forall>j < n - k. f (k + i) \<noteq> g (k + j)"
  for f :: "nat \<Rightarrow> 'a"
  by (simp add: less_diff_conv add.commute)

lemma copyout_correct:
  assumes "user_buffer tr va (unat len)" and "unat src + unat len < 2 ^ 64"
    and "\<forall>i < unat len. \<forall>j < unat len. phys tr (va + of_nat i) \<noteq> src + of_nat j"
  shows "\<exists>m'. copyout tr va src len m = (0, m') \<and>
    copied (unat len) (\<lambda>i. phys tr (va + of_nat i)) (\<lambda>i. src + of_nat i) m m'"
  using assms
proof (induction tr va src len m rule: copyout.induct)
  case (1 tr va src len m)
  show ?case
  proof (cases "len = 0")
    case True
    then show ?thesis by (simp add: copyout.simps copied_def)
  next
    case False
    let ?n = "chunk va len" and ?k = "unat (chunk va len)"
    let ?D = "\<lambda>i. phys tr (va + of_nat i)" and ?S = "\<lambda>i. src + of_nat i"
    note c = chunk_bounds(2-4) [OF False, of va] chunk_rest [OF False, of va]
    have p: "tr (pgrounddown va) \<noteq> 0" "unat (tr (pgrounddown va)) + 4096 < 2 ^ 64"
      using 1(2) c(1,2) by (auto simp: user_buffer_def dest: spec [of _ 0])
    let ?m = "memmove (phys tr va) src (ucast ?n) m"
    have "?m = block_copied (phys tr va) src ?k m"
      using memmove_block [of src "ucast ?n" "phys tr va" m] 1(3) c(2) chunk_fits [of len tr va] False p(2)
        unat_chunk32 [OF False, of va] by simp
    then have blk: "copied ?k ?D ?S m ?m"
      using copied_cong [OF block_copied_copied [OF c(5)]] chunk_phys [OF False] by simp
    have step: "copyout tr va src len m = copyout tr (pgrounddown va + PGSZ) (src + ?n) (len - ?n) ?m"
      using False p(1) page_off [of va] by (subst copyout.simps) (simp add: phys_def Let_def)
    show ?thesis
    proof (cases "?k = unat len")
      case True
      then have "len - ?n = 0" using c(4) by (simp add: unat_eq_0 [symmetric])
      then have "copyout tr va src len m = (0, ?m)" unfolding step by (simp add: copyout.simps)
      then show ?thesis using blk True by simp
    next
      case part: False
      then have np: "pgrounddown va + PGSZ = va + ?n" using c(2) by (intro next_page) simp
      have ub: "user_buffer tr (va + ?n) (unat (len - ?n))"
        using user_buffer_tail [OF 1(2), of ?k] by (simp add: c(4))
      have sb: "unat (src + ?n) + unat (len - ?n) < 2 ^ 64"
        using 1(3) c(2) by (simp add: c(4) unat_word_ariths)
      have dj: "\<forall>i < unat (len - ?n). \<forall>j < unat (len - ?n). phys tr (va + ?n + of_nat i) \<noteq> src + ?n + of_nat j"
        unfolding add_chunk c(4) using disjoint_tail [OF 1(4), of ?k] .
      obtain m' where m': "copyout tr (va + ?n) (src + ?n) (len - ?n) ?m = (0, m')"
        "copied (unat (len - ?n)) (\<lambda>i. phys tr (va + ?n + of_nat i)) (\<lambda>i. src + ?n + of_nat i) ?m m'"
        using 1(1) [OF False refl refl p(1) refl] ub sb dj unfolding np phys_def page_off by blast
      have "copied (unat len) ?D ?S m m'"
        using copied_append [OF blk _ c(2)] m'(2) 1(2,4) unfolding add_chunk c(4) user_buffer_def by blast
      then show ?thesis using step m'(1) np by simp
    qed
  qed
qed

lemma inj_offset: "n < 2 ^ 64 \<Longrightarrow> inj_on (\<lambda>i. d + (of_nat i :: u64)) {..<n}"
proof (rule inj_onI)
  fix x y assume n: "n < 2 ^ 64" "x \<in> {..<n}" "y \<in> {..<n}" and "d + (of_nat x :: u64) = d + of_nat y"
  then have "unat (of_nat x :: u64) = unat (of_nat y :: u64)" by simp
  then show "x = y" using n by (simp add: unat_of_nat64)
qed

lemma copyin_correct:
  assumes "user_buffer tr va (unat len)" and "unat dst + unat len < 2 ^ 64"
    and "\<forall>i < unat len. \<forall>j < unat len. dst + of_nat i \<noteq> phys tr (va + of_nat j)"
  shows "\<exists>m'. copyin tr dst va len m = (0, m') \<and>
    copied (unat len) (\<lambda>i. dst + of_nat i) (\<lambda>i. phys tr (va + of_nat i)) m m'"
  using assms
proof (induction tr dst va len m rule: copyin.induct)
  case (1 tr dst va len m)
  show ?case
  proof (cases "len = 0")
    case True
    then show ?thesis by (simp add: copyin.simps copied_def)
  next
    case False
    let ?n = "chunk va len" and ?k = "unat (chunk va len)"
    let ?S = "\<lambda>i. phys tr (va + of_nat i)" and ?D = "\<lambda>i. dst + of_nat i"
    note c = chunk_bounds(2-4) [OF False, of va] chunk_rest [OF False, of va]
    have p: "tr (pgrounddown va) \<noteq> 0" "unat (tr (pgrounddown va)) + 4096 < 2 ^ 64"
      using 1(2) c(1,2) by (auto simp: user_buffer_def dest: spec [of _ 0])
    let ?m = "memmove dst (phys tr va) (ucast ?n) m"
    have "?m = block_copied dst (phys tr va) ?k m"
      using memmove_block [of "phys tr va" "ucast ?n" dst m] 1(3) c(2) chunk_fits [of len tr va] False p(2)
        unat_chunk32 [OF False, of va] by simp
    then have blk: "copied ?k ?D ?S m ?m"
      using copied_cong [OF block_copied_copied [OF c(5)]] chunk_phys [OF False] by simp
    have step: "copyin tr dst va len m = copyin tr (dst + ?n) (pgrounddown va + PGSZ) (len - ?n) ?m"
      using False p(1) page_off [of va] by (subst copyin.simps) (simp add: phys_def Let_def)
    show ?thesis
    proof (cases "?k = unat len")
      case True
      then have "len - ?n = 0" using c(4) by (simp add: unat_eq_0 [symmetric])
      then have "copyin tr dst va len m = (0, ?m)" unfolding step by (simp add: copyin.simps)
      then show ?thesis using blk True by simp
    next
      case part: False
      then have np: "pgrounddown va + PGSZ = va + ?n" using c(2) by (intro next_page) simp
      have ub: "user_buffer tr (va + ?n) (unat (len - ?n))"
        using user_buffer_tail [OF 1(2), of ?k] by (simp add: c(4))
      have sb: "unat (dst + ?n) + unat (len - ?n) < 2 ^ 64"
        using 1(3) c(2) by (simp add: c(4) unat_word_ariths)
      have dj: "\<forall>i < unat (len - ?n). \<forall>j < unat (len - ?n). dst + ?n + of_nat i \<noteq> phys tr (va + ?n + of_nat j)"
        unfolding add_chunk c(4) using disjoint_tail [OF 1(4), of ?k] .
      obtain m' where m': "copyin tr (dst + ?n) (va + ?n) (len - ?n) ?m = (0, m')"
        "copied (unat (len - ?n)) (\<lambda>i. dst + ?n + of_nat i) (\<lambda>i. phys tr (va + ?n + of_nat i)) ?m m'"
        using 1(1) [OF False refl refl p(1) refl] ub sb dj unfolding np phys_def page_off by blast
      have "inj_on ?D {..<unat len}" using unat_lt64 [of len] by (intro inj_offset) simp
      then have "copied (unat len) ?D ?S m m'"
        using copied_append [OF blk _ c(2)] m'(2) 1(4) unfolding add_chunk c(4) by blast
      then show ?thesis using step m'(1) np by simp
    qed
  qed
qed

text \<open>
  C17. Bytes written to user memory with \<open>copyout\<close> and read back with \<open>copyin\<close> are the bytes
  that were written, whatever physical pages the user's pages lie in and wherever the buffer
  crosses them, and no other byte has changed.
\<close>

theorem user_copy_roundtrip:
  assumes "user_buffer tr va (unat len)" and "unat src + unat len < 2 ^ 64" and "unat dst + unat len < 2 ^ 64"
    and "\<forall>i < unat len. \<forall>j < unat len. phys tr (va + of_nat i) \<noteq> src + of_nat j \<and> phys tr (va + of_nat i) \<noteq> dst + of_nat j"
  shows "\<exists>m1 m2. copyout tr va src len m = (0, m1) \<and> copyin tr dst va len m1 = (0, m2) \<and>
    (\<forall>i < unat len. m2 (dst + of_nat i) = m (src + of_nat i)) \<and>
    (\<forall>a. (\<forall>i < unat len. a \<noteq> dst + of_nat i \<and> a \<noteq> phys tr (va + of_nat i)) \<longrightarrow> m2 a = m a)"
proof -
  obtain m1 where m1: "copyout tr va src len m = (0, m1)"
      "copied (unat len) (\<lambda>i. phys tr (va + of_nat i)) (\<lambda>i. src + of_nat i) m m1"
    using copyout_correct [of tr va len src m] assms(1,2,4) by blast
  have "\<forall>i < unat len. \<forall>j < unat len. dst + of_nat i \<noteq> phys tr (va + of_nat j)" using assms(4) by metis
  then obtain m2 where m2: "copyin tr dst va len m1 = (0, m2)"
      "copied (unat len) (\<lambda>i. dst + of_nat i) (\<lambda>i. phys tr (va + of_nat i)) m1 m2"
    using copyin_correct [of tr va len dst m1] assms(1,3) by blast
  then show ?thesis using m1 by (simp add: copied_def)
qed

text \<open>A buffer across two pages that are not adjacent in memory.\<close>

definition two_pages :: "u64 \<Rightarrow> u64" where
  "two_pages p = (if p = 0x1000 then 0x9000 else if p = 0x2000 then 0x7000 else 0)"

theorem user_copy_roundtrip_witness:
  "\<exists>m1 m2. copyout two_pages 0x1FFE 0x20000 3 (\<lambda>a. ucast (a - 0x20000)) = (0, m1) \<and>
    copyin two_pages 0x30000 0x1FFE 3 m1 = (0, m2) \<and> (\<forall>i < 3. m2 (0x30000 + of_nat i) = of_nat i)"
proof -
  have l: "(\<forall>i < (3 :: nat). P i) \<longleftrightarrow> P 0 \<and> P 1 \<and> P 2" for P
    by (auto simp: numeral_3_eq_3 less_Suc_eq numeral_2_eq_2)
  have p: "phys two_pages 0x1FFE = 0x9FFE" "phys two_pages 0x1FFF = 0x9FFF" "phys two_pages 0x2000 = 0x7000"
    by (simp_all add: phys_def two_pages_def pgrounddown_def)
  have "{..<3 :: nat} = {0, 1, 2}" by auto
  then have "user_buffer two_pages 0x1FFE (unat (3 :: u64))"
    by (simp add: user_buffer_def l p) (simp add: two_pages_def pgrounddown_def)
  then show ?thesis
    using user_copy_roundtrip [of two_pages "0x1FFE" 3 "0x20000" "0x30000" "\<lambda>a. ucast (a - 0x20000)"]
    by (simp add: l p) blast
qed

section \<open>What a mapping does\<close>

definition next_table :: "memory \<Rightarrow> nat \<Rightarrow> nat \<Rightarrow> u64 \<Rightarrow> nat option" where
  "next_table m level pt va = (let e = pte_at m (pte_addr level pt va) in
     if e AND PTE_V \<noteq> 0 then Some (unat (pte2pa e)) else None)"

text \<open>
  The tables for the addresses of \<open>A\<close> exist, their leaf entries are at \<open>sl\<close>, different for
  different addresses, and no leaf entry is a directory entry on the way to one.
\<close>

definition tables_ok :: "memory \<Rightarrow> nat \<Rightarrow> u64 set \<Rightarrow> (u64 \<Rightarrow> nat) \<Rightarrow> bool" where
  "tables_ok m root A sl \<longleftrightarrow> root \<noteq> 0 \<and> inj_on sl A \<and> (\<forall>v \<in> A. v < MAXVA \<and>
     (\<exists>p1 p0. next_table m 2 root v = Some p1 \<and> next_table m 1 p1 v = Some p0 \<and> p1 \<noteq> 0 \<and>
        sl v = pte_addr 0 p0 v \<and> (\<forall>w \<in> A. sl w \<noteq> pte_addr 2 root v \<and> sl w \<noteq> pte_addr 1 p1 v)))"

lemma tables_ok_upd:
  "tables_ok m root A sl \<Longrightarrow> w \<in> A \<Longrightarrow> tables_ok (m(sl w := x)) root A sl"
  by (fastforce simp: tables_ok_def next_table_def pte_at_def Let_def split: if_splits)

lemma walk_tables:
  assumes "tables_ok (mem s) root A sl" and "v \<in> A"
  shows "walk root v alloc s = Inr (Some (sl v), s)"
  using assms
  by (fastforce simp: tables_ok_def walk_def walk_level_def next_table_def Let_def linorder_not_le split: if_splits)

text \<open>The pages of a range, and the entries written for them.\<close>

definition page_no :: "u64 \<Rightarrow> nat \<Rightarrow> u64" where
  "page_no a i = a + of_nat i * PGSZ"

definition leaf :: "u64 \<Rightarrow> u64 \<Rightarrow> u64" where
  "leaf pa perm = pa2pte pa OR perm OR PTE_V"

fun map_words :: "nat \<Rightarrow> u64 \<Rightarrow> u64 \<Rightarrow> u64 \<Rightarrow> (u64 \<Rightarrow> nat) \<Rightarrow> memory \<Rightarrow> memory" where
  "map_words n a pa perm sl m = (let m = m(sl a := unat (leaf pa perm)) in
     case n of 0 \<Rightarrow> m | Suc n \<Rightarrow> map_words n (a + PGSZ) (pa + PGSZ) perm sl m)"

declare map_words.simps [simp del]

lemma map_loop_words:
  assumes "tables_ok (mem s) root A sl" and "\<forall>i \<le> n. page_no a i \<in> A" and "n < 2 ^ 52"
    and "\<forall>i \<le> n. pte_at (mem s) (sl (page_no a i)) AND PTE_V = 0"
  shows "map_loop n root a (page_no a n) pa perm s = Inr (0, s\<lparr>mem := map_words n a pa perm sl (mem s)\<rparr>)"
  using assms
proof (induction n arbitrary: a pa s)
  case 0
  then have "a \<in> A" by (simp add: page_no_def)
  then show ?case using 0 walk_tables [OF 0(1)]
    by (subst map_loop.simps) (simp add: page_no_def set_pte_def map_words.simps leaf_def Let_def)
next
  case (Suc n)
  let ?s = "set_pte (sl a) (leaf pa perm) s"
  have a: "a \<in> A" using Suc.prems(2) by (auto simp: page_no_def dest: spec [of _ 0])
  have pn: "page_no (a + PGSZ) i = page_no a (Suc i)" for i by (simp add: page_no_def algebra_simps)
  have t: "tables_ok (mem ?s) root A sl" using tables_ok_upd [OF Suc.prems(1) a] by (simp add: set_pte_def)
  have ne: "page_no a i \<noteq> a" if "0 < i" "i \<le> Suc n" for i
  proof -
    have "unat (of_nat i * PGSZ) = i * 4096" using that Suc.prems(3) by (simp add: unat_word_ariths unat_of_nat)
    then have "of_nat i * PGSZ \<noteq> 0" using that(1) by (metis mult_eq_0_iff neq0_conv unat_0 zero_neq_numeral)
    then show ?thesis by (simp add: page_no_def)
  qed
  have "pte_at (mem ?s) (sl (page_no (a + PGSZ) i)) AND PTE_V = 0" if "i \<le> n" for i
  proof -
    have "page_no a (Suc i) \<in> A" "page_no a (Suc i) \<noteq> a" using that Suc.prems(2) ne by auto
    then have "sl (page_no a (Suc i)) \<noteq> sl a" using a Suc.prems(1) by (auto simp: tables_ok_def inj_on_def)
    then show ?thesis using Suc.prems(4) that unfolding pn by (simp add: set_pte_def pte_at_def)
  qed
  then have IH: "map_loop n root (a + PGSZ) (page_no (a + PGSZ) n) (pa + PGSZ) perm ?s =
      Inr (0, ?s\<lparr>mem := map_words n (a + PGSZ) (pa + PGSZ) perm sl (mem ?s)\<rparr>)"
    using Suc.prems(2,3) t by (intro Suc.IH) (auto simp: pn)
  have "pte_at (mem s) (sl a) AND PTE_V = 0" using Suc.prems(4) by (auto simp: page_no_def dest: spec [of _ 0])
  then show ?case
    using IH walk_tables [OF Suc.prems(1) a] ne [of "Suc n"] unfolding pn
    by (subst map_loop.simps, subst map_words.simps) (auto simp: leaf_def set_pte_def Let_def)
qed

lemma page_no_Suc: "page_no (a + PGSZ) i = page_no a (Suc i)"
  by (simp add: page_no_def algebra_simps)

lemma page_no_inj: "n < 2 ^ 52 \<Longrightarrow> inj_on (page_no a) {..n}"
proof (rule inj_onI)
  fix i j assume n: "n < 2 ^ 52" "i \<in> {..n}" "j \<in> {..n}" and "page_no a i = page_no a j"
  then have "unat (of_nat i * PGSZ) = unat (of_nat j * PGSZ)" by (simp add: page_no_def)
  then show "i = j" using n by (simp add: unat_word_ariths unat_of_nat)
qed

lemma map_words_other: "\<forall>i \<le> n. x \<noteq> sl (page_no a i) \<Longrightarrow> map_words n a pa perm sl m x = m x"
proof (induction n arbitrary: a pa m)
  case 0
  then show ?case by (simp add: map_words.simps page_no_def)
next
  case (Suc n)
  have "x \<noteq> sl a" using Suc.prems by (auto simp: page_no_def dest: spec [of _ 0])
  moreover have "\<forall>i \<le> n. x \<noteq> sl (page_no (a + PGSZ) i)" using Suc.prems by (simp add: page_no_Suc)
  ultimately show ?case using Suc.IH by (simp add: map_words.simps [of "Suc n"] Let_def)
qed

lemma map_words_at:
  assumes "inj_on sl A" and "\<forall>i \<le> n. page_no a i \<in> A" and "n < 2 ^ 52" and "i \<le> n"
  shows "map_words n a pa perm sl m (sl (page_no a i)) = unat (leaf (page_no pa i) perm)"
  using assms(2-)
proof (induction n arbitrary: a pa m i)
  case 0
  then show ?case by (simp add: map_words.simps page_no_def)
next
  case (Suc n)
  let ?m = "m(sl a := unat (leaf pa perm))"
  have step: "map_words (Suc n) a pa perm sl m = map_words n (a + PGSZ) (pa + PGSZ) perm sl ?m"
    by (simp add: map_words.simps [of "Suc n"] Let_def)
  show ?case
  proof (cases i)
    case 0
    have z: "page_no a 0 = a" "page_no pa 0 = pa" by (simp_all add: page_no_def)
    have "sl a \<noteq> sl (page_no a (Suc j))" if "j \<le> n" for j
    proof -
      have "page_no a 0 \<noteq> page_no a (Suc j)"
        using inj_onD [OF page_no_inj [OF Suc.prems(2)], of a 0 "Suc j"] that by auto
      then show ?thesis using assms(1) Suc.prems(1) that unfolding z
        by (metis Suc_le_mono inj_onD le0 z(1))
    qed
    then have "map_words n (a + PGSZ) (pa + PGSZ) perm sl ?m (sl a) = ?m (sl a)"
      by (intro map_words_other) (simp add: page_no_Suc)
    then show ?thesis using 0 step z by simp
  next
    case (Suc j)
    have "map_words n (a + PGSZ) (pa + PGSZ) perm sl ?m (sl (page_no (a + PGSZ) j)) =
        unat (leaf (page_no (pa + PGSZ) j) perm)"
      using Suc Suc.prems by (intro Suc.IH) (auto simp: page_no_Suc)
    then show ?thesis using Suc step by (simp add: page_no_Suc)
  qed
qed

lemma leaf_fields:
  assumes "aligned 12 pa" and "below 56 pa" and "below 10 perm"
  shows "pte2pa (leaf pa perm) = pa" and "leaf pa perm AND PTE_V = 1" and "leaf pa perm AND PTE_U = perm AND PTE_U"
proof -
  note bits = leaf_def pte2pa_def pa2pte_def const_bits mask_bits
  have f: "bit pa i \<Longrightarrow> 12 \<le> i \<and> i < 56" "bit perm i \<Longrightarrow> i < 10" for i
    using assms by (auto simp: below_def aligned_def not_less [symmetric])
  have e: "bit pa i \<Longrightarrow> 12 + (i - 12) = i" for i using f(1) by simp
  show "pte2pa (leaf pa perm) = pa"
    by (intro bit_word_eqI, simp only: bits) (auto simp: e dest: f)
  show "leaf pa perm AND PTE_V = 1"
    by (intro bit_word_eqI, simp only: bits) (auto dest: f)
  show "leaf pa perm AND PTE_U = perm AND PTE_U"
    by (intro bit_word_eqI, simp only: bits) (auto dest: f)
qed

lemma aligned_mod: "aligned 12 w \<Longrightarrow> unat w mod 4096 = 0"
proof -
  assume "aligned 12 w"
  then have "w AND 0xFFF = 0" unfolding aligned_def by (intro bit_word_eqI, simp only: mask_bits const_bits) auto
  then show ?thesis using unat_off [of w] by simp
qed

lemma aligned_page_no: "aligned 12 a \<Longrightarrow> aligned 12 (page_no a i)"
proof -
  assume al: "aligned 12 a"
  have e: "bit a i \<Longrightarrow> 12 \<le> i \<and> 12 + (i - 12) = i" for i
    using al by (metis aligned_def le_add_diff_inverse not_less)
  have "a = push_bit 12 (drop_bit 12 a)"
    by (intro bit_word_eqI, simp only: mask_bits) (auto simp: e dest: e)
  then have "page_no a i = push_bit 12 (drop_bit 12 a + of_nat i)"
    by (simp add: page_no_def push_bit_eq_mult algebra_simps)
  then show ?thesis by (simp add: aligned_def bit_push_bit_iff)
qed

lemma pgrounddown_aligned: "aligned 12 w \<Longrightarrow> pgrounddown w = w \<and> pgrounddown (w + 0xFFF) = w"
  using page_step(1) [of 4095 w] aligned_mod [of w] unat_pgrounddown [of w] by (simp add: word_unat_eq_iff)

text \<open>
  C14. Where the tables for a range of pages exist and the range is not mapped yet, \<open>mappages\<close>
  succeeds, afterwards \<open>walkaddr\<close> translates each of its pages to the corresponding physical
  page, and no word of memory other than the leaf entries of the range has changed.
\<close>

theorem mappages_walkaddr:
  assumes "tables_ok (mem s) root A sl" and "\<forall>i \<le> n. page_no a i \<in> A" and "n < 2 ^ 44"
    and "\<forall>i \<le> n. pte_at (mem s) (sl (page_no a i)) AND PTE_V = 0"
    and "aligned 12 a" and "aligned 12 pa" and "unat pa + n * 4096 < 2 ^ 56" and "below 10 perm" and "perm AND PTE_U \<noteq> 0"
  shows "\<exists>t. mappages root a (of_nat (Suc n) * PGSZ) pa perm s = Inr (0, t) \<and>
    (\<forall>i \<le> n. walkaddr root (page_no a i) t = Inr (page_no pa i, t)) \<and>
    (\<forall>x. (\<forall>i \<le> n. x \<noteq> sl (page_no a i)) \<longrightarrow> mem t x = mem s x)"
proof -
  let ?t = "s\<lparr>mem := map_words n a pa perm sl (mem s)\<rparr>"
  have n: "n < 2 ^ 52" using assms(3) by simp
  have l: "a + of_nat (Suc n) * PGSZ - 1 = page_no a n + 0xFFF" by (simp add: page_no_def algebra_simps)
  have la: "pgrounddown (a + of_nat (Suc n) * PGSZ - 1) = page_no a n"
    unfolding l using pgrounddown_aligned [OF aligned_page_no [OF assms(5)]] by blast
  have "unat (of_nat n * PGSZ) = n * 4096" using n by (simp add: unat_word_ariths unat_of_nat)
  then have fuel: "map_fuel a (page_no a n) = n" by (simp add: map_fuel_def page_no_def)
  have m: "mappages root a (of_nat (Suc n) * PGSZ) pa perm s = Inr (0, ?t)"
    using map_loop_words [OF assms(1,2) n assms(4)] pgrounddown_aligned [OF assms(5)]
    unfolding mappages_def la Let_def by (simp add: fuel)
  have inj: "inj_on sl A" using assms(1) by (simp add: tables_ok_def)
  have keep: "tables_ok (map_words k b q perm sl m) root A sl"
    if "tables_ok m root A sl" "\<forall>i \<le> k. page_no b i \<in> A" for k b q m
    using that
  proof (induction k arbitrary: b q m)
    case 0
    then have "tables_ok (m(sl b := unat (leaf q perm))) root A sl" by (intro tables_ok_upd) (auto simp: page_no_def)
    moreover have "map_words 0 b q perm sl m = m(sl b := unat (leaf q perm))"
      by (subst map_words.simps) (simp add: Let_def)
    ultimately show ?case by (simp only:)
  next
    case (Suc k)
    have "b \<in> A" using Suc.prems(2) by (auto simp: page_no_def dest: spec [of _ 0])
    then have "tables_ok (m(sl b := unat (leaf q perm))) root A sl" using Suc.prems(1) tables_ok_upd by blast
    then have "tables_ok (map_words k (b + PGSZ) (q + PGSZ) perm sl (m(sl b := unat (leaf q perm)))) root A sl"
      by (rule Suc.IH) (use Suc.prems(2) in \<open>simp add: page_no_Suc\<close>)
    moreover have "map_words (Suc k) b q perm sl m
        = map_words k (b + PGSZ) (q + PGSZ) perm sl (m(sl b := unat (leaf q perm)))"
      by (subst map_words.simps) (simp add: Let_def)
    ultimately show ?case by (simp only:)
  qed
  have "walkaddr root (page_no a i) ?t = Inr (page_no pa i, ?t)" if i: "i \<le> n" for i
  proof -
    have "unat (page_no pa i) < 2 ^ 56" using assms(7) i
      by (simp add: page_no_def unat_word_ariths unat_of_nat)
    then have f: "pte2pa (leaf (page_no pa i) perm) = page_no pa i" "leaf (page_no pa i) perm AND PTE_V \<noteq> 0"
      "leaf (page_no pa i) perm AND PTE_U \<noteq> 0"
      using leaf_fields [OF aligned_page_no [OF assms(6)] below_less assms(8)] assms(9) by simp_all
    have w: "walk root (page_no a i) False ?t = Inr (Some (sl (page_no a i)), ?t)"
      using walk_tables [of ?t root A sl "page_no a i" False] keep [OF assms(1,2)] assms(2) i by simp
    have "page_no a i < MAXVA" using assms(1,2) i by (auto simp: tables_ok_def)
    then show ?thesis using w f map_words_at [OF inj assms(2) n i, of pa perm "mem s"]
      by (simp add: walkaddr_def pte_at_def Let_def linorder_not_le [symmetric])
  qed
  then show ?thesis using m map_words_other [of n _ sl a pa perm "mem s"] by (intro exI [of _ ?t]) simp
qed

text \<open>Tables at \<open>0x1000\<close>, \<open>0x2000\<close> and \<open>0x4000\<close>, and the two pages from \<open>0x3000\<close>.\<close>

definition three_tables :: memory where
  "three_tables = (\<lambda>_. 0)(0x1000 := 0x801, 0x2000 := 0x1001)"

definition vm_state :: ptdupstate where
  "vm_state = memstate.extend (boot_mem three_tables 0) (ptdupstate.fields (\<lambda>_. undefined) (\<lambda>_. 0))"

theorem mappages_walkaddr_witness:
  "\<exists>t. mappages 0x1000 0x3000 (of_nat (Suc 1) * PGSZ) 0x87000000 RWXU vm_state = Inr (0, t) \<and>
    walkaddr 0x1000 0x4000 t = Inr (0x87001000, t)"
proof -
  have m: "mem vm_state = three_tables" by (simp add: vm_state_def boot_mem_def memstate.defs transtate.defs)
  have l: "(\<forall>i \<le> (1 :: nat). P i) \<longleftrightarrow> P 0 \<and> P 1" for P by (auto simp: le_Suc_eq)
  have p: "page_no a 0 = a" "page_no a 1 = a + PGSZ" for a by (simp_all add: page_no_def)
  have "tables_ok three_tables 0x1000 {0x3000, 0x4000} (\<lambda>v. 0x4000 + 8 * px 0 v)"
    by (simp add: tables_ok_def next_table_def pte_at_def pte_addr_def three_tables_def px_def pte2pa_def)
  moreover have "aligned 12 (push_bit 12 k :: u64)" for k by (simp add: aligned_def bit_push_bit_iff)
  from this [of 3] this [of "0x87000"] have "aligned 12 (0x3000 :: u64)" "aligned 12 (0x87000000 :: u64)" by simp_all
  moreover have "below 10 RWXU" by (simp add: below_less)
  ultimately show ?thesis
    using mappages_walkaddr [of vm_state "0x1000" "{0x3000, 0x4000}" "\<lambda>v. 0x4000 + 8 * px 0 v" 1 "0x3000" "0x87000000" RWXU]
    unfolding m l p by (simp add: three_tables_def pte_at_def px_def) blast
qed

end
