(* ===== verification/FsBlocks.thy ===== *)
theory FsBlocks
  imports Log
begin

text \<open>
  The lower layers of \<open>kernel/fs.c\<close>: the bitmap of blocks, the inodes on disk, the blocks of a
  file, and reading and writing its bytes. A block is its 256 little-endian words, as in \<open>Log\<close>;
  \<open>bread\<close> and \<open>brelse\<close> are used through their contract there (the contents of a cached
  block), and \<open>log_write\<close> is the one of \<open>Log\<close>. There is one disk, so that the device number
  is kept in the inodes but selects nothing.
\<close>

unbundle bit_operations_syntax

section \<open>Words and bytes of a block\<close>

type_synonym u16 = "16 word"

definition blk_word :: "blk \<Rightarrow> nat \<Rightarrow> u32" where
  "blk_word x i = word_of_int (x i)"

definition put_word :: "nat \<Rightarrow> u32 \<Rightarrow> blk \<Rightarrow> blk" where
  "put_word i w x = x(i := uint w)"

definition blk_byte :: "blk \<Rightarrow> nat \<Rightarrow> u8" where
  "blk_byte x j = ucast (drop_bit (8 * (j mod 4)) (blk_word x (j div 4)))"

definition put_blk_byte :: "nat \<Rightarrow> u8 \<Rightarrow> blk \<Rightarrow> blk" where
  "put_blk_byte j v x = (let k = 8 * (j mod 4); w = blk_word x (j div 4) in
     put_word (j div 4) ((w AND NOT (push_bit k 0xFF)) OR push_bit k (ucast v)) x)"

definition put_bytes :: "nat \<Rightarrow> u8 list \<Rightarrow> blk \<Rightarrow> blk" where
  "put_bytes j vs x = fold (\<lambda>i. put_blk_byte (j + i) (vs ! i)) [0..<length vs] x"

section \<open>State\<close>

record superblock =
  sb_magic :: nat
  sb_size :: nat
  sb_nblocks :: nat
  sb_ninodes :: nat
  sb_nlog :: nat
  sb_logstart :: nat
  sb_inodestart :: nat
  sb_bmapstart :: nat

text \<open>The part of an inode that lives on disk, and an entry of the cache.\<close>

record dinode =
  itype :: u16
  major :: u16
  minor :: u16
  nlink :: u16
  isize :: u32
  addrs :: "nat \<Rightarrow> u32"

record inode = dinode +
  idev :: nat
  inum :: nat
  iref :: int
  ivalid :: bool

record fsstate = logstate +
  sb :: superblock
  ino :: "nat \<Rightarrow> inode"       \<comment> \<open>the entry of the cache at an address\<close>
  iarr :: "nat \<Rightarrow> nat"        \<comment> \<open>\<open>&icache->inode[i]\<close>\<close>
  islock :: "nat \<Rightarrow> nat"      \<comment> \<open>number of the sleep lock of the entry at an address\<close>

abbreviation BSIZE :: nat where "BSIZE \<equiv> 1024"
abbreviation BPB :: nat where "BPB \<equiv> 8192"
abbreviation IPB :: nat where "IPB \<equiv> 16"
abbreviation NDIRECT :: nat where "NDIRECT \<equiv> 12"
abbreviation NINDIRECT :: nat where "NINDIRECT \<equiv> 256"
abbreviation FSMAGIC :: nat where "FSMAGIC \<equiv> 0x10203040"

definition upd_ino :: "nat \<Rightarrow> (inode \<Rightarrow> inode) \<Rightarrow> 'a fsstate_scheme \<Rightarrow> 'a fsstate_scheme" where
  "upd_ino ip f s = s\<lparr>ino := (ino s)(ip := f (ino s ip))\<rparr>"

text \<open>The contents of a block as \<open>bread\<close> delivers them, and a change of them in the cache.\<close>

definition rd :: "nat \<Rightarrow> 'a logstate_scheme \<Rightarrow> blk" where
  "rd n s = buf_data (int n) (jr s)"

definition wr :: "nat \<Rightarrow> (blk \<Rightarrow> blk) \<Rightarrow> 'a logstate_scheme \<Rightarrow> 'a logstate_scheme" where
  "wr n f s = s\<lparr>jr := buf_set (int n) (f (rd n s)) (jr s)\<rparr>"

definition modify :: "nat \<Rightarrow> (blk \<Rightarrow> blk) \<Rightarrow> 'a logstate_scheme \<Rightarrow> 'a logstate_scheme res" where
  "modify n f s = log_write (int n) (wr n f s)"

section \<open>The super block\<close>

definition readsb :: "'a fsstate_scheme \<Rightarrow> 'a fsstate_scheme" where
  "readsb s = (let w = (\<lambda>i. unat (blk_word (rd 1 s) i)) in
     s\<lparr>sb := \<lparr>sb_magic = w 0, sb_size = w 1, sb_nblocks = w 2, sb_ninodes = w 3, sb_nlog = w 4,
        sb_logstart = w 5, sb_inodestart = w 6, sb_bmapstart = w 7\<rparr>\<rparr>)"

definition fsinit :: "nat \<Rightarrow> int \<Rightarrow> 'a fsstate_scheme \<Rightarrow> 'a fsstate_scheme res" where
  "fsinit log_at dev s = (let s = readsb s in
     if sb_magic (sb s) \<noteq> FSMAGIC then Inl (Panic ''invalid file system'')
     else initlog log_at dev (int (sb_logstart (sb s))) (int (sb_nlog (sb s))) s)"

section \<open>Blocks\<close>

definition bblock :: "nat \<Rightarrow> superblock \<Rightarrow> nat" where
  "bblock b q = b div BPB + sb_bmapstart q"

text \<open>Bit \<open>bi % 8\<close> of byte \<open>bi / 8\<close> of a block is bit \<open>bi % 32\<close> of its word \<open>bi / 32\<close>.\<close>

definition block_used :: "nat \<Rightarrow> 'a fsstate_scheme \<Rightarrow> bool" where
  "block_used b s = (let bi = b mod BPB in bit (blk_word (rd (bblock b (sb s)) s) (bi div 32)) (bi mod 32))"

definition mark_block :: "bool \<Rightarrow> nat \<Rightarrow> 'a fsstate_scheme \<Rightarrow> 'a fsstate_scheme res" where
  "mark_block used b s = (let bi = b mod BPB in
     modify (bblock b (sb s)) (\<lambda>x. let w = blk_word x (bi div 32) in
       put_word (bi div 32) (if used then set_bit (bi mod 32) w else unset_bit (bi mod 32) w) x) s)"

definition bzero :: "nat \<Rightarrow> 'a fsstate_scheme \<Rightarrow> 'a fsstate_scheme res" where
  "bzero b s = modify b (\<lambda>_ _. 0) s"

definition balloc :: "'a fsstate_scheme \<Rightarrow> (nat \<times> 'a fsstate_scheme) res" where
  "balloc s = (case first_idx (\<lambda>b. \<not> block_used b s) (sb_size (sb s)) of
       None \<Rightarrow> Inl (Panic ''balloc: out of blocks'')
     | Some b \<Rightarrow> bindE (mark_block True b s) (\<lambda>s. bindE (bzero b s) (\<lambda>s. Inr (b, s))))"

definition bfree :: "nat \<Rightarrow> 'a fsstate_scheme \<Rightarrow> 'a fsstate_scheme res" where
  "bfree b s = (if \<not> block_used b s then Inl (Panic ''freeing free block'') else mark_block False b s)"

section \<open>Inodes on disk\<close>

definition iblock :: "nat \<Rightarrow> superblock \<Rightarrow> nat" where
  "iblock i q = i div IPB + sb_inodestart q"

definition get_dinode :: "nat \<Rightarrow> blk \<Rightarrow> dinode" where
  "get_dinode i x = (let w = (\<lambda>k. blk_word x (16 * (i mod IPB) + k)) in
     \<lparr>itype = ucast (w 0), major = ucast (drop_bit 16 (w 0)), minor = ucast (w 1),
      nlink = ucast (drop_bit 16 (w 1)), isize = w 2, addrs = (\<lambda>k. w (3 + k))\<rparr>)"

definition dinode_word :: "'a dinode_scheme \<Rightarrow> nat \<Rightarrow> u32" where
  "dinode_word d k = (if k = 0 then ucast (itype d) OR push_bit 16 (ucast (major d))
     else if k = 1 then ucast (minor d) OR push_bit 16 (ucast (nlink d))
     else if k = 2 then isize d else addrs d (k - 3))"

definition put_dinode :: "nat \<Rightarrow> 'a dinode_scheme \<Rightarrow> blk \<Rightarrow> blk" where
  "put_dinode i d x = (\<lambda>j. let b = 16 * (i mod IPB) in
     if b \<le> j \<and> j < b + 16 then uint (dinode_word d (j - b)) else x j)"

definition iupdate :: "nat \<Rightarrow> 'a fsstate_scheme \<Rightarrow> 'a fsstate_scheme res" where
  "iupdate ip s = modify (iblock (inum (ino s ip)) (sb s)) (put_dinode (inum (ino s ip)) (ino s ip)) s"

definition load_inode :: "nat \<Rightarrow> 'a fsstate_scheme \<Rightarrow> 'a fsstate_scheme" where
  "load_inode ip s = (let d = get_dinode (inum (ino s ip)) (rd (iblock (inum (ino s ip)) (sb s)) s) in
     upd_ino ip (\<lambda>x. x\<lparr>itype := itype d, major := major d, minor := minor d, nlink := nlink d,
       isize := isize d, addrs := addrs d, ivalid := True\<rparr>) s)"

text \<open>The number of the first inode on disk whose type is 0, given the type \<open>t\<close>.\<close>

definition ialloc_slot :: "u16 \<Rightarrow> 'a fsstate_scheme \<Rightarrow> (nat \<times> 'a fsstate_scheme) res" where
  "ialloc_slot t s =
     (case find (\<lambda>i. itype (get_dinode i (rd (iblock i (sb s)) s)) = 0) [1..<sb_ninodes (sb s)] of
       None \<Rightarrow> Inl (Panic ''ialloc: no inodes'')
     | Some i \<Rightarrow> bindE (modify (iblock i (sb s)) (put_dinode i
           \<lparr>itype = t, major = 0, minor = 0, nlink = 0, isize = 0, addrs = (\<lambda>_. 0)\<rparr>) s) (\<lambda>s. Inr (i, s)))"

section \<open>The blocks of a file\<close>

definition set_addr :: "nat \<Rightarrow> nat \<Rightarrow> nat \<Rightarrow> 'a fsstate_scheme \<Rightarrow> 'a fsstate_scheme" where
  "set_addr ip k a = upd_ino ip (\<lambda>x. x\<lparr>addrs := (addrs x)(k := of_nat a)\<rparr>)"

text \<open>An entry of \<open>addrs\<close>, allocated when it is 0.\<close>

definition addr_of :: "nat \<Rightarrow> nat \<Rightarrow> 'a fsstate_scheme \<Rightarrow> (nat \<times> 'a fsstate_scheme) res" where
  "addr_of ip k s = (let a = unat (addrs (ino s ip) k) in
     if a = 0 then bindE (balloc s) (\<lambda>(a, s). Inr (a, set_addr ip k a s)) else Inr (a, s))"

definition bmap :: "nat \<Rightarrow> nat \<Rightarrow> 'a fsstate_scheme \<Rightarrow> (nat \<times> 'a fsstate_scheme) res" where
  "bmap ip bn s =
     (if bn < NDIRECT then addr_of ip bn s
      else let bn = bn - NDIRECT in
        if bn < NINDIRECT then bindE (addr_of ip NDIRECT s) (\<lambda>(ind, s).
          let a = unat (blk_word (rd ind s) bn) in
          if a = 0 then bindE (balloc s) (\<lambda>(a, s).
            bindE (modify ind (put_word bn (of_nat a)) s) (\<lambda>s. Inr (a, s)))
          else Inr (a, s))
        else Inl (Panic ''bmap: out of range''))"

definition free_direct :: "nat \<Rightarrow> nat \<Rightarrow> 'a fsstate_scheme \<Rightarrow> 'a fsstate_scheme res" where
  "free_direct ip k s = (let a = unat (addrs (ino s ip) k) in
     if a \<noteq> 0 then bindE (bfree a s) (\<lambda>s. Inr (set_addr ip k 0 s)) else Inr s)"

definition free_indirect :: "nat \<Rightarrow> nat \<Rightarrow> 'a fsstate_scheme \<Rightarrow> 'a fsstate_scheme res" where
  "free_indirect ind j s = (let a = unat (blk_word (rd ind s) j) in if a \<noteq> 0 then bfree a s else Inr s)"

definition itrunc :: "nat \<Rightarrow> 'a fsstate_scheme \<Rightarrow> 'a fsstate_scheme res" where
  "itrunc ip s = bindE (foldE (free_direct ip) [0..<NDIRECT] s) (\<lambda>s.
     let ind = unat (addrs (ino s ip) NDIRECT) in
     bindE (if ind \<noteq> 0 then bindE (foldE (free_indirect ind) [0..<NINDIRECT] s) (free_direct ip NDIRECT)
            else Inr s) (\<lambda>s. iupdate ip (upd_ino ip (isize_update (\<lambda>_. 0)) s)))"

section \<open>Reading and writing\<close>

text \<open>
  \<open>either_copyout\<close> and \<open>either_copyin\<close> for the destination and the source of the caller: a sink
  takes bytes for an address, a source delivers the bytes it could copy; both say whether
  everything was copied.
\<close>

type_synonym 'm sink = "u64 \<Rightarrow> u8 list \<Rightarrow> 'm \<Rightarrow> bool \<times> 'm"
type_synonym 'm source = "u64 \<Rightarrow> nat \<Rightarrow> 'm \<Rightarrow> u8 list \<times> bool"

function readi_loop :: "'m sink \<Rightarrow> nat \<Rightarrow> u64 \<Rightarrow> nat \<Rightarrow> nat \<Rightarrow> nat \<Rightarrow> 'm \<Rightarrow> 'a fsstate_scheme \<Rightarrow> ('m \<times> 'a fsstate_scheme) res" where
  "readi_loop snk ip dst off tot n m s =
     (if tot < n then bindE (bmap ip (off div BSIZE) s) (\<lambda>(b, s).
        let k = min (n - tot) (BSIZE - off mod BSIZE);
            (ok, m) = snk dst (map (blk_byte (rd b s)) [off mod BSIZE..<off mod BSIZE + k]) m in
        if ok then readi_loop snk ip (dst + of_nat k) (off + k) (tot + k) n m s else Inr (m, s))
      else Inr (m, s))"
  by pat_completeness auto
termination by (relation "measure (\<lambda>(snk, ip, dst, off, tot, n, m, s). n - tot)") auto

declare readi_loop.simps [simp del]

text \<open>An unsigned count returned as an \<open>int\<close>.\<close>

definition c_int :: "nat \<Rightarrow> int" where
  "c_int n = sint (of_nat n :: u32)"

lemma c_int_small [simp]: "n < 2 ^ 31 \<Longrightarrow> c_int n = int n"
  by (simp add: c_int_def signed_of_nat signed_take_bit_int_eq_self)

definition readi :: "'m sink \<Rightarrow> nat \<Rightarrow> u64 \<Rightarrow> nat \<Rightarrow> nat \<Rightarrow> 'm \<Rightarrow> 'a fsstate_scheme \<Rightarrow> (int \<times> 'm \<times> 'a fsstate_scheme) res" where
  "readi snk ip dst off n m s = (let sz = unat (isize (ino s ip)) in
     if off > sz \<or> off + n \<ge> 2 ^ 32 then Inr (-1, m, s)
     else let n = (if off + n > sz then sz - off else n) in
       bindE (readi_loop snk ip dst off 0 n m s) (\<lambda>(m, s). Inr (c_int n, m, s)))"

function writei_loop :: "'m source \<Rightarrow> nat \<Rightarrow> u64 \<Rightarrow> nat \<Rightarrow> nat \<Rightarrow> nat \<Rightarrow> 'm \<Rightarrow> 'a fsstate_scheme \<Rightarrow> (nat \<times> 'a fsstate_scheme) res" where
  "writei_loop src ip addr off tot n m s =
     (if tot < n then bindE (bmap ip (off div BSIZE) s) (\<lambda>(b, s).
        let k = min (n - tot) (BSIZE - off mod BSIZE);
            (vs, ok) = src addr k m; put = put_bytes (off mod BSIZE) vs in
        if ok then bindE (modify b put s) (\<lambda>s. writei_loop src ip (addr + of_nat k) (off + k) (tot + k) n m s)
        else Inr (off, wr b put s))
      else Inr (off, s))"
  by pat_completeness auto
termination by (relation "measure (\<lambda>(src, ip, addr, off, tot, n, m, s). n - tot)") auto

declare writei_loop.simps [simp del]

definition writei :: "'m source \<Rightarrow> nat \<Rightarrow> u64 \<Rightarrow> nat \<Rightarrow> nat \<Rightarrow> 'm \<Rightarrow> 'a fsstate_scheme \<Rightarrow> (int \<times> 'a fsstate_scheme) res" where
  "writei src ip addr off n m s =
     (if off > unat (isize (ino s ip)) \<or> off + n \<ge> 2 ^ 32 then Inr (-1, s)
      else if off + n > (NDIRECT + NINDIRECT) * BSIZE then Inr (-1, s)
      else bindE (writei_loop src ip addr off 0 n m s) (\<lambda>(off, s).
        bindE (if n > 0 then iupdate ip (if off > unat (isize (ino s ip))
                 then upd_ino ip (isize_update (\<lambda>_. of_nat off)) s else s) else Inr s) (\<lambda>s.
        Inr (int n, s))))"

end
