(* ===== verification/FsContent.thy ===== *)
theory FsContent
  imports FsBlocks Allocator KString
begin

section \<open>A block is logged\<close>

lemma tr_float [simp]:
  "log_logheader_update f (taken lk s) = taken lk (log_logheader_update f s)"
  "log_outstanding_update g (taken lk s) = taken lk (log_outstanding_update g s)"
  "klog_update h (taken lk s) = taken lk (klog_update h s)"
  "dup_lhdr_update d (taken lk s) = taken lk (dup_lhdr_update d s)"
  "log_logheader_update f (saved s) = saved (log_logheader_update f s)"
  "log_outstanding_update g (saved s) = saved (log_outstanding_update g s)"
  "klog_update h (saved s) = saved (klog_update h s)"
  "dup_lhdr_update d (saved s) = saved (dup_lhdr_update d s)"
  by (simp_all add: taken_def saved_def)

lemma jr_float [simp]:
  "jr (taken lk s) = jr s" "jr (saved s) = jr s"
  "jr_update j (taken lk s) = taken lk (jr_update j s)" "jr_update j (saved s) = saved (jr_update j s)"
  "cpu_ok (jr_update j s) = cpu_ok s" "free_lock lk (jr_update j s) = free_lock lk s"
  by (simp_all add: taken_def saved_def cpu_ok_def free_lock_def)

lemma my_index_frame [simp]:
  "my_index (taken lk s) = my_index s" "my_index (set_hist i h s) = my_index s"
  "my_index (counted f e s) = my_index s" "my_index (klog_update c s) = my_index s"
  "my_index (dup_lhdr_update d s) = my_index s" "my_index (jr_update j t) = my_index t"
  by (simp_all add: my_index_def last_trans_def set_hist_def counted_def curproc_def cong: option.case_cong)

lemma tr_sections [simp]:
  "tarr (set_hist i h s) = tarr s" "klog (set_hist i h s) = klog s" "dup_lhdr (set_hist i h s) = dup_lhdr s"
  "tarr (counted f e s) = tarr s" "klog (counted f e s) = klog s" "dup_lhdr (counted f e s) = dup_lhdr s"
  "jr (set_hist i h t) = jr t" "jr (counted f e t) = jr t" "jr (set_trans k g t) = jr t"
  by (simp_all add: set_hist_def counted_def set_trans_def)

lemma set_lh_sel [simp]:
  "set_lh f (taken lk s) = taken lk (set_lh f s)" "set_lh f (saved s) = saved (set_lh f s)"
  "cpu_ok (set_lh f s) = cpu_ok s" "free_lock lk (set_lh f s) = free_lock lk s"
  "my_index (set_lh f s) = my_index s" "tarr (set_lh f s) = tarr s" "jr (set_lh f s) = jr s"
  "curproc (set_lh f s) = curproc s" "procs (set_lh f s) = procs s" "rcs_infos (set_lh f s) = rcs_infos s"
  by (simp_all add: set_lh_def curproc_def)

definition log_ready :: "nat \<Rightarrow> nat \<Rightarrow> nat \<Rightarrow> 'a logstate_scheme \<Rightarrow> bool" where
  "log_ready p i k s \<longleftrightarrow> rcs_ready p i s \<and> length (open_sections i s) < RCS_HIST \<and> free_lock LkLog s \<and>
     trans_ready k s \<and> 0 \<le> log_ntrans (tarr s k) \<and> 1 \<le> outstanding (klog s) \<and> header_ok (lh (klog s))"

definition logged_state :: "int \<Rightarrow> 'a logstate_scheme \<Rightarrow> 'a logstate_scheme" where
  "logged_state b s = (let h = lh (klog s); i = log_slot b h; new = (int i = lh_n h) in
     s\<lparr>klog := (klog s)\<lparr>lh := log_block i b new h\<rparr>, dup_lhdr := log_block i b new (dup_lhdr s),
       log_logheader := h, log_outstanding := -1,
       jr := (if new then (jr s)\<lparr>jpins := (jpins (jr s))(b := jpins (jr s) b + 1)\<rparr> else jr s)\<rparr>)"

lemma logged_state_frame [simp]:
  "cpu_ok (logged_state b s) = cpu_ok s" "free_lock lk (logged_state b s) = free_lock lk s"
  "curproc (logged_state b s) = curproc s" "procs (logged_state b s) = procs s"
  "rcs_find q (logged_state b s) = rcs_find q s" "rcs_infos (logged_state b s) = rcs_infos s"
  "rl_exc (logged_state b s) = rl_exc s" "my_index (logged_state b s) = my_index s"
  "tarr (logged_state b s) = tarr s"
  by (simp_all add: logged_state_def Let_def curproc_def rcs_find_def my_index_def last_trans_def
      cpu_ok_def free_lock_def cong: option.case_cong)

lemma log_write_ok:
  assumes "log_ready p i k s" and "lh_n (lh (klog s)) < int LOGSIZE" and "lh_n (lh (klog s)) < lsize (klog s) - 1"
  shows "log_write b s = Inr (saved (logged_state b s))"
proof -
  let ?h = "hist (rcs_infos s i)"
  have r: "cpu_ok s" "\<And>n. free_lock (LkRecLk n) s" "\<And>n. free_lock (LkRec n) s"
    "curproc s = Some p" "rcs_find (pid (procs s p)) s = Some i" "hist_ok ?h" "free_lock LkLog s"
    "free_lock LkTrans s" "my_index s = Some k" "0 \<le> log_ntrans (tarr s k)" "1 \<le> outstanding (klog s)"
    using assms(1) by (simp_all add: log_ready_def rcs_ready_def trans_ready_def)
  let ?e = "saved (set_hist i (hist_add RL_LOG ?h) (counted RL_LOG 0 s))"
  have enter: "enter_recovery_critical_section RL_LOG 0 s = Inr ?e"
    by (rule enter_ok) (use r in simp_all)
  have del: "hist_del RL_LOG (hist_add RL_LOG ?h) = ?h"
    using hist_del_add [OF r(6), of RL_LOG] assms(1) by (simp add: open_sections_def log_ready_def)
  let ?A = "set_hist i (hist_add RL_LOG ?h) (counted RL_LOG 0 s)"
  let ?T = "taken LkLog ?A"
  have mi: "my_index ?T = Some k"
    using r(9) by simp
  have acq: "acquire LkLog ?e = Inr ?T" using r by (simp add: lock_simps)
  have lk: "looked ?T = ?T" using r(1) by (simp add: looked_def)
  have mt: "my_trans ?T = Inr (Some k, ?T)" using my_trans_ok [OF _ _ mi] r lk by simp
  let ?U = "set_trans k (\<lambda>t. t\<lparr>log_ntrans := log_ntrans t + 1\<rparr>)
      (?T\<lparr>log_logheader := lh (klog s), log_outstanding := outstanding (klog s)\<rparr>)"
  have et: "enter_trans_log ?T = Inr ?U" using r(10) by (simp add: enter_trans_log_def mt)
  let ?h' = "lh (klog s)"
  let ?n = "int (log_slot b ?h') = lh_n ?h'"
  let ?g = "log_block (log_slot b ?h') b ?n"
  let ?W = "set_lh ?g (set_trans k (\<lambda>t. t\<lparr>log_ntrans := log_ntrans t + 1\<rparr>)
      (?A\<lparr>log_logheader := ?h', log_outstanding := outstanding (klog s)\<rparr>))
      \<lparr>jr := (if ?n then (jr s)\<lparr>jpins := (jpins (jr s))(b := jpins (jr s) b + 1)\<rparr> else jr s)\<rparr>"
  let ?X = "set_trans k (\<lambda>t. t\<lparr>log_ntrans := log_ntrans t - 1\<rparr>) (?W\<lparr>log_outstanding := -1\<rparr>)"
  have W: "cpu_ok ?W" "free_lock LkLog ?W" "free_lock LkTrans ?W" "my_index ?W = Some k" "log_ntrans (tarr ?W k) \<ge> 1"
    using r by simp_all
  have mw: "my_trans (taken LkLog ?W) = Inr (Some k, taken LkLog ?W)"
    using my_trans_ok [of "taken LkLog ?W" k] W by (simp add: looked_def)
  have xt: "exit_trans_log (taken LkLog ?W) = Inr (taken LkLog ?X)"
    using W(5) by (simp add: exit_trans_log_def mw del: set_lh_sel)
  let ?L = "logged_state b s"
  let ?Y = "set_hist i (hist_add RL_LOG ?h) (counted RL_LOG 0 ?L)"
  have X: "?X = ?Y"
    by (simp add: logged_state_def set_trans_def set_lh_def set_hist_def counted_def Let_def fun_upd_idem)
  have L: "rcs_infos ?L = rcs_infos s" "rl_exc ?L = rl_exc s" by simp_all
  have rel: "release LkLog (taken LkLog ?X) = Inr (saved ?Y)"
    unfolding X by (rule release_taken) (use r in simp_all)
  have ex: "exit_recovery_critical_section RL_LOG 0 (saved ?Y) =
      Inr (saved (set_hist i (hist_del RL_LOG (hist (rcs_infos (saved ?Y) i))) (uncounted RL_LOG 0 (saved ?Y))))"
    by (rule exit_ok) (use r in simp_all)
  have fin: "set_hist i (hist_del RL_LOG (hist (rcs_infos (saved ?Y) i))) (uncounted RL_LOG 0 (saved ?Y)) = saved ?L"
    by (simp add: del L set_hist_def uncounted_def counted_def fun_upd_idem saved_def)
  have "log_write b s = bindE (exit_trans_log (taken LkLog ?W)) (\<lambda>s.
      bindE (release LkLog s) (exit_recovery_critical_section RL_LOG 0))"
    using assms(2,3) r(11) by (simp add: log_write_def enter acq Let_def et)
  then show ?thesis unfolding xt rel ex fin by (simp only: bindE_Inr rel ex fin saved_saved)
qed

lemma log_ready_logged:
  assumes "log_ready p i k s" and "lh_n (lh (klog s)) < int LOGSIZE"
  shows "log_ready p i k (saved (logged_state b s))"
proof -
  have "header_ok (lh (klog (logged_state b s)))"
    using log_slot_absorbs [of "lh (klog s)" b] assms by (simp add: log_ready_def logged_state_def Let_def)
  moreover have "outstanding (klog (logged_state b s)) = outstanding (klog s)"
    by (simp add: logged_state_def Let_def)
  ultimately show ?thesis
    using assms(1) by (simp add: log_ready_def rcs_ready_def trans_ready_def open_sections_def)
qed

section \<open>Changing a block\<close>

lemma wr_frame [simp]:
  "sb (wr n f s) = sb s" "ino (wr n f s) = ino s" "klog (wr n f s) = klog s"
  "log_ready p i k (wr n f s) = log_ready p i k s"
  "rd m (wr n f s) = (if m = n then f (rd n s) else rd m s)"
  by (simp_all add: wr_def log_ready_def rcs_ready_def trans_ready_def open_sections_def rd_def buf_data_def
      buf_set_def my_index_def last_trans_def curproc_def rcs_find_def cong: option.case_cong)

lemma upd_ino_frame [simp]:
  "sb (upd_ino ip f s) = sb s" "ino (upd_ino ip f s) = (ino s)(ip := f (ino s ip))"
  "klog (upd_ino ip f s) = klog s" "log_ready p i k (upd_ino ip f s) = log_ready p i k s"
  "rd m (upd_ino ip f s) = rd m s"
  by (simp_all add: upd_ino_def log_ready_def rcs_ready_def trans_ready_def open_sections_def rd_def
      my_index_def last_trans_def curproc_def rcs_find_def cpu_ok_def free_lock_def cong: option.case_cong)

lemma logged_fs [simp]:
  "sb (logged_state b s) = sb s" "ino (logged_state b s) = ino s" "rd m (logged_state b s) = rd m s"
  "sb (saved s) = sb s" "ino (saved s) = ino s" "rd m (saved s) = rd m s"
  by (simp_all add: logged_state_def Let_def rd_def buf_data_def saved_def cong: option.case_cong)

text \<open>Room for \<open>m\<close> more blocks in the log.\<close>

definition log_room :: "nat \<Rightarrow> 'a logstate_scheme \<Rightarrow> bool" where
  "log_room m s \<longleftrightarrow> lh_n (lh (klog s)) + int m \<le> int LOGSIZE \<and> lh_n (lh (klog s)) + int m \<le> lsize (klog s) - 1"

lemma modify_ok:
  assumes "log_ready p i k s" and "log_room (Suc m) s"
  obtains t where "modify n f s = Inr t" and "log_ready p i k t" and "log_room m t"
    and "sb t = sb s" and "ino t = ino s" and "\<And>x. rd x t = (if x = n then f (rd n s) else rd x s)"
proof
  let ?s = "wr n f s" and ?t = "saved (logged_state (int n) (wr n f s))"
  have r: "log_ready p i k ?s" "lh_n (lh (klog ?s)) < int LOGSIZE" "lh_n (lh (klog ?s)) < lsize (klog ?s) - 1"
    using assms by (simp_all add: log_room_def)
  show "modify n f s = Inr ?t" by (simp add: modify_def log_write_ok [OF r])
  show "log_ready p i k ?t" using log_ready_logged [OF r(1,2)] .
  show "log_room m ?t" using assms(2) by (simp add: log_room_def logged_state_def Let_def log_block_def)
qed simp_all

section \<open>Bytes and words\<close>

lemma blk_word_put [simp]: "blk_word (put_word i w x) j = (if j = i then w else blk_word x j)"
  by (simp add: blk_word_def put_word_def)

lemma bit_blk_byte: "bit (blk_byte x j) n \<longleftrightarrow> n < 8 \<and> bit (blk_word x (j div 4)) (8 * (j mod 4) + n)"
  by (auto simp: blk_byte_def bit_simps)

lemma blk_byte_put [simp]: "blk_byte (put_blk_byte j v x) j' = (if j' = j then v else blk_byte x j')"
proof (rule bit_word_eqI)
  fix n assume n: "n < LENGTH(8)"
  have b: "bit ((w AND NOT (push_bit k 0xFF)) OR push_bit k (ucast v)) m \<longleftrightarrow>
      (if k \<le> m \<and> m < k + 8 then bit v (m - k) else bit w m)" if "m < 32" "k + 8 \<le> 32" for w :: u32 and k m
  proof -
    have "(0xFF :: u32) = mask 8" by (simp add: mask_eq_exp_minus_1)
    then have ff: "bit (0xFF :: u32) j \<longleftrightarrow> j < 8" for j by (simp only: bit_mask_iff) auto
    have v: "bit v j \<Longrightarrow> j < 8" for j using bit_imp_le_length [of v j] by simp
    show ?thesis using that by (auto simp add: bit_simps ff [simplified] dest: v)
  qed
  show "bit (blk_byte (put_blk_byte j v x) j') n = bit (if j' = j then v else blk_byte x j') n"
  proof (cases "j' div 4 = j div 4")
    case True
    have "j mod 4 < 4" "j' mod 4 < 4" by simp_all
    moreover have "j' = j \<longleftrightarrow> j' mod 4 = j mod 4" using True by (metis div_mult_mod_eq)
    ultimately show ?thesis
      using n True by (auto simp: bit_blk_byte put_blk_byte_def Let_def b)
  next
    case False
    then show ?thesis by (auto simp: bit_blk_byte put_blk_byte_def Let_def)
  qed
qed

lemma blk_byte_put_bytes:
  "blk_byte (put_bytes j vs x) j' = (if j \<le> j' \<and> j' < j + length vs then vs ! (j' - j) else blk_byte x j')"
proof -
  have "blk_byte (fold (\<lambda>i. put_blk_byte (j + i) (vs ! i)) [0..<n] x) j' =
    (if j \<le> j' \<and> j' < j + n then vs ! (j' - j) else blk_byte x j')" for n
    by (induction n) (auto simp: less_Suc_eq)
  then show ?thesis by (simp add: put_bytes_def)
qed

section \<open>Allocation of blocks\<close>

text \<open>The blocks of the layout that are not data: the boot block, the bitmap, the inodes.\<close>

definition meta :: "superblock \<Rightarrow> nat set" where
  "meta q = insert 0 ((\<lambda>b. bblock b q) ` {..<sb_size q} \<union> (\<lambda>i. iblock i q) ` {..<sb_ninodes q})"

definition layout_ok :: "superblock \<Rightarrow> bool" where
  "layout_ok q \<longleftrightarrow> meta q \<subseteq> {..<sb_size q} \<and> sb_size q < 2 ^ 32 \<and>
     (\<forall>b < sb_size q. \<forall>i < sb_ninodes q. bblock b q \<noteq> iblock i q)"

definition bitmap_ok :: "'a fsstate_scheme \<Rightarrow> bool" where
  "bitmap_ok s \<longleftrightarrow> layout_ok (sb s) \<and> (\<forall>x \<in> meta (sb s). block_used x s)"

definition free_blocks :: "'a fsstate_scheme \<Rightarrow> nat set" where
  "free_blocks s = {x. x < sb_size (sb s) \<and> \<not> block_used x s}"

lemma finite_free [simp]: "finite (free_blocks s)"
  by (simp add: free_blocks_def)

lemma bitmap_meta: "b < sb_size q \<Longrightarrow> bblock b q \<in> meta q"
  by (simp add: meta_def)

text \<open>What a change of other blocks does to the bitmap: nothing.\<close>

lemma block_used_cong:
  "sb t = sb s \<Longrightarrow> rd (bblock x (sb s)) t = rd (bblock x (sb s)) s \<Longrightarrow> block_used x t = block_used x s"
  by (simp add: block_used_def)

lemma same_bitmap:
  assumes "bitmap_ok s" and "sb t = sb s" and "\<And>x. x \<in> meta (sb s) \<Longrightarrow> rd x t = rd x s"
  shows "bitmap_ok t \<and> free_blocks t = free_blocks s \<and> (\<forall>x < sb_size (sb s). block_used x t = block_used x s)"
proof -
  have u: "block_used x t = block_used x s" if "x < sb_size (sb s)" for x
    using block_used_cong [OF assms(2)] assms(3) bitmap_meta that by blast
  moreover have "meta (sb s) \<subseteq> {..<sb_size (sb s)}" using assms(1) by (simp add: bitmap_ok_def layout_ok_def)
  ultimately show ?thesis using assms(1,2) by (auto simp: bitmap_ok_def free_blocks_def)
qed

lemma bit_place: "x div BPB = b div BPB \<Longrightarrow> x mod BPB div 32 = b mod BPB div 32 \<Longrightarrow>
   x mod BPB mod 32 = b mod BPB mod 32 \<Longrightarrow> x = b"
  by (metis div_mult_mod_eq)

lemma mark_block_ok:
  assumes "log_ready p i k s" and "log_room (Suc m) s"
  obtains t where "mark_block u b s = Inr t" and "log_ready p i k t" and "log_room m t"
    and "sb t = sb s" and "ino t = ino s"
    and "\<And>x. x \<noteq> bblock b (sb s) \<Longrightarrow> rd x t = rd x s"
    and "\<And>x. block_used x t \<longleftrightarrow> (if x = b then u else block_used x s)"
proof -
  let ?f = "\<lambda>x. let w = blk_word x (b mod BPB div 32) in put_word (b mod BPB div 32)
      (if u then set_bit (b mod BPB mod 32) w else unset_bit (b mod BPB mod 32) w) x"
  from modify_ok [OF assms, of "bblock b (sb s)" ?f] obtain t where
    t: "modify (bblock b (sb s)) ?f s = Inr t" "log_ready p i k t" "log_room m t" "sb t = sb s" "ino t = ino s"
      "\<And>x. rd x t = (if x = bblock b (sb s) then ?f (rd (bblock b (sb s)) s) else rd x s)" by blast
  have "block_used x t \<longleftrightarrow> (if x = b then u else block_used x s)" for x
  proof (cases "x div BPB = b div BPB \<and> x mod BPB div 32 = b mod BPB div 32")
    case True
    have "x mod BPB mod 32 < 32" by simp
    moreover have "x mod BPB mod 32 = b mod BPB mod 32 \<longleftrightarrow> x = b" using True bit_place by blast
    ultimately show ?thesis
      using True by (auto simp: block_used_def t(4,6) bblock_def Let_def bit_simps)
  next
    case False
    then show ?thesis by (auto simp: block_used_def t(4,6) bblock_def Let_def)
  qed
  with t show ?thesis by (intro that [of t]) (simp_all add: mark_block_def Let_def)
qed

lemma balloc_ok:
  assumes "log_ready p i k s" and "log_room (Suc (Suc m)) s" and "bitmap_ok s" and "Suc m \<le> card (free_blocks s)"
  obtains b t where "balloc s = Inr (b, t)" and "log_ready p i k t" and "log_room m t" and "bitmap_ok t"
    and "m \<le> card (free_blocks t)" and "sb t = sb s" and "ino t = ino s"
    and "b \<in> free_blocks s" and "block_used b t" and "b \<notin> meta (sb s)" and "rd b t = (\<lambda>_. 0)"
    and "\<And>x. x \<notin> meta (sb s) \<Longrightarrow> x \<noteq> b \<Longrightarrow> rd x t = rd x s"
    and "\<And>x. block_used x s \<Longrightarrow> x < sb_size (sb s) \<Longrightarrow> block_used x t"
proof -
  have "free_blocks s \<noteq> {}" using assms(4) by auto
  then have "\<not> (\<forall>x < sb_size (sb s). block_used x s)" by (auto simp: free_blocks_def)
  then obtain b where b: "first_idx (\<lambda>b. \<not> block_used b s) (sb_size (sb s)) = Some b"
    using first_idx_None [of "\<lambda>b. \<not> block_used b s" "sb_size (sb s)"] by (metis option.exhaust)
  then have bf: "b < sb_size (sb s)" "\<not> block_used b s" by (simp_all add: first_idx_Some)
  have bm: "b \<notin> meta (sb s)" using assms(3) bf(2) by (auto simp: bitmap_ok_def)
  obtain u where u: "mark_block True b s = Inr u" "log_ready p i k u" "log_room (Suc m) u" "sb u = sb s" "ino u = ino s"
    "\<And>x. x \<noteq> bblock b (sb s) \<Longrightarrow> rd x u = rd x s" "\<And>x. block_used x u \<longleftrightarrow> (if x = b then True else block_used x s)"
    using mark_block_ok [OF assms(1,2), of True b] by blast
  obtain t where t: "bzero b u = Inr t" "log_ready p i k t" "log_room m t" "sb t = sb u" "ino t = ino u"
    "\<And>x. rd x t = (if x = b then (\<lambda>_. 0) else rd x u)"
    using modify_ok [OF u(2,3), of b "\<lambda>_ _. 0"] by (auto simp: bzero_def)
  have uo: "bitmap_ok u" using assms(3) u(4,7) by (simp add: bitmap_ok_def)
  have fr: "free_blocks u = free_blocks s - {b}" using u(4,7) by (auto simp: free_blocks_def)
  have "rd x t = rd x u" if "x \<in> meta (sb u)" for x using that bm u(4) t(6) by auto
  then have tb: "bitmap_ok t" "free_blocks t = free_blocks u" "\<forall>x < sb_size (sb u). block_used x t = block_used x u"
    using same_bitmap [OF uo t(4)] by auto
  have "b \<in> free_blocks s" using bf by (simp add: free_blocks_def)
  then have "m \<le> card (free_blocks t)" using assms(4) tb(2) fr by simp
  moreover have "block_used b t" using tb(3) u(4,7) bf(1) by simp
  moreover have "rd x t = rd x s" if "x \<notin> meta (sb s)" "x \<noteq> b" for x
  proof -
    have "x \<noteq> bblock b (sb s)" using that(1) bitmap_meta [OF bf(1)] by blast
    then show ?thesis using that(2) t(6) u(6) by simp
  qed
  moreover have "block_used x t" if "block_used x s" "x < sb_size (sb s)" for x
    using tb(3) u(4,7) that by simp
  ultimately show ?thesis
    using t u(4,5) tb(1) bf bm b u(1) by (intro that [of b t]) (simp_all add: balloc_def free_blocks_def)
qed

section \<open>The contents of a file\<close>

abbreviation MAXFILE :: nat where "MAXFILE \<equiv> 268"

text \<open>The block with a number in the file, 0 when there is none; the last slot is the indirect block.\<close>

definition ind_block :: "nat \<Rightarrow> 'a fsstate_scheme \<Rightarrow> nat" where
  "ind_block ip s = unat (addrs (ino s ip) NDIRECT)"

definition fblock :: "nat \<Rightarrow> nat \<Rightarrow> 'a fsstate_scheme \<Rightarrow> nat" where
  "fblock ip n s = (if n < NDIRECT then unat (addrs (ino s ip) n)
     else if n = MAXFILE then ind_block ip s
     else if ind_block ip s = 0 then 0
     else unat (blk_word (rd (ind_block ip s) s) (n - NDIRECT)))"

definition data_block :: "nat \<Rightarrow> 'a fsstate_scheme \<Rightarrow> bool" where
  "data_block b s \<longleftrightarrow> b < sb_size (sb s) \<and> block_used b s \<and> b \<notin> meta (sb s)"

definition file_ok :: "nat \<Rightarrow> 'a fsstate_scheme \<Rightarrow> bool" where
  "file_ok ip s \<longleftrightarrow> bitmap_ok s \<and> inum (ino s ip) < sb_ninodes (sb s) \<and>
     (\<forall>n \<le> MAXFILE. fblock ip n s \<noteq> 0 \<longrightarrow> data_block (fblock ip n s) s \<and>
        (\<forall>n' \<le> MAXFILE. fblock ip n' s = fblock ip n s \<longrightarrow> n' = n))"

definition fbyte :: "nat \<Rightarrow> nat \<Rightarrow> 'a fsstate_scheme \<Rightarrow> u8" where
  "fbyte ip j s = (let b = fblock ip (j div BSIZE) s in if b = 0 then 0 else blk_byte (rd b s) (j mod BSIZE))"

lemma fblock_ind [simp]: "fblock ip MAXFILE s = ind_block ip s"
  by (simp add: fblock_def)

lemma blk_zero [simp]: "blk_byte (\<lambda>_. 0) j = 0" "blk_word (\<lambda>_. 0) i = 0"
  by (simp_all add: blk_byte_def blk_word_def)

text \<open>A fresh block put into an empty slot.\<close>

lemma grow_file:
  assumes "file_ok ip s" and "fblock ip n0 s = 0" and "n0 \<le> MAXFILE"
    and "b \<in> free_blocks s" and "block_used b t" and "b \<notin> meta (sb s)" and "rd b t = (\<lambda>_. 0)"
    and "\<And>x. x \<notin> meta (sb s) \<Longrightarrow> x \<noteq> b \<Longrightarrow> x \<noteq> ind_block ip s \<Longrightarrow> rd x t = rd x s"
    and "\<And>x. block_used x s \<Longrightarrow> x < sb_size (sb s) \<Longrightarrow> block_used x t"
    and "bitmap_ok t" and "sb t = sb s" and "inum (ino t ip) = inum (ino s ip)"
    and "\<And>n. n \<le> MAXFILE \<Longrightarrow> fblock ip n t = (if n = n0 then b else fblock ip n s)"
  shows "file_ok ip t \<and> (\<forall>j < MAXFILE * BSIZE. fbyte ip j t = fbyte ip j s)"
proof -
  have b0: "b \<noteq> 0" using assms(6) by (auto simp: meta_def)
  have bs: "b < sb_size (sb s)" "\<not> block_used b s" using assms(4) by (simp_all add: free_blocks_def)
  have old: "data_block (fblock ip n s) t \<and> fblock ip n s \<noteq> b" if "n \<le> MAXFILE" "fblock ip n s \<noteq> 0" for n
    using assms(1,9,11) bs(2) that by (auto simp: file_ok_def data_block_def)
  have "data_block b t" using bs(1) assms(5,6,11) by (simp add: data_block_def)
  then have "file_ok ip t"
    using assms(1,2,3,10,11,12,13) old b0 unfolding file_ok_def by (metis (no_types, lifting))
  moreover have "fbyte ip j t = fbyte ip j s" if "j < MAXFILE * BSIZE" for j
  proof -
    have n: "j div BSIZE < MAXFILE" using that by (simp add: less_mult_imp_div_less)
    show ?thesis
    proof (cases "j div BSIZE = n0 \<or> fblock ip (j div BSIZE) s = 0")
      case True
      then show ?thesis using n assms(2,7,13) by (auto simp: fbyte_def Let_def)
    next
      case False
      then have "fblock ip (j div BSIZE) s \<noteq> ind_block ip s"
        using assms(1) n unfolding file_ok_def by (metis fblock_ind le_refl less_imp_le nat_neq_iff)
      then have "rd (fblock ip (j div BSIZE) s) t = rd (fblock ip (j div BSIZE) s) s"
        using assms(1,8) old False n by (auto simp: file_ok_def data_block_def)
      then show ?thesis using False n assms(13) by (simp add: fbyte_def Let_def)
    qed
  qed
  ultimately show ?thesis by blast
qed

text \<open>What a call may rely on: room for \<open>m\<close> more blocks in the log and on the disk.\<close>

definition fs_ready :: "nat \<Rightarrow> nat \<Rightarrow> nat \<Rightarrow> nat \<Rightarrow> 'a fsstate_scheme \<Rightarrow> bool" where
  "fs_ready p i k m s \<longleftrightarrow> log_ready p i k s \<and> log_room m s \<and> m \<le> card (free_blocks s)"

lemma fs_ready_mono: "fs_ready p i k m s \<Longrightarrow> n \<le> m \<Longrightarrow> fs_ready p i k n s"
  by (simp add: fs_ready_def log_room_def)

definition grown :: "nat \<Rightarrow> 'a fsstate_scheme \<Rightarrow> 'a fsstate_scheme \<Rightarrow> bool" where
  "grown ip s t \<longleftrightarrow> file_ok ip t \<and> sb t = sb s \<and>
     (\<forall>x. x \<noteq> ip \<longrightarrow> ino t x = ino s x) \<and>
     (\<forall>A. (ino t ip)\<lparr>addrs := A\<rparr> = (ino s ip)\<lparr>addrs := A\<rparr>) \<and>
     (\<forall>n \<le> MAXFILE. fblock ip n s \<noteq> 0 \<longrightarrow> fblock ip n t = fblock ip n s) \<and>
     (\<forall>j < MAXFILE * BSIZE. fbyte ip j t = fbyte ip j s)"

lemma grown_refl: "file_ok ip s \<Longrightarrow> grown ip s s"
  by (simp add: grown_def)

lemma grown_trans: "grown ip s t \<Longrightarrow> grown ip t u \<Longrightarrow> grown ip s u"
  by (auto simp: grown_def)

lemma grown_fields:
  assumes "grown ip s t"
  shows "isize (ino t ip) = isize (ino s ip)" and "inum (ino t ip) = inum (ino s ip)" and "itype (ino t ip) = itype (ino s ip)"
proof -
  have "(ino t ip)\<lparr>addrs := A\<rparr> = (ino s ip)\<lparr>addrs := A\<rparr>" for A using assms by (simp add: grown_def)
  from arg_cong [OF this, of isize] arg_cong [OF this, of inum] arg_cong [OF this, of itype]
  show "isize (ino t ip) = isize (ino s ip)" "inum (ino t ip) = inum (ino s ip)" "itype (ino t ip) = itype (ino s ip)"
    by simp_all
qed

lemma data_u32: "data_block b s \<Longrightarrow> bitmap_ok s \<Longrightarrow> unat (of_nat b :: u32) = b"
  by (auto simp: data_block_def bitmap_ok_def layout_ok_def unat_of_nat)

lemma addr_of_ok:
  assumes "fs_ready p i k (Suc (Suc m)) s" and "file_ok ip s" and "q \<le> NDIRECT"
  obtains a t where "addr_of ip q s = Inr (a, t)" and "fs_ready p i k m t" and "grown ip s t" and "a \<noteq> 0"
    and "fblock ip (if q = NDIRECT then MAXFILE else q) t = a"
proof (cases "unat (addrs (ino s ip) q) = 0")
  case False
  then show ?thesis
    using assms by (intro that [of "unat (addrs (ino s ip) q)" s])
      (auto simp: addr_of_def Let_def grown_refl fblock_def ind_block_def intro: fs_ready_mono)
next
  case True
  let ?n = "if q = NDIRECT then MAXFILE else q"
  have bo: "bitmap_ok s" using assms(2) by (simp add: file_ok_def)
  have r: "log_ready p i k s" "log_room (Suc (Suc m)) s" "Suc m \<le> card (free_blocks s)"
    using assms(1) by (simp_all add: fs_ready_def)
  obtain b u where u: "balloc s = Inr (b, u)" "log_ready p i k u" "log_room m u" "bitmap_ok u" "m \<le> card (free_blocks u)"
    "sb u = sb s" "ino u = ino s" "b \<in> free_blocks s" "block_used b u" "b \<notin> meta (sb s)" "rd b u = (\<lambda>_. 0)"
    "\<And>x. x \<notin> meta (sb s) \<Longrightarrow> x \<noteq> b \<Longrightarrow> rd x u = rd x s"
    "\<And>x. block_used x s \<Longrightarrow> x < sb_size (sb s) \<Longrightarrow> block_used x u"
    using balloc_ok [OF r(1,2) bo r(3)] by blast
  define t where "t = set_addr ip q b u"
  have e: "addr_of ip q s = Inr (b, t)" using True u(1) by (simp add: addr_of_def t_def)
  have d: "data_block b u" using u(6,8,9,10) by (simp add: data_block_def free_blocks_def)
  note b32 = data_u32 [OF d u(4)]
  have b0: "b \<noteq> 0" using u(10) by (auto simp: meta_def)
  have n0: "fblock ip ?n s = 0" using True assms(3) by (auto simp: fblock_def ind_block_def)
  have sel: "sb t = sb s" "rd x t = rd x u" "block_used x t = block_used x u" "free_blocks t = free_blocks u"
    "bitmap_ok t = bitmap_ok u" "log_ready p i k t = log_ready p i k u" "log_room m t = log_room m u"
    "ino t = (ino s)(ip := (ino s ip)\<lparr>addrs := (addrs (ino s ip))(q := of_nat b)\<rparr>)" for x
    using u(6,7) by (simp_all add: t_def set_addr_def block_used_def free_blocks_def bitmap_ok_def log_room_def)
  have fb: "fblock ip n t = (if n = ?n then b else fblock ip n s)" if "n \<le> MAXFILE" for n
  proof (cases "q = NDIRECT")
    case True
    have "ind_block ip s = 0" using n0 True by simp
    moreover have "ind_block ip t = b" unfolding ind_block_def sel using True b32 by simp
    ultimately show ?thesis using True that by (auto simp: fblock_def sel u(11))
  next
    case False
    have "ind_block ip t = ind_block ip s" using False by (simp add: ind_block_def sel)
    moreover have "rd (ind_block ip s) t = rd (ind_block ip s) s" if "ind_block ip s \<noteq> 0"
    proof -
      have "data_block (ind_block ip s) s" using assms(2) that unfolding file_ok_def by (metis fblock_ind le_refl)
      then show ?thesis using u(8,12) sel(2) by (auto simp: data_block_def free_blocks_def)
    qed
    ultimately show ?thesis using False assms(3) b32 by (auto simp: fblock_def sel)
  qed
  have "file_ok ip t \<and> (\<forall>j < MAXFILE * BSIZE. fbyte ip j t = fbyte ip j s)"
    by (rule grow_file [of ip s ?n b]) (use assms(2,3) n0 u sel fb in auto)
  moreover have "fblock ip ?n t = b" using fb assms(3) by simp
  moreover have "fblock ip n t = fblock ip n s" if "n \<le> MAXFILE" "fblock ip n s \<noteq> 0" for n
    using fb [OF that(1)] n0 that(2) by auto
  ultimately show ?thesis
    using e u(2,3,5) b0 sel by (intro that [of b t]) (simp_all add: fs_ready_def grown_def)
qed

lemma slot_data: "file_ok ip s \<Longrightarrow> n \<le> MAXFILE \<Longrightarrow> fblock ip n s \<noteq> 0 \<Longrightarrow> data_block (fblock ip n s) s"
  by (simp add: file_ok_def)

lemma slot_inj: "file_ok ip s \<Longrightarrow> n \<le> MAXFILE \<Longrightarrow> n' \<le> MAXFILE \<Longrightarrow> fblock ip n s \<noteq> 0 \<Longrightarrow>
   fblock ip n' s = fblock ip n s \<Longrightarrow> n' = n"
  unfolding file_ok_def by blast

lemma bmap_ok:
  assumes "fs_ready p i k (m + 5) s" and "file_ok ip s" and "n < MAXFILE"
  obtains a t where "bmap ip n s = Inr (a, t)" and "fs_ready p i k m t" and "grown ip s t"
    and "a \<noteq> 0" and "fblock ip n t = a"
proof (cases "n < NDIRECT")
  case True
  then have "fs_ready p i k (Suc (Suc m)) s" using fs_ready_mono [OF assms(1)] by simp
  then show ?thesis
    using addr_of_ok [OF _ assms(2), of p i k m n] True that by (auto simp: bmap_def)
next
  case False
  have five: "m + 5 = Suc (Suc (m + 3))" by simp
  have r: "fs_ready p i k (Suc (Suc (m + 3))) s" using assms(1) unfolding five .
  obtain e u where u: "addr_of ip NDIRECT s = Inr (e, u)" "fs_ready p i k (m + 3) u" "grown ip s u" "e \<noteq> 0"
    "ind_block ip u = e"
    using addr_of_ok [OF r assms(2), of NDIRECT] by auto
  have fo: "file_ok ip u" using u(3) by (simp add: grown_def)
  have lt: "n - NDIRECT < NINDIRECT" using False assms(3) by simp
  let ?a = "unat (blk_word (rd e u) (n - NDIRECT))"
  have fa: "fblock ip n u = ?a" using False assms(3) u(4,5) by (simp add: fblock_def)
  show ?thesis
  proof (cases "?a = 0")
    case f: False
    then show ?thesis
      using False lt u fa fs_ready_mono [OF u(2), of m] by (intro that [of ?a u]) (simp_all add: bmap_def Let_def)
  next
    case True
    have ed: "data_block e u" using slot_data [OF fo, of MAXFILE] u(4,5) by simp
    have bo: "bitmap_ok u" using fo by (simp add: file_ok_def)
    have r: "log_ready p i k u" "log_room (Suc (Suc (Suc m))) u" "Suc (Suc m) \<le> card (free_blocks u)"
      using u(2) by (simp_all add: fs_ready_def log_room_def)
    obtain b v where v: "balloc u = Inr (b, v)" "log_ready p i k v" "log_room (Suc m) v" "bitmap_ok v" "Suc m \<le> card (free_blocks v)"
      "sb v = sb u" "ino v = ino u" "b \<in> free_blocks u" "block_used b v" "b \<notin> meta (sb u)" "rd b v = (\<lambda>_. 0)"
      "\<And>x. x \<notin> meta (sb u) \<Longrightarrow> x \<noteq> b \<Longrightarrow> rd x v = rd x u"
      "\<And>x. block_used x u \<Longrightarrow> x < sb_size (sb u) \<Longrightarrow> block_used x v"
      using balloc_ok [OF r(1,2) bo r(3)] by blast
    obtain t where t: "modify e (put_word (n - NDIRECT) (of_nat b)) v = Inr t" "log_ready p i k t" "log_room m t"
      "sb t = sb v" "ino t = ino v"
      "\<And>x. rd x t = (if x = e then put_word (n - NDIRECT) (of_nat b) (rd e v) else rd x v)"
      using modify_ok [OF v(2,3), of e "put_word (n - NDIRECT) (of_nat b)"] by blast
    have em: "e \<notin> meta (sb u)" "block_used e u" using ed by (simp_all add: data_block_def)
    have eb: "e \<noteq> b" using em(2) v(8) by (auto simp: free_blocks_def)
    have "rd x t = rd x v" if "x \<in> meta (sb v)" for x using that em(1) v(6) t(6) by auto
    then have tb: "bitmap_ok t" "free_blocks t = free_blocks v" "\<forall>x < sb_size (sb v). block_used x t = block_used x v"
      using same_bitmap [OF v(4) t(4)] by auto
    have bd: "data_block b v" using v(6,8,9,10) by (simp add: data_block_def free_blocks_def)
    note b32 = data_u32 [OF bd v(4)]
    have b0: "b \<noteq> 0" using v(10) by (auto simp: meta_def)
    have ie: "ind_block ip t = e" using u(5) t(5) v(7) by (simp add: ind_block_def)
    have fb: "fblock ip j t = (if j = n then b else fblock ip j u)" if "j \<le> MAXFILE" for j
      using that False assms(3) u(4,5) ie b32 t(5,6) v(7) v(12) [OF em(1) eb]
      by (auto simp: fblock_def)
    have "file_ok ip t \<and> (\<forall>j < MAXFILE * BSIZE. fbyte ip j t = fbyte ip j u)"
    proof (rule grow_file [of ip u n b])
      show "rd b t = (\<lambda>_. 0)" using eb t(6) v(11) by simp
      show "rd x t = rd x u" if "x \<notin> meta (sb u)" "x \<noteq> b" "x \<noteq> ind_block ip u" for x
        using that u(5) t(6) v(12) by simp
      show "block_used b t" using tb(3) v(6,8,9) by (simp add: free_blocks_def)
      show "block_used x t" if "block_used x u" "x < sb_size (sb u)" for x
        using that tb(3) v(6,13) by simp
    qed (use fo True fa assms(3) v t tb fb in auto)
    then have "grown ip u t" using t(4,5) v(6,7) fb fa True by (auto simp: grown_def)
    then have "grown ip s t" using grown_trans [OF u(3)] by blast
    moreover have "fs_ready p i k m t" using t(2,3) tb(2) v(5) by (simp add: fs_ready_def)
    moreover have "bmap ip n s = Inr (b, t)"
      using False lt u(1) True v(1) t(1) by (simp add: bmap_def Let_def)
    moreover have "fblock ip n t = b" using fb assms(3) by simp
    ultimately show ?thesis using b0 that by blast
  qed
qed

section \<open>Writing and reading\<close>

definition kept :: "nat \<Rightarrow> 'a fsstate_scheme \<Rightarrow> 'a fsstate_scheme \<Rightarrow> bool" where
  "kept ip s t \<longleftrightarrow> file_ok ip t \<and> sb t = sb s \<and> (\<forall>x. x \<noteq> ip \<longrightarrow> ino t x = ino s x) \<and>
     (\<forall>A. (ino t ip)\<lparr>addrs := A\<rparr> = (ino s ip)\<lparr>addrs := A\<rparr>) \<and>
     (\<forall>n \<le> MAXFILE. fblock ip n s \<noteq> 0 \<longrightarrow> fblock ip n t = fblock ip n s)"

lemma kept_trans: "kept ip s t \<Longrightarrow> kept ip t u \<Longrightarrow> kept ip s u"
  by (auto simp: kept_def)

lemma grown_kept: "grown ip s t \<Longrightarrow> kept ip s t"
  by (simp add: kept_def grown_def)

lemma write_data_ok:
  assumes "fs_ready p i k (Suc m) s" and "file_ok ip s" and "n < MAXFILE" and "fblock ip n s = a" and "a \<noteq> 0"
    and "q + length vs \<le> BSIZE"
  obtains t where "modify a (put_bytes q vs) s = Inr t" and "fs_ready p i k m t" and "kept ip s t"
    and "\<And>j. j < MAXFILE * BSIZE \<Longrightarrow> fbyte ip j t =
      (if j div BSIZE = n \<and> q \<le> j mod BSIZE \<and> j mod BSIZE < q + length vs then vs ! (j mod BSIZE - q) else fbyte ip j s)"
proof -
  have r: "log_ready p i k s" "log_room (Suc m) s" using assms(1) by (simp_all add: fs_ready_def)
  obtain t where t: "modify a (put_bytes q vs) s = Inr t" "log_ready p i k t" "log_room m t" "sb t = sb s"
    "ino t = ino s" "\<And>x. rd x t = (if x = a then put_bytes q vs (rd a s) else rd x s)"
    using modify_ok [OF r, of a "put_bytes q vs"] by blast
  have ad: "data_block a s" using slot_data [OF assms(2), of n] assms(3-5) by simp
  have bo: "bitmap_ok s" using assms(2) by (simp add: file_ok_def)
  have "rd x t = rd x s" if "x \<in> meta (sb s)" for x using that ad t(6) by (auto simp: data_block_def)
  then have tb: "bitmap_ok t" "free_blocks t = free_blocks s" "\<forall>x < sb_size (sb s). block_used x t = block_used x s"
    using same_bitmap [OF bo t(4)] by auto
  have "ind_block ip s \<noteq> a" using slot_inj [OF assms(2), of n MAXFILE] assms(3-5) by auto
  then have fb: "fblock ip x t = fblock ip x s" for x
    by (auto simp: fblock_def ind_block_def t(5,6))
  have dt: "data_block b t = data_block b s" for b using tb(3) t(4) by (auto simp: data_block_def)
  have fo: "file_ok ip t" using assms(2) tb(1) t(4,5) by (simp add: file_ok_def fb dt)
  have "fbyte ip j t = (if j div BSIZE = n \<and> q \<le> j mod BSIZE \<and> j mod BSIZE < q + length vs
      then vs ! (j mod BSIZE - q) else fbyte ip j s)" if "j < MAXFILE * BSIZE" for j
  proof (cases "j div BSIZE = n")
    case True
    then show ?thesis using assms(4,5) by (auto simp: fbyte_def fb t(6) blk_byte_put_bytes Let_def)
  next
    case False
    have "j div BSIZE < MAXFILE" using that by (simp add: less_mult_imp_div_less)
    then have "fblock ip (j div BSIZE) s \<noteq> a" using False slot_inj [OF assms(2), of n "j div BSIZE"] assms(3-5) by auto
    then show ?thesis using False by (auto simp: fbyte_def fb t(6) Let_def)
  qed
  moreover have "fs_ready p i k m t" using assms(1) t(2,3) tb(2) by (simp add: fs_ready_def)
  moreover have "kept ip s t" using fo t(4,5) fb by (simp add: kept_def)
  ultimately show ?thesis using t(1) that by blast
qed

text \<open>The number of blocks a range of bytes touches.\<close>

definition nchunks :: "nat \<Rightarrow> nat \<Rightarrow> nat" where
  "nchunks off n = (if n = 0 then 0 else (off + n + 1023) div BSIZE - off div BSIZE)"

lemma nchunks_step:
  assumes "0 < n" and "c = min n (BSIZE - off mod BSIZE)"
  shows "nchunks off n = Suc (nchunks (off + c) (n - c))" and "0 < c" and "off mod BSIZE + c \<le> BSIZE"
    and "c \<le> n"
proof -
  have m: "off mod BSIZE < BSIZE" by simp
  show "0 < c" "off mod BSIZE + c \<le> BSIZE" "c \<le> n" using assms m by auto
  define q r where "q = off div BSIZE" and "r = off mod BSIZE"
  then have off: "off = q * BSIZE + r" and r: "r < BSIZE" by simp_all
  have up: "(off + x) div BSIZE = q + (r + x) div BSIZE" for x unfolding off by (simp add: add.assoc)
  show "nchunks off n = Suc (nchunks (off + c) (n - c))"
  proof (cases "c = n")
    case True
    then have "r + n \<le> BSIZE" using assms(2) r r_def by auto
    then have "(r + (n + 1023)) div BSIZE = 1" using assms(1) by (intro div_nat_eqI) simp_all
    then show ?thesis using True assms(1) up [of "n + 1023"] up [of 0] r by (simp add: nchunks_def add.assoc)
  next
    case False
    then have c: "c = BSIZE - r" "c < n" using assms(2) r r_def by auto
    then have "(off + c) div BSIZE = Suc q" using up [of c] r by simp
    moreover have "BSIZE \<le> r + (n + 1023)" using assms(1) by simp
    then have "1 \<le> (r + (n + 1023)) div BSIZE" using div_le_mono [of BSIZE "r + (n + 1023)" BSIZE] by simp
    ultimately show ?thesis using c assms(1) up [of "n + 1023"] up [of 0] r by (simp add: nchunks_def add.assoc)
  qed
qed

lemma chunk_range:
  assumes "off mod BSIZE + q \<le> BSIZE"
  shows "j div BSIZE = off div BSIZE \<and> off mod BSIZE \<le> j mod BSIZE \<and> j mod BSIZE < off mod BSIZE + q
      \<longleftrightarrow> off \<le> j \<and> j < off + q"
    and "off \<le> j \<Longrightarrow> j < off + q \<Longrightarrow> j mod BSIZE - off mod BSIZE = j - off"
proof -
  define a r where "a = off div BSIZE" and "r = off mod BSIZE"
  then have off: "off = a * BSIZE + r" "r < BSIZE" by simp_all
  define b x where "b = j div BSIZE" and "x = j mod BSIZE"
  then have j: "j = b * BSIZE + x" "x < BSIZE" by simp_all
  have q: "r + q \<le> BSIZE" using assms by (simp add: r_def)
  have d: "b = a" if "off \<le> j" "j < off + q"
    unfolding b_def using that off q by (intro div_nat_eqI) auto
  have e: "(b = a \<and> r \<le> x \<and> x < r + q) \<longleftrightarrow> off \<le> j \<and> j < off + q"
    using d j(1) off(1) by auto
  then show "j div BSIZE = off div BSIZE \<and> off mod BSIZE \<le> j mod BSIZE \<and> j mod BSIZE < off mod BSIZE + q
      \<longleftrightarrow> off \<le> j \<and> j < off + q" unfolding a_def r_def b_def x_def .
  show "j mod BSIZE - off mod BSIZE = j - off" if "off \<le> j" "j < off + q"
    using d [OF that] j off unfolding r_def [symmetric] x_def [symmetric] by auto
qed

definition delivers :: "'m source \<Rightarrow> u64 \<Rightarrow> u8 list \<Rightarrow> 'm \<Rightarrow> bool" where
  "delivers src a vs m \<longleftrightarrow> (\<forall>d q. d + q \<le> length vs \<longrightarrow> src (a + of_nat d) q m = (take q (drop d vs), True))"

lemma delivers_drop: "delivers src a vs m \<Longrightarrow> c \<le> length vs \<Longrightarrow> delivers src (a + of_nat c) (drop c vs) m"
  unfolding delivers_def by (auto simp: add.assoc add.commute [of c] simp flip: of_nat_add)

definition spliced :: "nat \<Rightarrow> nat \<Rightarrow> u8 list \<Rightarrow> 'a fsstate_scheme \<Rightarrow> 'a fsstate_scheme \<Rightarrow> bool" where
  "spliced ip off vs s t \<longleftrightarrow> kept ip s t \<and>
     (\<forall>j. off \<le> j \<and> j < off + length vs \<longrightarrow> fblock ip (j div BSIZE) t \<noteq> 0) \<and>
     (\<forall>j < MAXFILE * BSIZE. fbyte ip j t =
        (if off \<le> j \<and> j < off + length vs then vs ! (j - off) else fbyte ip j s))"

lemma writei_loop_ok:
  assumes "fs_ready p i k (6 * nchunks off (length vs) + c) s" and "file_ok ip s"
    and "off + length vs \<le> MAXFILE * BSIZE" and "n = tot + length vs" and "delivers src a vs m"
  shows "\<exists>t. writei_loop src ip a off tot n m s = Inr (off + length vs, t) \<and> fs_ready p i k c t \<and> spliced ip off vs s t"
  using assms
proof (induction "length vs" arbitrary: vs off a tot s rule: less_induct)
  case less
  show ?case
  proof (cases "vs = []")
    case True
    then show ?thesis
      using less.prems(1,2,4) by (subst writei_loop.simps) (auto simp: nchunks_def spliced_def kept_def)
  next
    case False
    define q where "q = min (length vs) (BSIZE - off mod BSIZE)"
    have st: "nchunks off (length vs) = Suc (nchunks (off + q) (length vs - q))" "0 < q"
      "off mod BSIZE + q \<le> BSIZE" "q \<le> length vs"
      using nchunks_step [OF _ q_def] False by blast+
    let ?m = "6 * nchunks (off + q) (length vs - q) + c"
    have r: "fs_ready p i k (Suc ?m + 5) s" using less.prems(1) st(1) by (simp add: algebra_simps)
    have "off < MAXFILE * BSIZE" using less.prems(3) False by (cases vs) auto
    then have n: "off div BSIZE < MAXFILE" by (rule less_mult_imp_div_less)
    obtain b u where u: "bmap ip (off div BSIZE) s = Inr (b, u)" "fs_ready p i k (Suc ?m) u" "grown ip s u"
      "b \<noteq> 0" "fblock ip (off div BSIZE) u = b" using bmap_ok [OF r less.prems(2) n] by blast
    have fo: "file_ok ip u" using u(3) by (simp add: grown_def)
    have lt: "length (take q vs) = q" using st(4) by simp
    obtain v where v: "modify b (put_bytes (off mod BSIZE) (take q vs)) u = Inr v" "fs_ready p i k ?m v" "kept ip u v"
      "\<And>j. j < MAXFILE * BSIZE \<Longrightarrow> fbyte ip j v = (if j div BSIZE = off div BSIZE \<and> off mod BSIZE \<le> j mod BSIZE \<and>
         j mod BSIZE < off mod BSIZE + q then take q vs ! (j mod BSIZE - off mod BSIZE) else fbyte ip j u)"
      using write_data_ok [OF u(2) fo n u(5,4), of "off mod BSIZE" "take q vs"] st(3) lt by auto
    have rg: "j div BSIZE = off div BSIZE \<and> off mod BSIZE \<le> j mod BSIZE \<and> j mod BSIZE < off mod BSIZE + q
        \<longleftrightarrow> off \<le> j \<and> j < off + q" "off \<le> j \<Longrightarrow> j < off + q \<Longrightarrow> j mod BSIZE - off mod BSIZE = j - off" for j
      using chunk_range [OF st(3), of j] by auto
    have w: "src a q m = (take q vs, True)" using less.prems(5) [unfolded delivers_def, rule_format, of 0 q] st(4) by simp
    have dl: "delivers src (a + of_nat q) (drop q vs) m" using delivers_drop [OF less.prems(5) st(4)] .
    have "\<exists>t. writei_loop src ip (a + of_nat q) (off + q) (tot + q) n m v = Inr (off + q + length (drop q vs), t) \<and>
        fs_ready p i k c t \<and> spliced ip (off + q) (drop q vs) v t"
      using st(2,4) v(2,3) less.prems(3,4) False
      by (intro less.hyps [OF _ _ _ _ _ dl]) (auto simp: kept_def)
    then obtain t where t: "writei_loop src ip (a + of_nat q) (off + q) (tot + q) n m v = Inr (off + length vs, t)"
      "fs_ready p i k c t" "spliced ip (off + q) (drop q vs) v t" using st(4) by auto
    have "writei_loop src ip a off tot n m s = Inr (off + length vs, t)"
      using less.prems(4) False t(1) v(1) w
      by (subst writei_loop.simps) (simp add: u(1) q_def [symmetric] Let_def)
    moreover have k: "kept ip s t" using kept_trans [OF kept_trans [OF grown_kept [OF u(3)] v(3)]] t(3) by (simp add: spliced_def)
    moreover have "fblock ip (j div BSIZE) t \<noteq> 0" if "off \<le> j" "j < off + length vs" for j
    proof (cases "j < off + q")
      case True
      then have "j div BSIZE = off div BSIZE" using that rg by blast
      then show ?thesis using u(4,5) v(3) t(3) n by (auto simp: spliced_def kept_def)
    next
      case False
      then show ?thesis using t(3) that st(4) by (simp add: spliced_def)
    qed
    moreover have "fbyte ip j t = (if off \<le> j \<and> j < off + length vs then vs ! (j - off) else fbyte ip j s)"
      if "j < MAXFILE * BSIZE" for j
    proof -
      have "fbyte ip j t = (if off + q \<le> j \<and> j < off + length vs then vs ! (j - off) else fbyte ip j v)"
        using t(3) that st(4) by (auto simp: spliced_def)
      moreover have "fbyte ip j v = (if off \<le> j \<and> j < off + q then vs ! (j - off) else fbyte ip j s)"
        using v(4) [OF that] rg u(3) that by (auto simp: grown_def)
      ultimately show ?thesis using st(4) by auto
    qed
    ultimately show ?thesis using t(2) by (intro exI [of _ t]) (auto simp: spliced_def)
  qed
qed

lemma iupdate_ok:
  assumes "fs_ready p i k (Suc m) s" and "file_ok ip s"
  obtains t where "iupdate ip s = Inr t" and "fs_ready p i k m t" and "file_ok ip t" and "sb t = sb s" and "ino t = ino s"
    and "rd (iblock (inum (ino s ip)) (sb s)) t =
      put_dinode (inum (ino s ip)) (ino s ip) (rd (iblock (inum (ino s ip)) (sb s)) s)"
    and "\<And>x. x \<noteq> iblock (inum (ino s ip)) (sb s) \<Longrightarrow> rd x t = rd x s"
    and "\<And>n. n \<le> MAXFILE \<Longrightarrow> fblock ip n t = fblock ip n s"
    and "\<And>j. j < MAXFILE * BSIZE \<Longrightarrow> fbyte ip j t = fbyte ip j s"
proof -
  let ?b = "iblock (inum (ino s ip)) (sb s)"
  have r: "log_ready p i k s" "log_room (Suc m) s" using assms(1) by (simp_all add: fs_ready_def)
  obtain t where t: "iupdate ip s = Inr t" "log_ready p i k t" "log_room m t" "sb t = sb s" "ino t = ino s"
    "\<And>x. rd x t = (if x = ?b then put_dinode (inum (ino s ip)) (ino s ip) (rd ?b s) else rd x s)"
    using modify_ok [OF r, of ?b] unfolding iupdate_def by blast
  have bo: "bitmap_ok s" and iq: "inum (ino s ip) < sb_ninodes (sb s)" using assms(2) by (simp_all add: file_ok_def)
  have u: "block_used x t = block_used x s" if "x < sb_size (sb s)" for x
    using that bo iq t(4,6) by (intro block_used_cong) (auto simp: bitmap_ok_def layout_ok_def)
  have "meta (sb s) \<subseteq> {..<sb_size (sb s)}" using bo by (simp add: bitmap_ok_def layout_ok_def)
  then have tb: "bitmap_ok t" "free_blocks t = free_blocks s" using bo u t(4) by (auto simp: bitmap_ok_def free_blocks_def)
  have bm: "?b \<in> meta (sb s)" using iq by (simp add: meta_def)
  have off: "fblock ip n s \<noteq> ?b" if "n \<le> MAXFILE" "fblock ip n s \<noteq> 0" for n
    using slot_data [OF assms(2) that] bm by (auto simp: data_block_def)
  have "ind_block ip s \<noteq> 0 \<Longrightarrow> ind_block ip s \<noteq> ?b" using off [of MAXFILE] by simp
  then have fb: "fblock ip n t = fblock ip n s" for n by (auto simp: fblock_def ind_block_def t(5,6))
  have dt: "data_block b t = data_block b s" for b using u t(4) by (auto simp: data_block_def)
  have "file_ok ip t" using assms(2) tb(1) t(4,5) by (simp add: file_ok_def fb dt)
  moreover have "fbyte ip j t = fbyte ip j s" if "j < MAXFILE * BSIZE" for j
  proof -
    have "j div BSIZE < MAXFILE" using that by (rule less_mult_imp_div_less)
    then show ?thesis using off [of "j div BSIZE"] by (auto simp: fbyte_def fb t(6) Let_def)
  qed
  moreover have "fs_ready p i k m t" using assms(1) t(2,3) tb(2) by (simp add: fs_ready_def)
  ultimately show ?thesis using t fb that by simp
qed

lemma upd_size [simp]:
  "fblock ip n (upd_ino ip (isize_update f) s) = fblock ip n s"
  "fbyte ip j (upd_ino ip (isize_update f) s) = fbyte ip j s"
  "fs_ready p i k m (upd_ino ip (isize_update f) s) = fs_ready p i k m s"
  "file_ok ip (upd_ino ip (isize_update f) s) = file_ok ip s"
proof -
  let ?u = "upd_ino ip (isize_update f) s"
  have u: "block_used b ?u = block_used b s" for b by (simp add: block_used_def)
  have fr: "free_blocks ?u = free_blocks s" "bitmap_ok ?u = bitmap_ok s" "data_block b ?u = data_block b s" for b
    by (simp_all add: free_blocks_def bitmap_ok_def data_block_def u)
  show fb: "fblock ip n ?u = fblock ip n s" for n by (simp add: fblock_def ind_block_def)
  then show "fbyte ip j ?u = fbyte ip j s" by (simp add: fbyte_def Let_def)
  show "fs_ready p i k m ?u = fs_ready p i k m s" by (simp add: fs_ready_def log_room_def fr)
  show "file_ok ip ?u = file_ok ip s" by (simp add: file_ok_def fr fb)
qed

text \<open>\<open>writei\<close> puts the bytes in their place, grows the size when it has to, and touches nothing else.\<close>

lemma writei_ok:
  assumes "fs_ready p i k (6 * nchunks off (length vs) + Suc c) s" and "file_ok ip s"
    and "off \<le> unat (isize (ino s ip))" and "off + length vs \<le> MAXFILE * BSIZE" and "delivers src a vs m"
  obtains t where "writei src ip a off (length vs) m s = Inr (int (length vs), t)" and "fs_ready p i k c t"
    and "file_ok ip t" and "sb t = sb s" and "\<And>x. x \<noteq> ip \<Longrightarrow> ino t x = ino s x"
    and "unat (isize (ino t ip)) = max (unat (isize (ino s ip))) (off + length vs)"
    and "inum (ino t ip) = inum (ino s ip)" and "itype (ino t ip) = itype (ino s ip)"
    and "\<And>j. off \<le> j \<Longrightarrow> j < off + length vs \<Longrightarrow> fblock ip (j div BSIZE) t \<noteq> 0"
    and "\<And>n. n \<le> MAXFILE \<Longrightarrow> fblock ip n s \<noteq> 0 \<Longrightarrow> fblock ip n t = fblock ip n s"
    and "\<And>j. j < MAXFILE * BSIZE \<Longrightarrow> fbyte ip j t =
      (if off \<le> j \<and> j < off + length vs then vs ! (j - off) else fbyte ip j s)"
proof -
  obtain u where u: "writei_loop src ip a off 0 (length vs) m s = Inr (off + length vs, u)" "fs_ready p i k (Suc c) u"
    "spliced ip off vs s u"
    using writei_loop_ok [OF assms(1,2,4) _ assms(5), of "length vs" 0] by auto
  have fo: "file_ok ip u" and kp: "kept ip s u" using u(3) by (simp_all add: spliced_def kept_def)
  have "(ino u ip)\<lparr>addrs := A\<rparr> = (ino s ip)\<lparr>addrs := A\<rparr>" for A using kp by (simp add: kept_def)
  from arg_cong [OF this, of isize] arg_cong [OF this, of inum] arg_cong [OF this, of itype]
  have f: "isize (ino u ip) = isize (ino s ip)" "inum (ino u ip) = inum (ino s ip)" "itype (ino u ip) = itype (ino s ip)"
    by simp_all
  have sz: "off + length vs < 2 ^ 32" using assms(4) by simp
  show ?thesis
  proof (cases "vs = []")
    case True
    then show ?thesis
      using u f assms(3,4) sz fo kp by (intro that [of u])
        (auto simp: writei_def kept_def spliced_def max_def intro: fs_ready_mono)
  next
    case False
    define v where "v = (if off + length vs > unat (isize (ino u ip))
      then upd_ino ip (isize_update (\<lambda>_. of_nat (off + length vs))) u else u)"
    have v: "fs_ready p i k (Suc c) v" "file_ok ip v" using u(2) fo by (auto simp: v_def)
    have vs: "fblock ip n v = fblock ip n u" "fbyte ip j v = fbyte ip j u" "sb v = sb u"
      "inum (ino v ip) = inum (ino u ip)" "itype (ino v ip) = itype (ino u ip)" "x \<noteq> ip \<Longrightarrow> ino v x = ino u x" for n j x
      by (auto simp: v_def)
    have "unat (of_nat (off + length vs) :: u32) = off + length vs" using sz by (simp add: unat_of_nat del: of_nat_add)
    then have vz: "unat (isize (ino v ip)) = max (unat (isize (ino s ip))) (off + length vs)"
      using f(1) by (auto simp: v_def max_def simp del: of_nat_add)
    obtain t where t: "iupdate ip v = Inr t" "fs_ready p i k c t" "file_ok ip t" "sb t = sb v" "ino t = ino v"
      "\<And>n. n \<le> MAXFILE \<Longrightarrow> fblock ip n t = fblock ip n v" "\<And>j. j < MAXFILE * BSIZE \<Longrightarrow> fbyte ip j t = fbyte ip j v"
      by (rule iupdate_ok [OF v]) blast
    have w: "writei src ip a off (length vs) m s = Inr (int (length vs), t)"
      using False assms(3,4) sz u(1) t(1) by (simp add: writei_def v_def)
    show ?thesis
    proof (rule that [OF w t(2,3)])
      show "fblock ip (j div BSIZE) t \<noteq> 0" if "off \<le> j" "j < off + length vs" for j
      proof -
        have "j < MAXFILE * BSIZE" using that assms(4) by simp
        then have "j div BSIZE < MAXFILE" by (rule less_mult_imp_div_less)
        then show ?thesis using t(6) vs(1) u(3) that by (simp add: spliced_def)
      qed
      show "sb t = sb s" "inum (ino t ip) = inum (ino s ip)" "itype (ino t ip) = itype (ino s ip)"
        "unat (isize (ino t ip)) = max (unat (isize (ino s ip))) (off + length vs)"
        using t(4,5) vs(3-5) vz f kp by (simp_all add: kept_def)
      show "ino t x = ino s x" if "x \<noteq> ip" for x using that t(5) vs(6) kp by (simp add: kept_def)
      show "fblock ip n t = fblock ip n s" if "n \<le> MAXFILE" "fblock ip n s \<noteq> 0" for n
        using that t(6) vs(1) kp by (simp add: kept_def)
      show "fbyte ip j t = (if off \<le> j \<and> j < off + length vs then vs ! (j - off) else fbyte ip j s)"
        if "j < MAXFILE * BSIZE" for j using that t(7) vs(2) u(3) by (simp add: spliced_def)
    qed
  qed
qed

lemma bmap_mapped:
  "n < MAXFILE \<Longrightarrow> fblock ip n s \<noteq> 0 \<Longrightarrow> bmap ip n s = Inr (fblock ip n s, s)"
  by (auto simp: bmap_def fblock_def ind_block_def addr_of_def Let_def split: if_splits)

definition to_sink :: "(u64 \<Rightarrow> u8 list \<Rightarrow> 'm \<Rightarrow> 'm) \<Rightarrow> 'm sink" where
  "to_sink store d xs m = (True, store d xs m)"

text \<open>A destination that takes every byte: what it holds depends on the bytes only, not on the portions.\<close>

locale byte_sink =
  fixes store :: "u64 \<Rightarrow> u8 list \<Rightarrow> 'm \<Rightarrow> 'm"
  assumes store_nil: "store d [] m = m"
    and store_app: "store (d + of_nat (length xs)) ys (store d xs m) = store d (xs @ ys) m"
begin

lemma readi_loop_ok:
  assumes "\<forall>j. off \<le> j \<and> j < off + (n - tot) \<longrightarrow> fblock ip (j div BSIZE) s \<noteq> 0"
    and "off + (n - tot) \<le> MAXFILE * BSIZE"
  shows "readi_loop (to_sink store) ip d off tot n m s =
    Inr (store d (map (\<lambda>j. fbyte ip j s) [off..<off + (n - tot)]) m, s)"
  using assms
proof (induction "n - tot" arbitrary: off d tot m rule: less_induct)
  case less
  show ?case
  proof (cases "tot < n")
    case False
    then show ?thesis by (subst readi_loop.simps) (simp add: store_nil)
  next
    case True
    define q where "q = min (n - tot) (BSIZE - off mod BSIZE)"
    have st: "0 < q" "off mod BSIZE + q \<le> BSIZE" "q \<le> n - tot"
      using nchunks_step [OF _ q_def] True by simp_all
    have "off < MAXFILE * BSIZE" using less.prems(2) True by simp
    then have n: "off div BSIZE < MAXFILE" by (rule less_mult_imp_div_less)
    have b0: "fblock ip (off div BSIZE) s \<noteq> 0" using less.prems(1) True by simp
    have "map (blk_byte (rd (fblock ip (off div BSIZE) s) s)) [off mod BSIZE..<off mod BSIZE + q] =
        map (\<lambda>j. fbyte ip j s) [off..<off + q]"
    proof (rule nth_equalityI)
      fix x assume "x < length (map (blk_byte (rd (fblock ip (off div BSIZE) s) s)) [off mod BSIZE..<off mod BSIZE + q])"
      then have x: "x < q" by simp
      then have "(off + x) div BSIZE = off div BSIZE" "off mod BSIZE \<le> (off + x) mod BSIZE"
        "(off + x) mod BSIZE - off mod BSIZE = x"
        using chunk_range [OF st(2), of "off + x"] by simp_all
      then have "(off + x) div BSIZE = off div BSIZE" "(off + x) mod BSIZE = off mod BSIZE + x" by linarith+
      then show "map (blk_byte (rd (fblock ip (off div BSIZE) s) s)) [off mod BSIZE..<off mod BSIZE + q] ! x =
          map (\<lambda>j. fbyte ip j s) [off..<off + q] ! x" using b0 x by (simp add: fbyte_def Let_def)
    qed simp
    moreover have "readi_loop (to_sink store) ip (d + of_nat q) (off + q) (tot + q) n (store d ys m) s =
        Inr (store (d + of_nat q) (map (\<lambda>j. fbyte ip j s) [off + q..<off + q + (n - (tot + q))]) (store d ys m), s)" for ys
    proof (rule less.hyps)
      show "n - (tot + q) < n - tot" using st(1) True by simp
      show "\<forall>j. off + q \<le> j \<and> j < off + q + (n - (tot + q)) \<longrightarrow> fblock ip (j div BSIZE) s \<noteq> 0"
      proof (intro allI impI)
        fix j assume "off + q \<le> j \<and> j < off + q + (n - (tot + q))"
        then have "off \<le> j \<and> j < off + (n - tot)" using st(3) by linarith
        then show "fblock ip (j div BSIZE) s \<noteq> 0" using less.prems(1) by blast
      qed
      show "off + q + (n - (tot + q)) \<le> MAXFILE * BSIZE" using less.prems(2) st(3) by simp
    qed
    moreover have "[off..<off + (n - tot)] = [off..<off + q] @ [off + q..<off + q + (n - (tot + q))]"
    proof -
      have "off + (n - tot) = off + q + (n - (tot + q))" using st(3) by linarith
      then show ?thesis using upt_add_eq_append [of off "off + q" "n - (tot + q)"] by (simp only: le_add1)
    qed
    ultimately show ?thesis
      using True bmap_mapped [OF n b0] store_app [of d "map (\<lambda>j. fbyte ip j s) [off..<off + q]"]
      by (subst readi_loop.simps) (simp add: q_def [symmetric] Let_def to_sink_def)
  qed
qed

lemma readi_ok:
  assumes "off + n \<le> unat (isize (ino s ip))" and "off + n \<le> MAXFILE * BSIZE"
    and "\<forall>j. off \<le> j \<and> j < off + n \<longrightarrow> fblock ip (j div BSIZE) s \<noteq> 0"
  shows "readi (to_sink store) ip d off n m s = Inr (int n, store d (map (\<lambda>j. fbyte ip j s) [off..<off + n]) m, s)"
  using assms readi_loop_ok [of off n 0 ip s d m] by (simp add: readi_def)

end

text \<open>The bytes in the order in which they come, and a buffer in memory.\<close>

definition append_bytes :: "u64 \<Rightarrow> u8 list \<Rightarrow> u8 list \<Rightarrow> u8 list" where
  "append_bytes d xs m = m @ xs"

definition store_bytes :: "u64 \<Rightarrow> u8 list \<Rightarrow> bytes \<Rightarrow> bytes" where
  "store_bytes d xs m = fold (\<lambda>i m. m(d + of_nat i := xs ! i)) [0..<length xs] m"

interpretation collect: byte_sink append_bytes
  by unfold_locales (simp_all add: append_bytes_def)

interpretation buffer: byte_sink store_bytes
proof
  fix d :: u64 and xs ys :: "u8 list" and m :: bytes
  show "store_bytes d [] m = m" by (simp add: store_bytes_def)
  have "fold (\<lambda>i m. m(d + of_nat (length xs) + of_nat i := ys ! i)) [0..<k] m =
      fold (\<lambda>i m. m(d + of_nat i := (xs @ ys) ! i)) [length xs..<length xs + k] m" for k m
    by (induction k) (simp_all add: add.assoc del: fun_upd_apply)
  moreover have "fold (\<lambda>i m. m(d + of_nat i := xs ! i)) [0..<length xs] m =
      fold (\<lambda>i m. m(d + of_nat i := (xs @ ys) ! i)) [0..<length xs] m"
    by (rule fold_cong) (simp_all add: nth_append)
  ultimately show "store_bytes (d + of_nat (length xs)) ys (store_bytes d xs m) = store_bytes d (xs @ ys) m"
    by (simp add: store_bytes_def upt_add_eq_append [of 0 "length xs" "length ys"])
qed

text \<open>
  C7. What \<open>writei\<close> writes at an offset of a file \<open>readi\<close> reads back from there, over block
  boundaries, in the direct and the indirect blocks, with blocks allocated as needed; all other
  bytes of the file stay, and its size is what it was or the end of the write.
\<close>

theorem write_read_roundtrip:
  assumes "fs_ready p i k (6 * nchunks off (length vs) + 1) s" and "file_ok ip s"
    and "off \<le> unat (isize (ino s ip))" and "off + length vs \<le> MAXFILE * BSIZE" and "delivers src a vs m"
  shows "\<exists>t. writei src ip a off (length vs) m s = Inr (int (length vs), t) \<and>
    readi (to_sink append_bytes) ip 0 off (length vs) [] t = Inr (int (length vs), vs, t) \<and>
    unat (isize (ino t ip)) = max (unat (isize (ino s ip))) (off + length vs) \<and>
    (\<forall>j < MAXFILE * BSIZE. j < off \<or> off + length vs \<le> j \<longrightarrow> fbyte ip j t = fbyte ip j s)"
proof -
  have r: "fs_ready p i k (6 * nchunks off (length vs) + Suc 0) s" using assms(1) by simp
  obtain t where t: "writei src ip a off (length vs) m s = Inr (int (length vs), t)"
    "unat (isize (ino t ip)) = max (unat (isize (ino s ip))) (off + length vs)"
    "\<And>j. off \<le> j \<Longrightarrow> j < off + length vs \<Longrightarrow> fblock ip (j div BSIZE) t \<noteq> 0"
    "\<And>j. j < MAXFILE * BSIZE \<Longrightarrow> fbyte ip j t =
      (if off \<le> j \<and> j < off + length vs then vs ! (j - off) else fbyte ip j s)"
    by (rule writei_ok [OF r assms(2-5)]) blast
  have "map (\<lambda>j. fbyte ip j t) [off..<off + length vs] = vs"
    by (rule nth_equalityI) (use t(4) assms(4) in auto)
  then have "readi (to_sink append_bytes) ip 0 off (length vs) [] t = Inr (int (length vs), vs, t)"
    using collect.readi_ok [of off "length vs" t ip 0 "[]"] t(2,3) assms(4) by (simp add: append_bytes_def)
  then show ?thesis using t(1,2,4) by auto
qed

definition demo_sb :: superblock where
  "demo_sb = \<lparr>sb_magic = FSMAGIC, sb_size = 16, sb_nblocks = 12, sb_ninodes = 16, sb_nlog = 30, sb_logstart = 20,
     sb_inodestart = 2, sb_bmapstart = 3\<rparr>"

definition demo_disk :: journal where
  "demo_disk = \<lparr>jdisk = (\<lambda>n i. if n = 3 \<and> i = 0 then 15 else 0), jcache = (\<lambda>_. None), jpins = (\<lambda>_. 0), jtrace = []\<rparr>"

definition demo_inode :: inode where
  "demo_inode = \<lparr>itype = 2, major = 0, minor = 0, nlink = 1, isize = 0, addrs = (\<lambda>_. 0), idev = 1, inum = 1,
     iref = 1, ivalid = True\<rparr>"

definition demo_fs :: fsstate where
  "demo_fs = logstate.extend (consstate.extend (pipestate.extend (ptdupstate.extend (memstate.extend (boot_mem (\<lambda>_. 0) 0
       \<lparr>klog := (klog boot_tr)\<lparr>outstanding := 1\<rparr>\<rparr>) (ptdupstate.fields (\<lambda>_. undefined) (\<lambda>_. 0))) (pipestate.fields (\<lambda>_. demo_pipe)))
       (consstate.fields \<lparr>cbuf = (\<lambda>_. 0), cr = 0, cw = 0, ce = 0\<rparr>)) (logstate.fields demo_disk))
     (fsstate.fields demo_sb (\<lambda>_. demo_inode) (\<lambda>i. 1000 + 136 * i) (\<lambda>_. 7))"

lemma demo_fs_sel [simp]:
  "sb demo_fs = demo_sb" "ino demo_fs = (\<lambda>_. demo_inode)" "jr demo_fs = demo_disk"
  "klog demo_fs = (klog boot_tr)\<lparr>outstanding := 1\<rparr>"
  by (simp_all add: demo_fs_def memstate.defs ptdupstate.defs pipestate.defs consstate.defs logstate.defs fsstate.defs boot_mem_def transtate.defs)

lemma demo_log_ready: "log_ready 0 0 0 demo_fs"
proof -
  let ?b = "boot_mem (\<lambda>_. 0) 0"
  have m: "hart demo_fs = hart ?b" "cproc demo_fs = cproc ?b" "noff demo_fs = noff ?b" "sie demo_fs = sie ?b"
    "locks demo_fs = locks ?b" "procs demo_fs = procs ?b" "nextpid demo_fs = nextpid ?b"
    "rcs_infos demo_fs = rcs_infos ?b" "tarr demo_fs = tarr ?b"
    by (simp_all add: demo_fs_def memstate.defs ptdupstate.defs pipestate.defs consstate.defs logstate.defs fsstate.defs boot_mem_def transtate.defs)
  have "last_trans (Suc 0) demo_fs = Some 0"
    by (auto simp: last_trans_def m intro!: find_rev_unique split: if_splits)
  moreover have "rcs_find (Suc 0) demo_fs = Some 0" by (simp add: rcs_find_def m first_idx_Some)
  moreover have "cpu_ok demo_fs" "free_lock lk demo_fs" "curproc demo_fs = Some 0" for lk
    by (simp_all add: cpu_ok_def free_lock_def curproc_def m)
  ultimately show ?thesis
    by (simp add: log_ready_def rcs_ready_def trans_ready_def open_sections_def my_index_def hist_ok_5 hist_abs_def
        header_ok_def m)
qed

lemma demo_used: "b < 16 \<Longrightarrow> block_used b demo_fs \<longleftrightarrow> b < 4"
proof -
  assume b: "b < 16"
  have "(word_of_int 15 :: u32) = mask 4" by (simp add: mask_eq_exp_minus_1)
  then have "blk_word (rd 3 demo_fs) 0 = mask 4"
    by (simp add: rd_def buf_data_def blk_word_def demo_disk_def)
  moreover have "bblock b demo_sb = 3" "b mod BPB = b" "b div 32 = 0" "b mod 32 = b"
    using b by (simp_all add: bblock_def demo_sb_def)
  ultimately have "block_used b demo_fs \<longleftrightarrow> bit (mask 4 :: u32) b" by (simp add: block_used_def Let_def)
  then show ?thesis using b by (simp only: bit_mask_iff) auto
qed

lemma demo_meta: "meta demo_sb = {0, 2, 3}"
proof -
  have "(\<lambda>b. bblock b demo_sb) ` {..<16} = {3}" "(\<lambda>i. iblock i demo_sb) ` {..<16} = {2}"
    by (auto simp: bblock_def iblock_def demo_sb_def image_def intro!: exI [of _ 0])
  then show ?thesis by (simp add: meta_def demo_sb_def insert_commute)
qed

lemma demo_file_ok: "file_ok ip demo_fs"
proof -
  have "layout_ok demo_sb" by (simp add: layout_ok_def demo_meta) (simp add: bblock_def iblock_def demo_sb_def)
  then have "bitmap_ok demo_fs" by (simp add: bitmap_ok_def demo_meta demo_used)
  then show ?thesis
    by (simp add: file_ok_def fblock_def ind_block_def demo_inode_def) (simp add: demo_sb_def)
qed

theorem write_read_roundtrip_witness:
  "\<exists>t. writei (\<lambda>a q m. (take q (drop (unat a) [1, 2, 3]), True)) 1000 0 0 3 () demo_fs = Inr (3, t) \<and>
     readi (to_sink append_bytes) 1000 0 0 3 [] t = Inr (3, [1, 2, 3], t)"
proof -
  let ?vs = "[1, 2, 3] :: u8 list"
  have "{4..<16} \<subseteq> free_blocks demo_fs" by (auto simp: free_blocks_def demo_used demo_sb_def)
  then have "card {4..<16 :: nat} \<le> card (free_blocks demo_fs)" by (intro card_mono) simp_all
  then have "fs_ready 0 0 0 7 demo_fs" using demo_log_ready by (simp add: fs_ready_def log_room_def)
  then have "fs_ready 0 0 0 (6 * nchunks 0 (length ?vs) + 1) demo_fs" by (simp add: nchunks_def)
  moreover have "delivers (\<lambda>a q m. (take q (drop (unat a) ?vs), True)) 0 ?vs ()"
    unfolding delivers_def by (auto simp: unat_of_nat)
  ultimately show ?thesis
    using write_read_roundtrip [of 0 0 0 0 ?vs demo_fs 1000 "\<lambda>a q m. (take q (drop (unat a) ?vs), True)" 0 "()"]
      demo_file_ok by (simp add: demo_inode_def numeral_3_eq_3) blast
qed

end
