(* ===== verification/FsInodes.thy ===== *)
theory FsInodes
  imports FsContent
begin

text \<open>
  The cache of inodes (\<open>iinit\<close> to \<open>iunlockput\<close> of \<open>kernel/fs.c\<close>): entries with a reference
  count, found and recycled by \<open>iget\<close>, read from disk by \<open>ilock\<close> and freed by \<open>iput\<close>. The
  properties: the inode on disk and the one in memory agree after an update, and no inode is
  ever in two entries.
\<close>

section \<open>Operations\<close>

definition iinit :: "'a fsstate_scheme \<Rightarrow> 'a fsstate_scheme res" where
  "iinit s = bindE (initlock LkIcache ''icache'' s)
     (foldE (\<lambda>i s. bindE (initsleeplock (islock s (iarr s i)) ''inode'' s) (\<lambda>s.
        register_memobj (iarr s i) (mhead s MLino) s)) [0..<NINODE])"

text \<open>The scan of \<open>iget\<close> over the entries, with the first unused one seen so far.\<close>

definition cached_inode :: "nat \<Rightarrow> nat \<Rightarrow> inode \<Rightarrow> bool" where
  "cached_inode d n x \<longleftrightarrow> iref x > 0 \<and> idev x = d \<and> inum x = n"

fun iget_scan ::
  "nat \<Rightarrow> nat \<Rightarrow> nat list \<Rightarrow> nat option \<Rightarrow> 'a fsstate_scheme \<Rightarrow> ((nat + nat option) \<times> 'a fsstate_scheme) res" where
  "iget_scan d n [] e s = Inr (Inr e, s)"
| "iget_scan d n (ip # ips) e s =
     bindE (enter_recovery_critical_section_nodes RL_INODE ip s) (\<lambda>s.
     if cached_inode d n (ino s ip) then Inr (Inl ip, s)
     else let e = (if e = None \<and> iref (ino s ip) = 0 then Some ip else e) in
       bindE (exit_recovery_critical_section_nodes RL_INODE ip s) (iget_scan d n ips e))"

definition iget :: "nat \<Rightarrow> nat \<Rightarrow> 'a fsstate_scheme \<Rightarrow> (nat \<times> 'a fsstate_scheme) res" where
  "iget d n s = bindE (acquire LkIcache s) (\<lambda>s.
     bindE (iget_scan d n (map (iarr s) [0..<NINODE]) None s) (\<lambda>(r, s). case r of
         Inl ip \<Rightarrow> bindE (release LkIcache (upd_ino ip (\<lambda>x. x\<lparr>iref := iref x + 1\<rparr>) s)) (\<lambda>s. Inr (ip, s))
       | Inr e \<Rightarrow> bindE (enter_recovery_critical_section_nodes RL_INODE (case e of None \<Rightarrow> 0 | Some ip \<Rightarrow> ip) s) (\<lambda>s.
           case e of None \<Rightarrow> Inl (Panic ''iget: no inodes'')
         | Some ip \<Rightarrow> bindE (release LkIcache
               (upd_ino ip (\<lambda>x. x\<lparr>idev := d, inum := n, iref := 1, ivalid := False\<rparr>) s)) (\<lambda>s. Inr (ip, s)))))"

definition ialloc :: "nat \<Rightarrow> u16 \<Rightarrow> 'a fsstate_scheme \<Rightarrow> (nat \<times> 'a fsstate_scheme) res" where
  "ialloc d t s = bindE (ialloc_slot t s) (\<lambda>(n, s). iget d n s)"

definition idup :: "nat \<Rightarrow> 'a fsstate_scheme \<Rightarrow> 'a fsstate_scheme res" where
  "idup ip s = bindE (acquire LkIcache s) (\<lambda>s.
     release LkIcache (upd_ino ip (\<lambda>x. x\<lparr>iref := iref x + 1\<rparr>) s))"

definition ilock :: "nat \<Rightarrow> 'a fsstate_scheme \<Rightarrow> 'a fsstate_scheme res" where
  "ilock ip s =
     (if ip = 0 \<or> iref (ino s ip) < 1 then Inl (Panic ''ilock'')
      else bindE (acquiresleep (islock s ip) s) (\<lambda>s.
        if \<not> ivalid (ino s ip)
        then let s = load_inode ip s in
          if itype (ino s ip) = 0 then Inl (Panic ''ilock: no type'') else Inr s
        else Inr s))"

definition iunlock :: "nat \<Rightarrow> 'a fsstate_scheme \<Rightarrow> 'a fsstate_scheme res" where
  "iunlock ip s =
     (if ip = 0 then Inl (Panic ''iunlock'')
      else bindE (holdingsleep (islock s ip) s) (\<lambda>(h, s).
        if \<not> h \<or> iref (ino s ip) < 1 then Inl (Panic ''iunlock'') else releasesleep (islock s ip) s))"

definition iput :: "nat \<Rightarrow> 'a fsstate_scheme \<Rightarrow> 'a fsstate_scheme res" where
  "iput ip s = bindE (acquire LkIcache s) (\<lambda>s.
     bindE (if iref (ino s ip) = 1 \<and> ivalid (ino s ip) \<and> nlink (ino s ip) = 0
       then bindE (acquiresleep (islock s ip) s) (\<lambda>s. bindE (release LkIcache s) (\<lambda>s.
         bindE (itrunc ip s) (\<lambda>s. bindE (iupdate ip (upd_ino ip (itype_update (\<lambda>_. 0)) s)) (\<lambda>s.
         bindE (releasesleep (islock s ip) (upd_ino ip (ivalid_update (\<lambda>_. False)) s)) (acquire LkIcache)))))
       else Inr s) (\<lambda>s.
     bindE (exit_recovery_critical_section_nodes RL_INODE ip (upd_ino ip (\<lambda>x. x\<lparr>iref := iref x - 1\<rparr>) s))
       (release LkIcache)))"

definition iunlockput :: "nat \<Rightarrow> 'a fsstate_scheme \<Rightarrow> 'a fsstate_scheme res" where
  "iunlockput ip s = bindE (iunlock ip s) (iput ip)"

record stat =
  st_dev :: nat
  st_ino :: nat
  st_type :: u16
  st_nlink :: u16
  st_size :: u32

definition stati :: "nat \<Rightarrow> 'a fsstate_scheme \<Rightarrow> stat" where
  "stati ip s = (let x = ino s ip in \<lparr>st_dev = idev x, st_ino = inum x, st_type = itype x, st_nlink = nlink x,
     st_size = isize x\<rparr>)"

section \<open>The inode on disk\<close>

lemma dinode_fields:
  "get_dinode i (put_dinode i d x) =
     \<lparr>itype = itype d, major = major d, minor = minor d, nlink = nlink d, isize = isize d,
      addrs = (\<lambda>k. if k \<le> NDIRECT then addrs d k else blk_word x (16 * (i mod IPB) + (3 + k)))\<rparr>"
proof -
  have low: "ucast ((ucast a OR push_bit 16 (ucast b)) :: u32) = a" for a b :: u16
    by (rule bit_word_eqI) (auto simp: bit_simps)
  have high: "ucast (drop_bit 16 ((ucast a OR push_bit 16 (ucast b)) :: u32)) = b" for a b :: u16
    by (rule bit_word_eqI) (auto simp: bit_simps dest: bit_imp_le_length)
  have w: "blk_word (put_dinode i d x) (16 * (i mod IPB) + k) = (if k < 16 then dinode_word d k else blk_word x (16 * (i mod IPB) + k))" for k
    by (simp add: blk_word_def put_dinode_def Let_def)
  show ?thesis
    by (rule dinode.equality) (auto simp: get_dinode_def Let_def w dinode_word_def low high [simplified])
qed

definition same_dinode :: "'a dinode_scheme \<Rightarrow> 'b dinode_scheme \<Rightarrow> bool" where
  "same_dinode d e \<longleftrightarrow> itype d = itype e \<and> major d = major e \<and> minor d = minor e \<and> nlink d = nlink e \<and>
     isize d = isize e \<and> (\<forall>k \<le> NDIRECT. addrs d k = addrs e k)"

lemma dinode_other:
  assumes "i mod IPB \<noteq> j mod IPB"
  shows "same_dinode (get_dinode j (put_dinode i d x)) (get_dinode j x)"
proof -
  have "put_dinode i d x (16 * (j mod IPB) + k) = x (16 * (j mod IPB) + k)" if "k < 16" for k
    using that assms by (auto simp: put_dinode_def Let_def)
  then have "blk_word (put_dinode i d x) (16 * (j mod IPB) + k) = blk_word x (16 * (j mod IPB) + k)" if "k < 16" for k
    using that by (simp add: blk_word_def)
  from this [of 0] this [of 1] this [of 2] this [of "3 + k" for k] show ?thesis
    by (simp add: same_dinode_def get_dinode_def Let_def)
qed



section \<open>One entry per inode\<close>

text \<open>What the scan of \<open>iget\<close> finds.\<close>

definition iget_find :: "nat \<Rightarrow> nat \<Rightarrow> (nat \<Rightarrow> inode) \<Rightarrow> nat list \<Rightarrow> nat option \<Rightarrow> nat + nat option" where
  "iget_find d n tab ips e = (case find (\<lambda>ip. cached_inode d n (tab ip)) ips of
       Some ip \<Rightarrow> Inl ip
     | None \<Rightarrow> Inr (if e = None then find (\<lambda>ip. iref (tab ip) = 0) ips else e))"

text \<open>A process at work with the cache: its record has room, and every entry has a section.\<close>

definition icache_ready :: "nat \<Rightarrow> nat \<Rightarrow> 'a fsstate_scheme \<Rightarrow> bool" where
  "icache_ready p i s \<longleftrightarrow> rcs_ready p i s \<and> length (open_sections i s) < RCS_HIST \<and>
     (\<forall>j < NINODE. real_flag (search_recovery_idx RL_INODE (iarr s j) s))"

lemma fs_float [simp]:
  "ino (taken lk s) = ino s" "ino (saved s) = ino s" "iarr (taken lk s) = iarr s" "iarr (saved s) = iarr s"
  "ino (set_hist i h s) = ino s" "ino (counted f e s) = ino s"
  "iarr (set_hist i h s) = iarr s" "iarr (counted f e s) = iarr s"
  "upd_ino ip g (taken lk s) = taken lk (upd_ino ip g s)" "upd_ino ip g (saved s) = saved (upd_ino ip g s)"
  by (simp_all add: taken_def saved_def set_hist_def counted_def upd_ino_def)

lemma upd_ino_locks [simp]:
  "cpu_ok (upd_ino ip g s) = cpu_ok s" "free_lock lk (upd_ino ip g s) = free_lock lk s" "iarr (upd_ino ip g s) = iarr s"
  by (simp_all add: upd_ino_def cpu_ok_def free_lock_def)

lemma idx_sections [simp]:
  "search_recovery_idx f a (set_hist i h s) = search_recovery_idx f a s"
  "search_recovery_idx f a (counted g e s) = search_recovery_idx f a s"
  by (simp_all add: search_recovery_idx_def set_hist_def counted_def cong: option.case_cong)

definition entered :: "nat \<Rightarrow> int \<Rightarrow> 'a rlstate_scheme \<Rightarrow> 'a rlstate_scheme" where
  "entered i f s = saved (set_hist i (hist_add f (hist (rcs_infos s i))) (counted f 0 s))"

lemma entered_sel [simp]: "ino (entered i f s) = ino s" "iarr (entered i f s) = iarr s"
  by (simp_all add: entered_def set_hist_def counted_def)

lemma section_float [simp]:
  "set_hist i h (saved s) = saved (set_hist i h s)" "uncounted f e (saved s) = saved (uncounted f e s)"
  "rcs_infos (saved s) = rcs_infos s"
  by (simp_all add: set_hist_def uncounted_def)

lemma left_section:
  "h = hist (rcs_infos s i) \<Longrightarrow> set_hist i h (uncounted f 0 (set_hist i h' (counted f 0 s))) = s"
  by (simp add: set_hist_def uncounted_def counted_def fun_upd_idem)

lemma nodes_enter:
  assumes "rcs_ready p i s" and "real_flag (search_recovery_idx k ip s)"
  shows "enter_recovery_critical_section_nodes k ip s = Inr (entered i (search_recovery_idx k ip s) s)"
proof -
  let ?f = "search_recovery_idx k ip s"
  have r: "cpu_ok s" "\<And>n. free_lock (LkRecLk n) s" "\<And>n. free_lock (LkRec n) s" "curproc s = Some p"
    "rcs_find (pid (procs s p)) s = Some i" using assms(1) by (simp_all add: rcs_ready_def)
  have f: "0 \<le> ?f" "?f < RL_NFLAGS" using assms(2) by (auto simp: real_flag_def)
  have "enter_recovery_critical_section ?f 0 (saved s) =
      Inr (saved (set_hist i (hist_add ?f (hist (rcs_infos (saved s) i))) (counted ?f 0 (saved s))))"
    by (rule enter_ok) (use r f in simp_all)
  moreover have "\<not> locked (locks s (LkRec (nat ?f)))" using r(3) by (simp add: free_lock_def)
  ultimately show ?thesis
    using r(1) f by (simp add: enter_recovery_critical_section_nodes_def Let_def locking_ok)
      (simp add: entered_def set_hist_def counted_def)
qed

lemma nodes_exit:
  assumes "rcs_ready p i s" and "real_flag (search_recovery_idx k ip s)" and "length (open_sections i s) < RCS_HIST"
  shows "exit_recovery_critical_section_nodes k ip (entered i (search_recovery_idx k ip s) s) = Inr (saved s)"
proof -
  let ?f = "search_recovery_idx k ip s"
  let ?h = "hist (rcs_infos s i)"
  let ?e = "entered i ?f s"
  have r: "cpu_ok s" "\<And>n. free_lock (LkRecLk n) s" "\<And>n. free_lock (LkRec n) s" "curproc s = Some p"
    "rcs_find (pid (procs s p)) s = Some i" "hist_ok ?h" using assms(1) by (simp_all add: rcs_ready_def)
  have f: "0 \<le> ?f" "?f < RL_NFLAGS" "?f \<noteq> 0" using assms(2) by (auto simp: real_flag_def)
  have del: "hist_del ?f (hist_add ?f ?h) = ?h"
    using hist_del_add [OF r(6) f(3)] assms(3) by (simp add: open_sections_def)
  have "exit_recovery_critical_section ?f 0 ?e =
      Inr (saved (set_hist i (hist_del ?f (hist (rcs_infos ?e i))) (uncounted ?f 0 ?e)))"
    by (rule exit_ok) (use r f in \<open>simp_all add: entered_def\<close>)
  moreover have "set_hist i (hist_del ?f (hist (rcs_infos ?e i))) (uncounted ?f 0 ?e) = saved s"
    using left_section [of ?h s i ?f] by (simp add: entered_def del)
  moreover have "search_recovery_idx k ip ?e = ?f" by (simp add: entered_def)
  ultimately show ?thesis
    using f by (simp add: exit_recovery_critical_section_nodes_def Let_def bad_flag_def)
qed

lemma iget_scan_ok:
  assumes "rcs_ready p i s" and "length (open_sections i s) < RCS_HIST" and "saved s = s"
    and "\<forall>ip \<in> set ips. real_flag (search_recovery_idx RL_INODE ip s)"
  shows "iget_scan d n ips e s = Inr (iget_find d n (ino s) ips e,
    case iget_find d n (ino s) ips e of Inl ip \<Rightarrow> entered i (search_recovery_idx RL_INODE ip s) s | Inr _ \<Rightarrow> s)"
  using assms(4)
proof (induction ips arbitrary: e)
  case (Cons ip ips)
  have f: "real_flag (search_recovery_idx RL_INODE ip s)" using Cons.prems by simp
  note en = nodes_enter [OF assms(1) f] and ex = nodes_exit [OF assms(1) f assms(2), unfolded assms(3)]
  show ?case
    using Cons.IH Cons.prems
    by (cases "find (\<lambda>ip. cached_inode d n (ino s ip)) ips") (auto simp: en ex iget_find_def)
qed (simp add: iget_find_def)

definition entries :: "'a fsstate_scheme \<Rightarrow> nat list" where
  "entries s = map (iarr s) [0..<NINODE]"

definition one_entry :: "'a fsstate_scheme \<Rightarrow> bool" where
  "one_entry s \<longleftrightarrow> (\<forall>a \<in> set (entries s). \<forall>b \<in> set (entries s). iref (ino s a) > 0 \<longrightarrow> iref (ino s b) > 0 \<longrightarrow>
     idev (ino s a) = idev (ino s b) \<longrightarrow> inum (ino s a) = inum (ino s b) \<longrightarrow> a = b)"

lemma iget_ok:
  assumes "icache_ready p i s" and "free_lock LkIcache s"
    and "iget_find d n (ino s) (entries s) None = r" and "r \<noteq> Inr None"
  obtains ip t where "iget d n s = Inr (ip, t)" and "ip \<in> set (entries s)" and "iarr t = iarr s"
    and "r = Inl ip \<and> cached_inode d n (ino s ip) \<and> ino t = (ino s)(ip := (ino s ip)\<lparr>iref := iref (ino s ip) + 1\<rparr>) \<or>
      r = Inr (Some ip) \<and> iref (ino s ip) = 0 \<and> (\<forall>a \<in> set (entries s). \<not> cached_inode d n (ino s a)) \<and>
      ino t = (ino s)(ip := (ino s ip)\<lparr>idev := d, inum := n, iref := 1, ivalid := False\<rparr>)"
proof -
  let ?T = "taken LkIcache s" and ?f = "\<lambda>ip. search_recovery_idx RL_INODE ip s"
  have r: "rcs_ready p i s" "length (open_sections i s) < RCS_HIST" "cpu_ok s" "cpu_ok ?T"
    "\<And>ip. ip \<in> set (entries s) \<Longrightarrow> real_flag (?f ip)"
    using assms(1) by (auto simp: icache_ready_def rcs_ready_def entries_def)
  have T: "rcs_ready p i ?T" "length (open_sections i ?T) < RCS_HIST" "saved ?T = ?T"
    using r by (simp_all add: rcs_ready_def open_sections_def curproc_def rcs_find_def)
  have scan: "iget_scan d n (entries s) None ?T = Inr (r, case r of
      Inl ip \<Rightarrow> entered i (?f ip) ?T | Inr _ \<Rightarrow> ?T)"
    using iget_scan_ok [OF T, of "entries s" d n None] r(5) assms(3) by (cases r) simp_all
  have eT: "entries ?T = entries s" by (simp add: entries_def)
  have acq: "acquire LkIcache s = Inr ?T" using r(3) assms(2) by (simp add: lock_simps)
  have ent: "entered i f ?T = taken LkIcache (entered i f s)" for f
    using r(3) by (simp add: entered_def set_hist_def counted_def)
  have rel: "release LkIcache (upd_ino ip g (entered i f ?T)) = Inr (saved (upd_ino ip g (entered i f s)))" for ip g f
    unfolding ent fs_float
    by (rule release_taken) (use r(3) assms(2) in \<open>simp_all add: entered_def\<close>)
  show ?thesis
  proof (cases r)
    case (Inl ip)
    then have ip: "ip \<in> set (entries s)" "cached_inode d n (ino s ip)"
      using assms(3) by (auto simp: iget_find_def find_Some_iff split: option.splits)
    have "iget d n s = Inr (ip, saved (upd_ino ip (\<lambda>x. x\<lparr>iref := iref x + 1\<rparr>) (entered i (?f ip) s)))"
      using Inl scan rel by (simp add: iget_def acq entries_def [symmetric] eT del: fs_float)
    from that [OF this ip(1)] show ?thesis using ip Inl by (simp add: entered_def)
  next
    case (Inr e)
    then obtain ip where e: "e = Some ip" using assms(4) by (cases e) auto
    then have ip: "ip \<in> set (entries s)" "iref (ino s ip) = 0" "\<forall>a \<in> set (entries s). \<not> cached_inode d n (ino s a)"
      using assms(3) Inr by (auto simp: iget_find_def find_Some_iff find_None_iff split: option.splits)
    have "enter_recovery_critical_section_nodes RL_INODE ip ?T = Inr (entered i (?f ip) ?T)"
      using nodes_enter [OF T(1), of RL_INODE ip] r(5) [OF ip(1)] by simp
    then have "iget d n s = Inr (ip, saved (upd_ino ip (\<lambda>x. x\<lparr>idev := d, inum := n, iref := 1, ivalid := False\<rparr>)
        (entered i (?f ip) s)))"
      using Inr e scan rel by (simp add: iget_def acq entries_def [symmetric] eT del: fs_float)
    from that [OF this ip(1)] show ?thesis using ip Inr e by (simp add: entered_def)
  qed
qed


definition demo_icache :: fsstate where
  "demo_icache = init_recovery_lock_idx
     (demo_fs\<lparr>iarr := inode_at (icache_at demo_fs), ino := (\<lambda>_. demo_inode\<lparr>iref := 0\<rparr>)\<rparr>)"

lemma demo_icache_ready: "icache_ready 0 0 demo_icache" "free_lock LkIcache demo_icache"
proof -
  let ?s = "demo_fs\<lparr>iarr := inode_at (icache_at demo_fs), ino := (\<lambda>_. demo_inode\<lparr>iref := 0\<rparr>)\<rparr>"
  have "search_recovery_idx RL_INODE (iarr demo_icache j) demo_icache = 138 + int j" if "j < NINODE" for j
    using flag_of_init [of "ObjInode j" ?s] that by (simp add: demo_icache_def init_recovery_lock_idx_def)
  moreover have "rcs_ready 0 0 demo_icache" "open_sections 0 demo_icache = open_sections 0 demo_fs"
    "free_lock LkIcache demo_icache = free_lock LkIcache demo_fs"
    using demo_log_ready
    by (simp_all add: log_ready_def rcs_ready_def demo_icache_def init_recovery_lock_idx_def open_sections_def
        cpu_ok_def free_lock_def curproc_def rcs_find_def)
  moreover have "free_lock LkIcache demo_fs"
    by (simp add: free_lock_def demo_fs_def memstate.defs ptdupstate.defs pipestate.defs consstate.defs logstate.defs fsstate.defs boot_mem_def transtate.defs
        boot_tr_def boot_rl_def boot_sched_def boot_mach_def mach.defs sched.defs rlstate.defs)
  ultimately show "icache_ready 0 0 demo_icache" "free_lock LkIcache demo_icache"
    using demo_log_ready by (simp_all add: icache_ready_def real_flag_def log_ready_def)
qed


end
