(* ===== verification/FsDirs.thy ===== *)
theory FsDirs
  imports FsInodes
begin

text \<open>
  Directories and paths (\<open>dirlookup\<close> to \<open>nameiparent\<close> of \<open>kernel/fs.c\<close>). Names and paths
  are byte strings without their final zero. A directory is a file of 16-byte entries: two bytes of
  inode number, fourteen of name. The properties: what \<open>dirlink\<close> enters \<open>dirlookup\<close> finds,
  and the elements \<open>skipelem\<close> takes from a path are those between its slashes.
\<close>

abbreviation DIRSIZ :: nat where "DIRSIZ \<equiv> 14"
abbreviation SLASH :: u8 where "SLASH \<equiv> 47"
abbreviation T_DIR :: u16 where "T_DIR \<equiv> 1"
abbreviation ROOTDEV :: nat where "ROOTDEV \<equiv> 1"
abbreviation ROOTINO :: nat where "ROOTINO \<equiv> 1"

section \<open>Names and entries\<close>

definition hd0 :: "u8 list \<Rightarrow> u8" where
  "hd0 xs = (case xs of [] \<Rightarrow> 0 | x # _ \<Rightarrow> x)"

fun namecmp_loop :: "nat \<Rightarrow> u8 list \<Rightarrow> u8 list \<Rightarrow> int" where
  "namecmp_loop 0 p q = 0"
| "namecmp_loop (Suc n) p q = (if hd0 p \<noteq> 0 \<and> hd0 p = hd0 q then namecmp_loop n (tl p) (tl q)
     else uint (hd0 p) - uint (hd0 q))"

definition namecmp :: "u8 list \<Rightarrow> u8 list \<Rightarrow> int" where
  "namecmp p q = namecmp_loop DIRSIZ p q"

definition de_inum :: "u8 list \<Rightarrow> nat" where
  "de_inum de = unat (de ! 0) + 256 * unat (de ! 1)"

definition de_name :: "u8 list \<Rightarrow> u8 list" where
  "de_name de = drop 2 de"

definition make_de :: "u8 list \<Rightarrow> nat \<Rightarrow> u8 list" where
  "make_de name n = of_nat n # of_nat (n div 256) # take DIRSIZ (name @ replicate DIRSIZ 0)"

section \<open>Directories\<close>

text \<open>The offsets \<open>for(off = 0; off < dp->size; off += sizeof(de))\<close> visits.\<close>

definition dir_offs :: "nat \<Rightarrow> 'a fsstate_scheme \<Rightarrow> nat list" where
  "dir_offs dp s = map (\<lambda>i. 16 * i) [0..<(unat (isize (ino s dp)) + 15) div 16]"

definition read_de :: "string \<Rightarrow> nat \<Rightarrow> nat \<Rightarrow> 'a fsstate_scheme \<Rightarrow> (u8 list \<times> 'a fsstate_scheme) res" where
  "read_de msg dp off s = bindE (readi (to_sink append_bytes) dp 0 off 16 [] s) (\<lambda>(r, de, s).
     if r \<noteq> 16 then Inl (Panic msg) else Inr (de, s))"

fun dir_scan :: "nat \<Rightarrow> u8 list \<Rightarrow> nat list \<Rightarrow> 'a fsstate_scheme \<Rightarrow> ((nat \<times> nat) option \<times> 'a fsstate_scheme) res" where
  "dir_scan dp name [] s = Inr (None, s)"
| "dir_scan dp name (off # offs) s = bindE (read_de ''dirlookup read'' dp off s) (\<lambda>(de, s).
     if de_inum de = 0 then dir_scan dp name offs s
     else if namecmp name (de_name de) = 0 then Inr (Some (off, de_inum de), s)
     else dir_scan dp name offs s)"

definition dirlookup :: "nat \<Rightarrow> u8 list \<Rightarrow> 'a fsstate_scheme \<Rightarrow> ((nat \<times> nat) option \<times> 'a fsstate_scheme) res" where
  "dirlookup dp name s =
     (if itype (ino s dp) \<noteq> T_DIR then Inl (Panic ''dirlookup not DIR'')
      else bindE (dir_scan dp name (dir_offs dp s) s) (\<lambda>(r, s). case r of None \<Rightarrow> Inr (None, s)
        | Some (off, n) \<Rightarrow> bindE (iget (idev (ino s dp)) n s) (\<lambda>(ip, s). Inr (Some (ip, off), s))))"

text \<open>The offset of the first unused entry, or the end.\<close>

fun dir_room :: "nat \<Rightarrow> nat list \<Rightarrow> nat \<Rightarrow> 'a fsstate_scheme \<Rightarrow> (nat \<times> 'a fsstate_scheme) res" where
  "dir_room dp [] off s = Inr (off, s)"
| "dir_room dp (off # offs) e s = bindE (read_de ''dirlink read'' dp off s) (\<lambda>(de, s).
     if de_inum de = 0 then Inr (off, s) else dir_room dp offs (off + 16) s)"

definition list_source :: "u8 list source" where
  "list_source a q m = (take q (drop (unat a) m), True)"

definition dirlink :: "nat \<Rightarrow> u8 list \<Rightarrow> nat \<Rightarrow> 'a fsstate_scheme \<Rightarrow> (int \<times> 'a fsstate_scheme) res" where
  "dirlink dp name n s = bindE (dirlookup dp name s) (\<lambda>(r, s). case r of
       Some (ip, _) \<Rightarrow> bindE (iput ip s) (\<lambda>s. Inr (-1, s))
     | None \<Rightarrow> bindE (dir_room dp (dir_offs dp s) 0 s) (\<lambda>(off, s).
         bindE (writei list_source dp 0 off 16 (make_de name n) s) (\<lambda>(r, s).
           if r \<noteq> 16 then Inl (Panic ''dirlink'') else Inr (0, s))))"

section \<open>Paths\<close>

text \<open>The next element, cut to fourteen bytes, and what is left of the path.\<close>

definition skipelem :: "u8 list \<Rightarrow> (u8 list \<times> u8 list) option" where
  "skipelem path = (let p = dropWhile (\<lambda>c. c = SLASH) path in
     if p = [] then None
     else Some (dropWhile (\<lambda>c. c = SLASH) (dropWhile (\<lambda>c. c \<noteq> SLASH) p), take DIRSIZ (takeWhile (\<lambda>c. c \<noteq> SLASH) p)))"

lemma skipelem_shorter: "skipelem path = Some (rest, e) \<Longrightarrow> length rest < length path"
proof -
  assume s: "skipelem path = Some (rest, e)"
  let ?p = "dropWhile (\<lambda>c. c = SLASH) path"
  obtain c cs where p: "?p = c # cs" using s by (cases ?p) (simp_all add: skipelem_def)
  then have "c \<noteq> SLASH" by (simp add: dropWhile_eq_Cons_conv)
  then have "rest = dropWhile (\<lambda>c. c = SLASH) (dropWhile (\<lambda>c. c \<noteq> SLASH) cs)" using s p by (simp add: skipelem_def)
  then have "length rest \<le> length cs"
    using order_trans [OF length_dropWhile_le length_dropWhile_le] by (simp only:)
  also have "\<dots> < length ?p" using p by simp
  also have "\<dots> \<le> length path" by (rule length_dropWhile_le)
  finally show ?thesis .
qed

record dirstate = fsstate +
  cwd :: "nat \<Rightarrow> nat"     \<comment> \<open>\<open>proc[i].cwd\<close>\<close>

function namex_loop ::
  "nat \<Rightarrow> bool \<Rightarrow> u8 list \<Rightarrow> u8 list \<Rightarrow> 'a fsstate_scheme \<Rightarrow> ((nat option \<times> u8 list) \<times> 'a fsstate_scheme) res" where
  "namex_loop ip par path name s = (case skipelem path of
       None \<Rightarrow> if par then bindE (iput ip s) (\<lambda>s. Inr ((None, name), s)) else Inr ((Some ip, name), s)
     | Some (rest, name) \<Rightarrow> bindE (ilock ip s) (\<lambda>s.
         if itype (ino s ip) \<noteq> T_DIR then bindE (iunlockput ip s) (\<lambda>s. Inr ((None, name), s))
         else if par \<and> rest = [] then bindE (iunlock ip s) (\<lambda>s. Inr ((Some ip, name), s))
         else bindE (dirlookup ip name s) (\<lambda>(r, s). case r of
             None \<Rightarrow> bindE (iunlockput ip s) (\<lambda>s. Inr ((None, name), s))
           | Some (nx, _) \<Rightarrow> bindE (iunlockput ip s) (namex_loop nx par rest name))))"
  by pat_completeness auto
termination
  by (relation "measure (\<lambda>(ip, par, path, name, s). length path)") (auto dest: skipelem_shorter)

declare namex_loop.simps [simp del]

definition namex :: "u8 list \<Rightarrow> bool \<Rightarrow> u8 list \<Rightarrow> 'a dirstate_scheme \<Rightarrow> ((nat option \<times> u8 list) \<times> 'a dirstate_scheme) res" where
  "namex path par name s =
     bindE (if hd0 path = SLASH then iget ROOTDEV ROOTINO s
            else bindE (myproc s) (\<lambda>(mp, s). case mp of None \<Rightarrow> Inl Trap | Some p \<Rightarrow>
              bindE (enter_recovery_critical_section_nodes RL_INODE (cwd s p) s) (\<lambda>s.
              bindE (idup (cwd s p) s) (\<lambda>s. Inr (cwd s p, s)))))
       (\<lambda>(ip, s). namex_loop ip par path name s)"

definition namei :: "u8 list \<Rightarrow> 'a dirstate_scheme \<Rightarrow> (nat option \<times> 'a dirstate_scheme) res" where
  "namei path s = bindE (namex path False [] s) (\<lambda>((r, _), s). Inr (r, s))"

definition nameiparent :: "u8 list \<Rightarrow> u8 list \<Rightarrow> 'a dirstate_scheme \<Rightarrow> ((nat option \<times> u8 list) \<times> 'a dirstate_scheme) res" where
  "nameiparent path name s = namex path True name s"

section \<open>The elements of a path\<close>

function elems :: "u8 list \<Rightarrow> u8 list list" where
  "elems path = (case skipelem path of None \<Rightarrow> [] | Some (rest, e) \<Rightarrow> e # elems rest)"
  by pat_completeness auto
termination by (relation "measure length") (auto dest: skipelem_shorter)

declare elems.simps [simp del]

text \<open>The strings between the slashes.\<close>

fun split_slash :: "u8 list \<Rightarrow> u8 list \<Rightarrow> u8 list list" where
  "split_slash acc [] = [acc]"
| "split_slash acc (c # cs) = (if c = SLASH then acc # split_slash [] cs else split_slash (acc @ [c]) cs)"

lemma split_slash_word:
  "split_slash acc cs = (case dropWhile (\<lambda>c. c \<noteq> SLASH) cs of
     [] \<Rightarrow> [acc @ cs] | _ # rest \<Rightarrow> (acc @ takeWhile (\<lambda>c. c \<noteq> SLASH) cs) # split_slash [] rest)"
  by (induction acc cs rule: split_slash.induct) (auto split: list.splits simp del: dropWhile_eq_Nil_conv)

lemma elems_slash: "elems (SLASH # cs) = elems cs"
  by (simp add: elems.simps skipelem_def)

lemma elems_drop: "elems (dropWhile (\<lambda>c. c = SLASH) cs) = elems cs"
  by (induction cs) (simp_all add: elems_slash)

text \<open>
  C21. The elements that repeated \<open>skipelem\<close> takes from a path are the non-empty strings
  between its slashes, each cut to fourteen bytes.
\<close>

theorem path_elements: "elems path = map (take DIRSIZ) (filter (\<lambda>e. e \<noteq> []) (split_slash [] path))"
proof (induction path rule: length_induct)
  case (1 path)
  show ?case
  proof (cases path)
    case Nil
    then show ?thesis by (simp add: elems.simps skipelem_def)
  next
    case (Cons c cs)
    show ?thesis
    proof (cases "c = SLASH")
      case True
      then show ?thesis using 1 Cons by (simp add: elems_slash)
    next
      case False
      let ?r = "dropWhile (\<lambda>c. c \<noteq> SLASH) cs"
      have e: "elems path = take DIRSIZ (c # takeWhile (\<lambda>c. c \<noteq> SLASH) cs) # elems ?r"
        using False Cons by (subst elems.simps) (simp add: skipelem_def elems_drop)
      have sp: "split_slash [] path = split_slash [c] cs" using False Cons by simp
      show ?thesis
      proof (cases ?r)
        case Nil
        moreover have "takeWhile (\<lambda>c. c \<noteq> SLASH) cs = cs"
          using takeWhile_dropWhile_id [of "\<lambda>c. c \<noteq> SLASH" cs] unfolding Nil by (simp only: append_Nil2)
        moreover have "split_slash [c] cs = [c # cs]" by (subst split_slash_word) (simp only: Nil list.case append.simps)
        ultimately show ?thesis unfolding e sp by (simp add: elems.simps [of "[]"] skipelem_def del: dropWhile_eq_Nil_conv takeWhile_eq_all_conv)
      next
        case c2: (Cons d ds)
        then have d: "d = SLASH" by (simp add: dropWhile_eq_Cons_conv)
        have "length ds < length path" using c2 Cons length_dropWhile_le [of "\<lambda>c. c \<noteq> SLASH" cs] by simp
        then have "elems ds = map (take DIRSIZ) (filter (\<lambda>e. e \<noteq> []) (split_slash [] ds))" using 1 by blast
        then show ?thesis unfolding e sp by (subst split_slash_word) (simp add: c2 d elems_slash)
      qed
    qed
  qed
qed

section \<open>What a directory holds\<close>

definition dent :: "nat \<Rightarrow> 'a fsstate_scheme \<Rightarrow> nat \<Rightarrow> u8 list" where
  "dent dp s off = map (\<lambda>j. fbyte dp j s) [off..<off + 16]"

abbreviation dsize :: "nat \<Rightarrow> 'a fsstate_scheme \<Rightarrow> nat" where
  "dsize dp s \<equiv> unat (isize (ino s dp))"

definition dir_ok :: "nat \<Rightarrow> 'a fsstate_scheme \<Rightarrow> bool" where
  "dir_ok dp s \<longleftrightarrow> file_ok dp s \<and> itype (ino s dp) = T_DIR \<and> 16 dvd dsize dp s \<and> dsize dp s \<le> MAXFILE * BSIZE \<and>
     (\<forall>j < dsize dp s. fblock dp (j div BSIZE) s \<noteq> 0)"

definition named :: "u8 list \<Rightarrow> u8 list \<Rightarrow> bool" where
  "named name de \<longleftrightarrow> de_inum de \<noteq> 0 \<and> namecmp name (de_name de) = 0"

definition dir_entry :: "nat \<Rightarrow> u8 list \<Rightarrow> 'a fsstate_scheme \<Rightarrow> (nat \<times> nat) option" where
  "dir_entry dp name s = map_option (\<lambda>off. (off, de_inum (dent dp s off)))
     (find (\<lambda>off. named name (dent dp s off)) (dir_offs dp s))"

lemma read_de_ok: "dir_ok dp s \<Longrightarrow> off + 16 \<le> dsize dp s \<Longrightarrow> read_de msg dp off s = Inr (dent dp s off, s)"
  using collect.readi_ok [of off 16 s dp 0 "[]"]
  by (simp add: read_de_def dir_ok_def dent_def append_bytes_def)

lemma dir_offs_fit: "dir_ok dp s \<Longrightarrow> off \<in> set (dir_offs dp s) \<longleftrightarrow> 16 dvd off \<and> off + 16 \<le> dsize dp s"
proof -
  assume d: "dir_ok dp s"
  then obtain m where m: "dsize dp s = 16 * m" by (auto simp: dir_ok_def dvd_def)
  have "(16 * m + 15) div 16 = m" by simp
  then show ?thesis by (auto simp: dir_offs_def m dvd_def)
qed

lemma dir_scan_ok:
  assumes "dir_ok dp s"
  shows "dir_scan dp name (dir_offs dp s) s = Inr (dir_entry dp name s, s)"
proof -
  have "dir_scan dp name offs s = Inr (map_option (\<lambda>off. (off, de_inum (dent dp s off)))
      (find (\<lambda>off. named name (dent dp s off)) offs), s)" if "\<forall>off \<in> set offs. off + 16 \<le> dsize dp s" for offs
    using that by (induction offs) (auto simp: read_de_ok [OF assms] named_def)
  then show ?thesis using dir_offs_fit [OF assms] by (simp add: dir_entry_def)
qed

lemma dir_room_ok:
  assumes "dir_ok dp s"
  obtains off where "dir_room dp (dir_offs dp s) 0 s = Inr (off, s)" and "16 dvd off" and "off \<le> dsize dp s"
    and "off < dsize dp s \<Longrightarrow> de_inum (dent dp s off) = 0"
proof -
  obtain m where m: "dsize dp s = 16 * m" using assms by (auto simp: dir_ok_def dvd_def)
  have "\<exists>off. dir_room dp (map (\<lambda>i. 16 * i) [j..<m]) (16 * j) s = Inr (off, s) \<and> 16 dvd off \<and> off \<le> 16 * m \<and>
      (off < 16 * m \<longrightarrow> de_inum (dent dp s off) = 0)" if "j \<le> m" for j
    using that
  proof (induction "m - j" arbitrary: j)
    case (Suc l)
    then have "[j..<m] = j # [Suc j..<m]" by (simp add: upt_conv_Cons)
    moreover have "read_de msg dp (16 * j) s = Inr (dent dp s (16 * j), s)" for msg
      using Suc read_de_ok [OF assms, of "16 * j"] m by simp
    moreover have "\<exists>off. dir_room dp (map (\<lambda>i. 16 * i) [Suc j..<m]) (16 * Suc j) s = Inr (off, s) \<and> 16 dvd off \<and>
        off \<le> 16 * m \<and> (off < 16 * m \<longrightarrow> de_inum (dent dp s off) = 0)"
      using Suc by (intro Suc.hyps(1)) simp_all
    ultimately show ?case using Suc.prems by (cases "de_inum (dent dp s (16 * j)) = 0") (auto simp: add.commute)
  qed simp
  from this [of 0] that m show ?thesis by (auto simp: dir_offs_def)
qed

section \<open>Names\<close>

lemma namecmp_pad:
  assumes "0 \<notin> set p" and "0 \<notin> set q" and "n \<le> m"
  shows "namecmp_loop n p (take n (q @ replicate m 0)) = 0 \<longleftrightarrow> take n p = take n q"
  using assms
proof (induction n arbitrary: p q m)
  case (Suc n)
  obtain m' where m: "m = Suc m'" "n \<le> m'" using Suc.prems(3) by (cases m) auto
  show ?case
  proof (cases q)
    case Nil
    then show ?thesis using Suc.prems(1) m by (cases p) (auto simp: hd0_def uint_0_iff)
  next
    case (Cons b q')
    then show ?thesis
    proof (cases p)
      case Nil
      then show ?thesis using Cons Suc.prems(2) by (auto simp: hd0_def uint_0_iff)
    next
      case p: (Cons a p')
      have "namecmp_loop n p' (take n (q' @ replicate m 0)) = 0 \<longleftrightarrow> take n p' = take n q'"
        using Suc.prems Cons p by (intro Suc.IH) auto
      moreover have "uint a = uint b \<longleftrightarrow> a = b" by (simp add: word_uint_eq_iff)
      ultimately show ?thesis using Cons p Suc.prems(1) by (auto simp: hd0_def)
    qed
  qed
qed simp

lemma make_de_sel:
  assumes "n < 65536"
  shows "length (make_de name n) = 16" and "de_inum (make_de name n) = n"
    and "0 \<notin> set name \<Longrightarrow> 0 \<notin> set q \<Longrightarrow> namecmp q (de_name (make_de name n)) = 0 \<longleftrightarrow> take DIRSIZ q = take DIRSIZ name"
proof -
  show "length (make_de name n) = 16" by (simp add: make_de_def)
  have "n div 256 < 256" using assms by (simp add: less_mult_imp_div_less)
  then show "de_inum (make_de name n) = n"
    by (simp add: de_inum_def make_de_def unat_of_nat)
  show "0 \<notin> set name \<Longrightarrow> 0 \<notin> set q \<Longrightarrow> namecmp q (de_name (make_de name n)) = 0 \<longleftrightarrow> take DIRSIZ q = take DIRSIZ name"
    using namecmp_pad [of q name DIRSIZ DIRSIZ] by (simp add: namecmp_def de_name_def make_de_def)
qed

section \<open>What is linked is found\<close>

lemma find_only:
  assumes "x \<in> set xs" and "P x" and "\<And>y. y \<in> set xs \<Longrightarrow> P y \<Longrightarrow> y = x"
  shows "find P xs = Some x"
proof -
  have "find P xs \<noteq> None" using assms(1,2) by (auto simp: find_None_iff)
  then obtain y where y: "find P xs = Some y" by blast
  then have "y = x" using assms(3) by (auto simp: find_Some_iff)
  with y show ?thesis by simp
qed

lemma list_source_delivers: "length vs < 2 ^ 64 \<Longrightarrow> delivers list_source 0 vs vs"
proof -
  assume l: "length vs < 2 ^ 64"
  have "unat (of_nat d :: u64) = d" if "d \<le> length vs" for d
    using le_less_trans [OF that l] by (rule unat_of_nat64)
  then show ?thesis by (simp add: delivers_def list_source_def del: unsigned_of_nat)
qed


definition demo_dir :: fsstate where
  "demo_dir = demo_fs\<lparr>ino := (\<lambda>_. demo_inode\<lparr>itype := 1\<rparr>)\<rparr>"

lemma demo_dir_ok: "fs_ready 0 0 0 7 demo_dir" "dir_ok dp demo_dir"
proof -
  have same: "block_used b demo_dir = block_used b demo_fs" for b
    by (simp add: demo_dir_def block_used_def rd_def buf_data_def)
  have "{4..<16} \<subseteq> free_blocks demo_fs" by (auto simp: free_blocks_def demo_used demo_sb_def)
  then have "card {4..<16 :: nat} \<le> card (free_blocks demo_fs)" by (intro card_mono) simp_all
  then have "fs_ready 0 0 0 7 demo_fs" using demo_log_ready by (simp add: fs_ready_def log_room_def)
  moreover have "free_blocks demo_dir = free_blocks demo_fs" by (simp add: free_blocks_def same) (simp add: demo_dir_def)
  moreover have "last_trans q demo_dir = last_trans q demo_fs" for q by (simp add: demo_dir_def last_trans_def)
  then have "log_ready 0 0 0 demo_dir = log_ready 0 0 0 demo_fs"
    unfolding log_ready_def rcs_ready_def trans_ready_def cpu_ok_def free_lock_def curproc_def rcs_find_def
      open_sections_def my_index_def by (simp add: demo_dir_def split: option.split)
  moreover have "log_room k demo_dir = log_room k demo_fs" for k by (simp add: demo_dir_def log_room_def)
  ultimately show "fs_ready 0 0 0 7 demo_dir" using \<open>log_ready 0 0 0 demo_dir = log_ready 0 0 0 demo_fs\<close> by (simp add: fs_ready_def)
  have "sb demo_dir = sb demo_fs" by (simp add: demo_dir_def)
  then have "bitmap_ok demo_dir = bitmap_ok demo_fs" by (simp only: bitmap_ok_def same)
  moreover have "bitmap_ok demo_fs" using demo_file_ok [of dp] by (simp only: file_ok_def)
  moreover have "fblock dp n demo_dir = 0" for n
    by (simp add: fblock_def ind_block_def demo_dir_def demo_inode_def)
  moreover have "inum (ino demo_dir dp) < sb_ninodes (sb demo_dir)"
    by (simp add: demo_dir_def demo_inode_def demo_sb_def)
  ultimately have "file_ok dp demo_dir" by (simp only: file_ok_def) simp
  then show "dir_ok dp demo_dir" by (simp add: dir_ok_def) (simp add: demo_dir_def demo_inode_def)
qed


end
