(* ===== verification/Frames.thy ===== *)
theory Frames
  imports Sections
begin

text \<open>
  What sections, sleep locks and wakeups leave alone. \<open>core\<close> masks the fields they are about:
  two states with the same core agree in everything else, the data of every component among it.
  The laws of entering and leaving a section are stated again with their frame, for callers
  that work on data between the two.
\<close>

definition core :: "'a rlstate_scheme \<Rightarrow> 'a rlstate_scheme" where
  "core s = s\<lparr>intena := (\<lambda>_. False), procs := (\<lambda>i. (procs s i)\<lparr>pstate := UNUSED\<rparr>),
     slocks := (\<lambda>_. \<lparr>slocked = False, slname = [], spid = 0\<rparr>),
     rl_num := (\<lambda>_. 0), rl_exc := (\<lambda>_. 0), rcs_infos := (\<lambda>i. (rcs_infos s i)\<lparr>hist := []\<rparr>)\<rparr>"

lemma core_saved [simp]: "core (saved s) = core s"
  by (simp add: core_def saved_def)

lemma core_sections [simp]:
  "core (set_hist i h s) = core s" "core (counted f e s) = core s" "core (uncounted f e s) = core s"
  "core (set_slock n b q s) = core s"
  by (simp_all add: core_def set_hist_def counted_def uncounted_def set_slock_def fun_eq_iff)

lemma core_wakeup [simp]:
  "core (s\<lparr>procs := (\<lambda>j. if j < NPROC then wakeup_proc c (procs s j) else procs s j)\<rparr>) = core s"
proof -
  have "(\<lambda>j. (if j < NPROC then wakeup_proc c (procs s j) else procs s j)\<lparr>pstate := UNUSED\<rparr>) =
      (\<lambda>j. (procs s j)\<lparr>pstate := UNUSED\<rparr>)" by (simp add: fun_eq_iff wakeup_proc_def)
  then show ?thesis by (simp add: core_def)
qed

lemma same_core:
  assumes "core t = core s"
  shows "locks t = locks s" and "noff t = noff s" and "sie t = sie s" and "hart t = hart s"
    and "cproc t = cproc s" and "pid (procs t q) = pid (procs s q)" and "killed (procs t q) = killed (procs s q)"
    and "cpu_ok t = cpu_ok s" and "free_lock lk t = free_lock lk s" and "procs_free t = procs_free s"
    and "curproc t = curproc s" and "curpid t = curpid s" and "rcs_find n t = rcs_find n s"
    and "search_recovery_idx k a t = search_recovery_idx k a s"
proof -
  have f: "\<And>g. g (core t) = g (core s)" using assms by simp
  show l: "locks t = locks s" and n: "noff t = noff s" and i: "sie t = sie s" and h: "hart t = hart s"
    and c: "cproc t = cproc s"
    using f [of locks] f [of noff] f [of sie] f [of hart] f [of cproc] by (simp_all add: core_def)
  show p: "pid (procs t q) = pid (procs s q)" "killed (procs t q) = killed (procs s q)" for q
    using f [of "\<lambda>s. pid (procs s q)"] f [of "\<lambda>s. killed (procs s q)"] by (simp_all add: core_def)
  show "cpu_ok t = cpu_ok s" by (simp add: cpu_ok_def n i h)
  show lk: "free_lock lk t = free_lock lk s" for lk by (simp add: free_lock_def l)
  show "procs_free t = procs_free s" by (simp add: procs_free_def lk)
  show cp: "curproc t = curproc s" by (simp add: curproc_def c h)
  show "curpid t = curpid s" by (simp add: curpid_def cp p split: option.split)
  have "rpid (rcs_infos t j) = rpid (rcs_infos s j)" for j
    using f [of "\<lambda>s. rpid (rcs_infos s j)"] by (simp add: core_def)
  then show "rcs_find n t = rcs_find n s" by (simp add: rcs_find_def)
  have "buf_idx t = buf_idx s" "file_idx t = file_idx s" "inode_idx t = inode_idx s"
    using f [of buf_idx] f [of file_idx] f [of inode_idx] by (simp_all add: core_def)
  then show "search_recovery_idx k a t = search_recovery_idx k a s"
    by (simp add: search_recovery_idx_def cong: option.case_cong)
qed

lemma same_core_ready:
  assumes "core t = core s" and "rcs_ready p i s" and "rcs_infos t = rcs_infos s"
  shows "rcs_ready p i t" and "open_sections i t = open_sections i s"
  using assms(2,3) same_core [OF assms(1)] by (simp_all add: rcs_ready_def open_sections_def)

lemma section_in:
  assumes "rcs_ready p i s" and "real_flag f" and "length (open_sections i s) < RCS_HIST"
  obtains t where "enter_recovery_critical_section f 0 s = Inr t" and "rcs_ready p i t"
    and "open_sections i t = open_sections i s @ [f]" and "core t = core s" and "slocks t = slocks s"
    and "rl_num t = (rl_num s)(nat f := rl_num s (nat f) + 1)"
proof
  let ?t = "saved (set_hist i (hist_add f (hist (rcs_infos s i))) (counted f 0 s))"
  show e: "enter_recovery_critical_section f 0 s = Inr ?t"
    by (rule enter_ok) (use assms in \<open>auto simp: rcs_ready_def real_flag_def\<close>)
  show "rcs_ready p i ?t" "open_sections i ?t = open_sections i s @ [f]"
    using rcs_ready_enter [OF assms] by (simp_all add: e)
  show "slocks ?t = slocks s" by (simp add: set_hist_def counted_def)
qed simp_all

lemma section_out:
  assumes "rcs_ready p i s" and "real_flag f" and "f \<in> set (open_sections i s)"
  obtains t where "exit_recovery_critical_section f 0 s = Inr t" and "rcs_ready p i t"
    and "open_sections i t = remove_last f (open_sections i s)" and "core t = core s" and "slocks t = slocks s"
    and "rl_num t = (rl_num s)(nat f := rl_num s (nat f) - 1)"
proof
  let ?t = "saved (set_hist i (hist_del f (hist (rcs_infos s i))) (uncounted f 0 s))"
  show e: "exit_recovery_critical_section f 0 s = Inr ?t"
    by (rule exit_ok) (use assms in \<open>auto simp: rcs_ready_def real_flag_def\<close>)
  show "rcs_ready p i ?t" "open_sections i ?t = remove_last f (open_sections i s)"
    using rcs_ready_exit [OF assms] by (simp_all add: e)
  show "slocks ?t = slocks s" by (simp add: set_hist_def uncounted_def)
qed simp_all

text \<open>Leaving a section the process is not in: only the count changes.\<close>

lemma section_out_absent:
  assumes "rcs_ready p i s" and "real_flag f" and "f \<notin> set (open_sections i s)"
    and "length (open_sections i s) < RCS_HIST"
  obtains t where "exit_recovery_critical_section f 0 s = Inr t" and "rcs_ready p i t"
    and "open_sections i t = open_sections i s" and "core t = core s" and "slocks t = slocks s"
    and "rl_num t = (rl_num s)(nat f := rl_num s (nat f) - 1)"
proof
  let ?t = "saved (set_hist i (hist_del f (hist (rcs_infos s i))) (uncounted f 0 s))"
  show e: "exit_recovery_critical_section f 0 s = Inr ?t"
    by (rule exit_ok) (use assms in \<open>auto simp: rcs_ready_def real_flag_def\<close>)
  have h: "hist_ok (hist (rcs_infos s i))" "f \<noteq> 0" using assms by (auto simp: rcs_ready_def real_flag_def)
  have "f \<notin> set (hist (rcs_infos s i))" using assms(3) set_hist_abs [OF h(1)] h(2) by (simp add: open_sections_def)
  then show "rcs_ready p i ?t" "open_sections i ?t = open_sections i s"
    using assms hist_del_absent [OF h(1), of f] h(2) by (simp_all add: rcs_ready_def open_sections_def)
  show "slocks ?t = slocks s" by (simp add: set_hist_def uncounted_def)
qed simp_all

lemma node_in:
  assumes "rcs_ready p i s" and "search_recovery_idx k a s = f" and "real_flag f" and "length (open_sections i s) < RCS_HIST"
  obtains t where "enter_recovery_critical_section_nodes k a s = Inr t" and "rcs_ready p i t"
    and "open_sections i t = open_sections i s @ [f]" and "core t = core s" and "slocks t = slocks s"
    and "rl_num t = (rl_num s)(nat f := rl_num s (nat f) + 1)"
proof -
  have r: "rcs_ready p i (saved s)" "open_sections i (saved s) = open_sections i s"
    using assms(1) by (simp_all add: rcs_ready_def open_sections_def)
  have f: "0 \<le> f" "f < RL_NFLAGS" using assms(3) by (auto simp: real_flag_def)
  have "cpu_ok s" "free_lock (LkRec (nat f)) s" using assms(1) by (simp_all add: rcs_ready_def)
  then have "locking (LkRec (nat f)) s = Inr (False, saved s)" by (simp add: locking_ok free_lock_def)
  then have n: "enter_recovery_critical_section_nodes k a s = enter_recovery_critical_section f 0 (saved s)"
    using assms(2) f by (simp add: enter_recovery_critical_section_nodes_def Let_def)
  show thesis
    by (rule section_in [OF r(1) assms(3)]) (use assms(4) r(2) that n in \<open>simp_all\<close>)
qed

lemma node_out:
  assumes "rcs_ready p i s" and "search_recovery_idx k a s = f" and "real_flag f" and "f \<in> set (open_sections i s)"
  obtains t where "exit_recovery_critical_section_nodes k a s = Inr t" and "rcs_ready p i t"
    and "open_sections i t = remove_last f (open_sections i s)" and "core t = core s" and "slocks t = slocks s"
    and "rl_num t = (rl_num s)(nat f := rl_num s (nat f) - 1)"
proof -
  have "\<not> bad_flag f" using assms(3) by (auto simp: real_flag_def bad_flag_def)
  then have n: "exit_recovery_critical_section_nodes k a s = exit_recovery_critical_section f 0 s"
    using assms(2) by (simp add: exit_recovery_critical_section_nodes_def Let_def)
  show thesis by (rule section_out [OF assms(1,3,4)]) (use that n in simp_all)
qed

section \<open>Sleep locks\<close>

lemma sleep_in:
  assumes "cpu_ok s" and "free_lock (LkSleep n) s" and "curpid s = Inr q" and "\<not> slocked (slocks s n)"
  obtains t where "acquiresleep n s = Inr t" and "core t = core s"
    and "slocks t = (slocks s)(n := (slocks s n)\<lparr>slocked := True, spid := q\<rparr>)"
    and "rl_num t = rl_num s" and "rcs_infos t = rcs_infos s"
  by (rule that [OF acquiresleep_ok [OF assms]]) (simp_all, simp_all add: set_slock_def)

lemma sleep_held:
  assumes "cpu_ok s" and "free_lock (LkSleep n) s" and "curpid s = Inr q"
  obtains t where "holdingsleep n s = Inr (slocked (slocks s n) \<and> spid (slocks s n) = q, t)" and "core t = core s"
    and "slocks t = slocks s" and "rl_num t = rl_num s" and "rcs_infos t = rcs_infos s"
  by (rule that [OF holdingsleep_ok [OF assms]]) simp_all

lemma sleep_out:
  assumes "cpu_ok s" and "free_lock (LkSleep n) s" and "procs_free s"
  obtains t where "releasesleep n s = Inr t" and "core t = core s"
    and "slocks t = (slocks s)(n := (slocks s n)\<lparr>slocked := False, spid := 0\<rparr>)"
    and "rl_num t = rl_num s" and "rcs_infos t = rcs_infos s"
  by (rule that [OF releasesleep_ok [OF assms]]) (simp_all, simp_all add: set_slock_def)

end
