(* ===== verification/FileTable.thy ===== *)
theory FileTable
  imports FsDirs Frames
begin

text \<open>
  Open files (\<open>kernel/file.c\<close>, \<open>pipealloc\<close> of \<open>kernel/pipe.c\<close>): the table of files with its
  reference counts, and reading and writing through a file that is a pipe, a device or an inode.
  The memory of the user is reached through the two copies of an \<open>io\<close> record, as in
  \<open>FsBlocks\<close>; the functions of a device are a parameter, like the table \<open>devsw\<close> they come from.
  A call that goes to sleep has the outcome \<open>Blocked\<close>.
\<close>

section \<open>State\<close>

datatype ftype = FD_NONE | FD_PIPE | FD_INODE | FD_DEVICE

record kfile =
  fty :: ftype
  fref :: int
  readable :: bool
  writable :: bool
  fpipe :: nat
  fip :: nat
  foff :: u32
  fmajor :: int

record 'm filestate = dirstate +
  umem :: 'm                   \<comment> \<open>the memory of the user\<close>
  files :: "nat \<Rightarrow> kfile"      \<comment> \<open>the file at an address\<close>
  farr :: "nat \<Rightarrow> nat"        \<comment> \<open>\<open>&ftable->file[i]\<close>\<close>

record 'm io =
  uout :: "'m sink"
  uin :: "'m source"

type_synonym 's dev_op = "u64 \<Rightarrow> int \<Rightarrow> 's \<Rightarrow> (int \<times> 's) res"

record 's dev =
  dread :: "'s dev_op option"
  dwrite :: "'s dev_op option"

abbreviation NDEV :: int where "NDEV \<equiv> 10"

definition upd_file :: "nat \<Rightarrow> (kfile \<Rightarrow> kfile) \<Rightarrow> ('m, 'a) filestate_scheme \<Rightarrow> ('m, 'a) filestate_scheme" where
  "upd_file f g s = s\<lparr>files := (files s)(f := g (files s f))\<rparr>"

section \<open>The table\<close>

definition fileinit :: "('m, 'a) filestate_scheme \<Rightarrow> ('m, 'a) filestate_scheme res" where
  "fileinit s = bindE (initlock LkFtable ''ftable'' s)
     (foldE (\<lambda>i s. register_memobj (farr s i) (mhead s MLfil) s) [0..<NFILE])"

fun filealloc_scan :: "nat list \<Rightarrow> ('m, 'a) filestate_scheme \<Rightarrow> (nat \<times> ('m, 'a) filestate_scheme) res" where
  "filealloc_scan [] s = bindE (release LkFtable s) (\<lambda>s. Inr (0, s))"
| "filealloc_scan (f # fs) s = bindE (enter_recovery_critical_section_nodes RL_FILE f s) (\<lambda>s.
     if fref (files s f) = 0
     then bindE (release LkFtable (upd_file f (fref_update (\<lambda>_. 1)) s)) (\<lambda>s. Inr (f, s))
     else bindE (exit_recovery_critical_section_nodes RL_FILE f s) (filealloc_scan fs))"

definition filealloc :: "('m, 'a) filestate_scheme \<Rightarrow> (nat \<times> ('m, 'a) filestate_scheme) res" where
  "filealloc s = bindE (acquire LkFtable s) (filealloc_scan (map (farr s) [0..<NFILE]))"

definition filedup :: "nat \<Rightarrow> ('m, 'a) filestate_scheme \<Rightarrow> ('m, 'a) filestate_scheme res" where
  "filedup f s = bindE (acquire LkFtable s) (\<lambda>s.
     if fref (files s f) < 1 then Inl (Panic ''filedup'')
     else release LkFtable (upd_file f (fref_update (\<lambda>r. r + 1)) s))"

text \<open>What the last close does with the copy \<open>ff\<close> of the file.\<close>

definition close_object :: "kfile \<Rightarrow> ('m, 'a) filestate_scheme \<Rightarrow> ('m, 'a) filestate_scheme res" where
  "close_object ff s = (case fty ff of
       FD_PIPE \<Rightarrow> bindE (enter_recovery_critical_section RL_PIPE 0 s) (\<lambda>s.
         bindE (pipeclose (fpipe ff) (writable ff) s) (exit_recovery_critical_section RL_PIPE 0))
     | FD_NONE \<Rightarrow> Inr s
     | _ \<Rightarrow> bindE (begin_op s) (\<lambda>s. bindE (enter_recovery_critical_section RL_ICACHE 0 s) (\<lambda>s.
         bindE (enter_recovery_critical_section_nodes RL_INODE (fip ff) s) (\<lambda>s.
         bindE (iput (fip ff) s) (\<lambda>s. bindE (exit_recovery_critical_section RL_ICACHE 0 s) end_op)))))"

definition fileclose :: "nat \<Rightarrow> ('m, 'a) filestate_scheme \<Rightarrow> ('m, 'a) filestate_scheme res" where
  "fileclose f s = bindE (acquire LkFtable s) (\<lambda>s.
     if fref (files s f) < 1 then Inl (Panic ''fileclose'')
     else let s = upd_file f (fref_update (\<lambda>r. r - 1)) s in
       if fref (files s f) > 0
       then bindE (release LkFtable s) (exit_recovery_critical_section_nodes RL_FILE f)
       else let ff = files s f in
         bindE (release LkFtable (upd_file f (\<lambda>x. x\<lparr>fref := 0, fty := FD_NONE\<rparr>) s)) (\<lambda>s.
         bindE (close_object ff s) (exit_recovery_critical_section_nodes RL_FILE f)))"

text \<open>The two files of a new pipe, or \<open>None\<close> for -1.\<close>

definition close_if :: "nat \<Rightarrow> ('m, 'a) filestate_scheme \<Rightarrow> ('m, 'a) filestate_scheme res" where
  "close_if f s = (if f \<noteq> 0 then fileclose f s else Inr s)"

definition pipealloc :: "('m, 'a) filestate_scheme \<Rightarrow> ((nat \<times> nat) option \<times> ('m, 'a) filestate_scheme) res" where
  "pipealloc s = bindE (filealloc s) (\<lambda>(f0, s).
     bindE (if f0 = 0 then Inr (0, s) else filealloc s) (\<lambda>(f1, s).
     bindE (if f0 = 0 \<or> f1 = 0 then Inr (0, s) else kalloc s) (\<lambda>(pi, s).
     if pi = 0 then bindE (close_if f0 s) (\<lambda>s. bindE (close_if f1 s) (\<lambda>s. Inr (None, s)))
     else bindE (register_memobj pi (mhead s MLpip) s) (\<lambda>s.
       bindE (register_memobj (lock_at s (LkPipe pi)) (mhead s MLspn) s) (\<lambda>s.
       let s = set_pipe pi ((pipes s pi)\<lparr>readopen := True, writeopen := True, nwrite := 0, nread := 0\<rparr>) s in
       bindE (initlock (LkPipe pi) ''pipe'' s) (\<lambda>s.
       let s = upd_file f0 (\<lambda>x. x\<lparr>fty := FD_PIPE, readable := True, writable := False, fpipe := pi\<rparr>) s;
           s = upd_file f1 (\<lambda>x. x\<lparr>fty := FD_PIPE, readable := False, writable := True, fpipe := pi\<rparr>) s in
       Inr (Some (f0, f1), s)))))))"

section \<open>Reading and writing\<close>

definition leave_file :: "nat \<Rightarrow> ('m, 'a) filestate_scheme \<Rightarrow> ('m, 'a) filestate_scheme res" where
  "leave_file f s = bindE (exit_recovery_critical_section_nodes RL_FILE f s) (exit_recovery_critical_section RL_FTABLE 0)"

text \<open>The sections around the work on the inode of a file, and its lock.\<close>

definition inode_enter :: "nat \<Rightarrow> ('m, 'a) filestate_scheme \<Rightarrow> ('m, 'a) filestate_scheme res" where
  "inode_enter ip s = bindE (enter_recovery_critical_section RL_ICACHE 0 s) (\<lambda>s.
     bindE (enter_recovery_critical_section_nodes RL_INODE ip s) (ilock ip))"

definition inode_exit :: "nat \<Rightarrow> ('m, 'a) filestate_scheme \<Rightarrow> ('m, 'a) filestate_scheme res" where
  "inode_exit ip s = bindE (iunlock ip s) (\<lambda>s.
     bindE (exit_recovery_critical_section_nodes RL_INODE ip s) (exit_recovery_critical_section RL_ICACHE 0))"

text \<open>\<open>struct stat\<close> in memory; \<open>pad\<close> is what lies in the four bytes before the size.\<close>

definition le_bytes :: "nat \<Rightarrow> nat \<Rightarrow> u8 list" where
  "le_bytes k x = map (\<lambda>i. of_nat (x div 256 ^ i)) [0..<k]"

definition stat_bytes :: "u8 list \<Rightarrow> stat \<Rightarrow> u8 list" where
  "stat_bytes pad st = le_bytes 4 (st_dev st) @ le_bytes 4 (st_ino st) @ le_bytes 2 (unat (st_type st)) @
     le_bytes 2 (unat (st_nlink st)) @ take 4 (pad @ replicate 4 0) @ le_bytes 8 (unat (st_size st))"

definition filestat ::
  "'m io \<Rightarrow> u8 list \<Rightarrow> nat \<Rightarrow> u64 \<Rightarrow> ('m, 'a) filestate_scheme \<Rightarrow> (int \<times> ('m, 'a) filestate_scheme) res" where
  "filestat u pad f addr s =
     (if fty (files s f) = FD_INODE \<or> fty (files s f) = FD_DEVICE then
        let ip = fip (files s f) in
        bindE (inode_enter ip s) (\<lambda>s. let st = stati ip s in
        bindE (inode_exit ip s) (\<lambda>s.
        let (ok, m) = uout u addr (stat_bytes pad st) (umem s) in
        bindE (leave_file f (s\<lparr>umem := m\<rparr>)) (\<lambda>s. Inr (if ok then 0 else -1, s))))
      else bindE (leave_file f s) (\<lambda>s. Inr (-1, s)))"

text \<open>Bytes of a pipe go to the user one by one, and come from there one by one.\<close>

definition out_ok :: "'m io \<Rightarrow> u64 \<Rightarrow> 'm \<Rightarrow> nat \<Rightarrow> bool" where
  "out_ok u addr m i = fst (uout u (addr + of_nat i) [0] m)"

definition put_out :: "'m io \<Rightarrow> u64 \<Rightarrow> u8 list \<Rightarrow> 'm \<Rightarrow> 'm" where
  "put_out u addr out m = fold (\<lambda>i m. snd (uout u (addr + of_nat i) [out ! i] m)) [0..<length out] m"

definition in_byte :: "'m io \<Rightarrow> u64 \<Rightarrow> 'm \<Rightarrow> nat \<Rightarrow> u8 option" where
  "in_byte u addr m i = (case uin u (addr + of_nat i) 1 m of (vs, ok) \<Rightarrow> if ok \<and> vs \<noteq> [] then Some (hd vs) else None)"

definition io_value :: "io_end \<Rightarrow> int res" where
  "io_value e = (case e of Done r \<Rightarrow> Inr r | Abort \<Rightarrow> Inr (-1) | Asleep _ \<Rightarrow> Inl Blocked)"

definition file_piperead ::
  "'m io \<Rightarrow> nat \<Rightarrow> u64 \<Rightarrow> int \<Rightarrow> ('m, 'a) filestate_scheme \<Rightarrow> (int \<times> ('m, 'a) filestate_scheme) res" where
  "file_piperead u a addr n s = bindE (enter_recovery_critical_section RL_PIPE 0 s) (\<lambda>s.
     bindE (piperead a (out_ok u addr (umem s)) n s) (\<lambda>(out, e, s).
     bindE (io_value e) (\<lambda>r.
     bindE (exit_recovery_critical_section RL_PIPE 0 (s\<lparr>umem := put_out u addr out (umem s)\<rparr>)) (\<lambda>s. Inr (r, s)))))"

definition file_pipewrite ::
  "'m io \<Rightarrow> nat \<Rightarrow> u64 \<Rightarrow> int \<Rightarrow> ('m, 'a) filestate_scheme \<Rightarrow> (int \<times> ('m, 'a) filestate_scheme) res" where
  "file_pipewrite u a addr n s = bindE (enter_recovery_critical_section RL_PIPE 0 s) (\<lambda>s.
     bindE (pipewrite a (in_byte u addr (umem s)) n s) (\<lambda>(e, s).
     bindE (io_value e) (\<lambda>r. bindE (exit_recovery_critical_section RL_PIPE 0 s) (\<lambda>s. Inr (r, s)))))"

definition advance :: "nat \<Rightarrow> int \<Rightarrow> ('m, 'a) filestate_scheme \<Rightarrow> ('m, 'a) filestate_scheme" where
  "advance f r s = (if r > 0 then upd_file f (foff_update (\<lambda>off. off + of_int r)) s else s)"

definition file_readi ::
  "'m io \<Rightarrow> nat \<Rightarrow> u64 \<Rightarrow> int \<Rightarrow> ('m, 'a) filestate_scheme \<Rightarrow> (int \<times> ('m, 'a) filestate_scheme) res" where
  "file_readi u f addr n s = (let ip = fip (files s f) in
     bindE (inode_enter ip s) (\<lambda>s.
     bindE (readi (uout u) ip addr (unat (foff (files s f))) (unat (of_int n :: u32)) (umem s) s) (\<lambda>(r, m, s).
     bindE (inode_exit ip (advance f r (s\<lparr>umem := m\<rparr>))) (\<lambda>s. Inr (r, s)))))"

definition fileread ::
  "'m io \<Rightarrow> (int \<Rightarrow> ('m, 'a) filestate_scheme dev) \<Rightarrow> nat \<Rightarrow> u64 \<Rightarrow> int \<Rightarrow> ('m, 'a) filestate_scheme \<Rightarrow>
   (int \<times> ('m, 'a) filestate_scheme) res" where
  "fileread u devs f addr n s =
     (let x = files s f; fail = bindE (leave_file f s) (\<lambda>s. Inr (-1, s));
          done = (\<lambda>r. bindE r (\<lambda>(r, s). bindE (leave_file f s) (\<lambda>s. Inr (r, s)))) in
      if \<not> readable x then fail
      else case fty x of
        FD_PIPE \<Rightarrow> done (file_piperead u (fpipe x) addr n s)
      | FD_DEVICE \<Rightarrow> if fmajor x < 0 \<or> fmajor x \<ge> NDEV then fail
          else (case dread (devs (fmajor x)) of None \<Rightarrow> fail | Some op \<Rightarrow> done (op addr n s))
      | FD_INODE \<Rightarrow> done (file_readi u f addr n s)
      | FD_NONE \<Rightarrow> Inl (Panic ''fileread''))"

definition WRITE_MAX :: nat where
  "WRITE_MAX = (MAXOPBLOCKS - 1 - 1 - 2) div 2 * BSIZE"

text \<open>One transaction of \<open>filewrite\<close>: \<open>n1\<close> bytes from \<open>addr\<close>.\<close>

definition file_writei ::
  "'m io \<Rightarrow> nat \<Rightarrow> u64 \<Rightarrow> nat \<Rightarrow> ('m, 'a) filestate_scheme \<Rightarrow> (int \<times> ('m, 'a) filestate_scheme) res" where
  "file_writei u f addr n1 s = (let ip = fip (files s f) in
     bindE (begin_op s) (\<lambda>s.
     bindE (inode_enter ip s) (\<lambda>s.
     bindE (writei (uin u) ip addr (unat (foff (files s f))) n1 (umem s) s) (\<lambda>(r, s).
     bindE (inode_exit ip (advance f r s)) (\<lambda>s.
     bindE (end_op s) (\<lambda>s. Inr (r, s)))))))"

function filewrite_loop ::
  "'m io \<Rightarrow> nat \<Rightarrow> u64 \<Rightarrow> nat \<Rightarrow> nat \<Rightarrow> ('m, 'a) filestate_scheme \<Rightarrow> (nat \<times> ('m, 'a) filestate_scheme) res" where
  "filewrite_loop u f addr n i s =
     (if i < n then let n1 = min (n - i) WRITE_MAX in
        bindE (file_writei u f (addr + of_nat i) n1 s) (\<lambda>(r, s).
          if r < 0 then Inr (i, s)
          else if r \<noteq> int n1 then Inl (Panic ''short filewrite'')
          else filewrite_loop u f addr n (i + n1) s)
      else Inr (i, s))"
  by pat_completeness auto
termination
  by (relation "measure (\<lambda>(u, f, addr, n, i, s). n - i)") (auto simp: WRITE_MAX_def)

declare filewrite_loop.simps [simp del]

definition filewrite ::
  "'m io \<Rightarrow> (int \<Rightarrow> ('m, 'a) filestate_scheme dev) \<Rightarrow> nat \<Rightarrow> u64 \<Rightarrow> int \<Rightarrow> ('m, 'a) filestate_scheme \<Rightarrow>
   (int \<times> ('m, 'a) filestate_scheme) res" where
  "filewrite u devs f addr n s =
     (let x = files s f; done = (\<lambda>r. bindE r (\<lambda>(r, s). bindE (leave_file f s) (\<lambda>s. Inr (r, s))));
          no_device = bindE (leave_file f s) (\<lambda>s. bindE (exit_recovery_critical_section RL_ICACHE 0 s) (\<lambda>s. Inr (-1, s))) in
      if \<not> writable x then bindE (leave_file f s) (\<lambda>s. Inr (-1, s))
      else case fty x of
        FD_PIPE \<Rightarrow> done (file_pipewrite u (fpipe x) addr n s)
      | FD_DEVICE \<Rightarrow> if fmajor x < 0 \<or> fmajor x \<ge> NDEV then no_device
          else (case dwrite (devs (fmajor x)) of None \<Rightarrow> no_device | Some op \<Rightarrow> done (op addr n s))
      | FD_INODE \<Rightarrow> done (bindE (filewrite_loop u f addr (nat n) 0 s) (\<lambda>(i, s).
          Inr (if int i = n then n else -1, s)))
      | FD_NONE \<Rightarrow> Inl (Panic ''filewrite''))"

section \<open>What stays\<close>

lemma same_core_fs:
  fixes s t :: "'a fsstate_scheme"
  assumes "core t = core s"
  shows "ino t = ino s" and "jr t = jr s" and "sb t = sb s" and "islock t = islock s" and "klog t = klog s"
    and "fblock ip n t = fblock ip n s" and "fbyte ip j t = fbyte ip j s"
proof -
  have f: "g (core t) = g (core s)" for g :: "'a fsstate_scheme \<Rightarrow> 'z" using assms by simp
  show e: "ino t = ino s" "jr t = jr s" "sb t = sb s" "islock t = islock s" "klog t = klog s"
    using f [of ino] f [of jr] f [of sb] f [of islock] f [of klog] by (simp_all add: core_def)
  have b: "fblock ip n t = fblock ip n s" for n using e by (simp add: fblock_def ind_block_def rd_def)
  then show "fblock ip n t = fblock ip n s" .
  have "rd m t = rd m s" for m using e by (simp add: rd_def)
  then show "fbyte ip j t = fbyte ip j s" using b by (simp add: fbyte_def Let_def)
qed

lemma core_user [simp]:
  fixes s :: "('m, 'a) filestate_scheme"
  shows "core (umem_update g s) = umem_update g (core s)" and "core (files_update h s) = files_update h (core s)"
  by (rule filestate.equality; simp add: core_def)+

lemma same_core_files:
  fixes s t :: "('m, 'a) filestate_scheme"
  assumes "core t = core s"
  shows "files t = files s" and "umem t = umem s" and "farr t = farr s"
proof -
  have f: "g (core t) = g (core s)" for g :: "('m, 'a) filestate_scheme \<Rightarrow> 'z" using assms by simp
  show "files t = files s" "umem t = umem s" "farr t = farr s"
    using f [of files] f [of umem] f [of farr] by (simp_all add: core_def)
qed

section \<open>Working on an inode\<close>

text \<open>A process \<open>p\<close> with identifier \<open>q\<close> and record \<open>i\<close>, and an inode in the cache that is not locked.\<close>

definition inode_ready :: "nat \<Rightarrow> nat \<Rightarrow> nat \<Rightarrow> nat \<Rightarrow> ('m, 'a) filestate_scheme \<Rightarrow> bool" where
  "inode_ready p i q ip s \<longleftrightarrow> rcs_ready p i s \<and> procs_free s \<and> curpid s = Inr q \<and> ip \<noteq> 0 \<and>
     1 \<le> iref (ino s ip) \<and> ivalid (ino s ip) \<and> free_lock (LkSleep (islock s ip)) s \<and>
     \<not> slocked (slocks s (islock s ip)) \<and> real_flag (search_recovery_idx RL_INODE ip s)"

lemma real_flags [simp]: "real_flag RL_FTABLE" "real_flag RL_ICACHE" "real_flag RL_PIPE" "real_flag RL_LOG"
  by (simp_all add: real_flag_def)

definition counts_up :: "int \<Rightarrow> (nat \<Rightarrow> int) \<Rightarrow> nat \<Rightarrow> int" where
  "counts_up f g = g(nat f := g (nat f) + 1)"

definition counts_down :: "int \<Rightarrow> (nat \<Rightarrow> int) \<Rightarrow> nat \<Rightarrow> int" where
  "counts_down f g = g(nat f := g (nat f) - 1)"

lemma counts_undo [simp]:
  "counts_down f (counts_up f g) = g" "counts_down f (counts_down f' (counts_up f (counts_up f' g))) = g"
  by (auto simp: counts_up_def counts_down_def fun_eq_iff)

lemma inode_in:
  assumes "inode_ready p i q ip s" and "length (open_sections i s) + 2 \<le> RCS_HIST"
    and "f = search_recovery_idx RL_INODE ip s" and "k = islock s ip"
  obtains t where "inode_enter ip s = Inr t" and "rcs_ready p i t" and "core t = core s"
    and "open_sections i t = open_sections i s @ [RL_ICACHE, f]"
    and "slocks t = (slocks s)(k := (slocks s k)\<lparr>slocked := True, spid := q\<rparr>)"
    and "rl_num t = counts_up f (counts_up RL_ICACHE (rl_num s))"
proof -
  have r: "rcs_ready p i s" "procs_free s" "curpid s = Inr q" "ip \<noteq> 0" "1 \<le> iref (ino s ip)" "ivalid (ino s ip)"
    "free_lock (LkSleep k) s" "\<not> slocked (slocks s k)" "real_flag f"
    using assms(1,3,4) by (simp_all add: inode_ready_def)
  obtain a where a: "enter_recovery_critical_section RL_ICACHE 0 s = Inr a" "rcs_ready p i a"
    "open_sections i a = open_sections i s @ [RL_ICACHE]" "core a = core s" "slocks a = slocks s"
    "rl_num a = (rl_num s)(nat RL_ICACHE := rl_num s (nat RL_ICACHE) + 1)"
    by (rule section_in [OF r(1), of RL_ICACHE]) (use assms(2) in simp_all)
  note ca = same_core [OF a(4)] same_core_fs [OF a(4)]
  obtain b where b: "enter_recovery_critical_section_nodes RL_INODE ip a = Inr b" "rcs_ready p i b"
    "open_sections i b = open_sections i a @ [f]" "core b = core a" "slocks b = slocks a"
    "rl_num b = (rl_num a)(nat f := rl_num a (nat f) + 1)"
    by (rule node_in [OF a(2), of RL_INODE ip f]) (use assms(2,3) a(3) r(9) ca in simp_all)
  note cb = same_core [OF b(4)] same_core_fs [OF b(4)]
  obtain t where t: "acquiresleep k b = Inr t" "core t = core b"
    "slocks t = (slocks b)(k := (slocks b k)\<lparr>slocked := True, spid := q\<rparr>)"
    "rl_num t = rl_num b" "rcs_infos t = rcs_infos b"
    by (rule sleep_in [of b k q]) (use b(2,5) a(5) ca cb r in \<open>simp_all add: rcs_ready_def\<close>)
  note ct = same_core_fs [OF t(2)]
  have "inode_enter ip s = Inr t"
    using a(1) b(1) t(1) ca cb ct r by (simp add: inode_enter_def ilock_def assms(4) [symmetric])
  moreover have "rcs_ready p i t" "open_sections i t = open_sections i s @ [RL_ICACHE, f]"
    using same_core_ready [OF t(2) b(2) t(5)] b(3) a(3) by simp_all
  ultimately show thesis using a(4-6) b(4-6) t(2-4) by (intro that [of t]) (simp_all add: counts_up_def)
qed

lemma inode_out:
  assumes "rcs_ready p i s" and "procs_free s" and "curpid s = Inr q" and "ip \<noteq> 0" and "1 \<le> iref (ino s ip)"
    and "free_lock (LkSleep k) s" and "slocked (slocks s k)" and "spid (slocks s k) = q" and "k = islock s ip"
    and "f = search_recovery_idx RL_INODE ip s" and "real_flag f" and "open_sections i s = xs @ [RL_ICACHE, f]"
  obtains t where "inode_exit ip s = Inr t" and "rcs_ready p i t" and "core t = core s" and "open_sections i t = xs"
    and "slocks t = (slocks s)(k := (slocks s k)\<lparr>slocked := False, spid := 0\<rparr>)"
    and "rl_num t = counts_down RL_ICACHE (counts_down f (rl_num s))"
proof -
  obtain a where a: "holdingsleep k s = Inr (slocked (slocks s k) \<and> spid (slocks s k) = q, a)" "core a = core s"
    "slocks a = slocks s" "rl_num a = rl_num s" "rcs_infos a = rcs_infos s"
    by (rule sleep_held [of s k q]) (use assms in \<open>simp_all add: rcs_ready_def\<close>)
  note ca = same_core [OF a(2)] same_core_fs [OF a(2)]
  obtain b where b: "releasesleep k a = Inr b" "core b = core a"
    "slocks b = (slocks a)(k := (slocks a k)\<lparr>slocked := False, spid := 0\<rparr>)" "rl_num b = rl_num a" "rcs_infos b = rcs_infos a"
    by (rule sleep_out [of a k]) (use assms ca in \<open>simp_all add: rcs_ready_def\<close>)
  have cbs: "core b = core s" using a(2) b(2) by simp
  have rb: "rcs_ready p i b" "open_sections i b = open_sections i s"
    using same_core_ready [OF cbs assms(1)] a(5) b(5) by simp_all
  have u: "iunlock ip s = Inr b"
    using a(1) b(1) ca(15,18) assms(4,5,7,8) by (simp add: iunlock_def assms(9) [symmetric])
  obtain c where c: "exit_recovery_critical_section_nodes RL_INODE ip b = Inr c" "rcs_ready p i c"
    "open_sections i c = remove_last f (open_sections i b)" "core c = core b" "slocks c = slocks b"
    "rl_num c = (rl_num b)(nat f := rl_num b (nat f) - 1)"
    by (rule node_out [OF rb(1), of RL_INODE ip f]) (use assms(10-12) rb(2) same_core [OF cbs] in simp_all)
  have oc: "open_sections i c = xs @ [RL_ICACHE]"
    using c(3) rb(2) assms(12) remove_last_snoc [of f "xs @ [RL_ICACHE]"] by simp
  obtain t where t: "exit_recovery_critical_section RL_ICACHE 0 c = Inr t" "rcs_ready p i t"
    "open_sections i t = remove_last RL_ICACHE (open_sections i c)" "core t = core c" "slocks t = slocks c"
    "rl_num t = (rl_num c)(nat RL_ICACHE := rl_num c (nat RL_ICACHE) - 1)"
    by (rule section_out [OF c(2), of RL_ICACHE]) (use oc in simp_all)
  have "inode_exit ip s = Inr t" using u c(1) t(1) by (simp add: inode_exit_def)
  moreover have "open_sections i t = xs" using t(3) oc by simp
  ultimately show thesis
    using t(2,4-6) c(4-6) b(3,4) a(3,4) cbs by (intro that [of t]) (simp_all add: counts_down_def)
qed

lemma readi_clamped:
  assumes "off \<le> unat (isize (ino s ip))" and "off + n < 2 ^ 32"
  shows "readi snk ip d off n m s = readi snk ip d off (min n (unat (isize (ino s ip)) - off)) m s"
proof -
  define sz where "sz = unat (isize (ino s ip))"
  have o: "off \<le> sz" using assms(1) by (simp add: sz_def)
  then have "(if off + n > sz then sz - off else n) = min n (sz - off)"
    "(if off + min n (sz - off) > sz then sz - off else min n (sz - off)) = min n (sz - off)"
    by (auto simp: min_def)
  moreover have "off + min n (sz - off) \<le> off + n" by simp
  then have "\<not> off > sz" "\<not> off + n \<ge> 2 ^ 32" "\<not> off + min n (sz - off) \<ge> 2 ^ 32"
    using o assms(2) by simp_all
  ultimately show ?thesis unfolding readi_def sz_def [symmetric] Let_def by (simp only: if_False simp_thms)
qed

lemma advance_off: "advance f (int k) s = upd_file f (foff_update (\<lambda>_. foff (files s f) + of_nat k)) s"
proof (cases "k = 0")
  case True
  have "foff_update (\<lambda>_. foff r) r = r" for r :: kfile by (cases r) simp
  then have "upd_file f (foff_update (\<lambda>_. foff (files s f) + of_nat k)) s = s"
    by (simp only: True upd_file_def of_nat_0 add_0_right fun_upd_triv) simp
  then show ?thesis by (simp only: advance_def True) simp
next
  case False
  have "foff_update g r = foff_update (\<lambda>_. g (foff r)) r" for g and r :: kfile by (cases r) simp
  from this [of "\<lambda>off. off + of_nat k" "files s f"]
  have "(foff_update (\<lambda>off. off + of_nat k)) (files s f) = foff_update (\<lambda>_. foff (files s f) + of_nat k) (files s f)" .
  then show ?thesis using False by (simp only: advance_def upd_file_def of_int_of_nat_eq) simp
qed

text \<open>An inode all of whose bytes have a block.\<close>

definition mapped_file :: "nat \<Rightarrow> ('m, 'a) filestate_scheme \<Rightarrow> bool" where
  "mapped_file ip s \<longleftrightarrow> unat (isize (ino s ip)) \<le> MAXFILE * BSIZE \<and>
     (\<forall>j < unat (isize (ino s ip)). fblock ip (j div BSIZE) s \<noteq> 0)"

context byte_sink
begin

lemma file_readi_ok:
  assumes "inode_ready p i q ip s" and "length (open_sections i s) + 2 \<le> RCS_HIST" and "ip = fip (files s f)"
    and "mapped_file ip s" and "off = unat (foff (files s f))" and "off \<le> unat (isize (ino s ip))"
    and "0 \<le> n" and "int off + n < 2 ^ 32" and "uout u = to_sink store"
    and "k = min (nat n) (unat (isize (ino s ip)) - off)"
    and "spid (slocks s (islock s ip)) = 0"
  obtains t where "file_readi u f addr n s = Inr (int k, t)" and "rcs_ready p i t"
    and "open_sections i t = open_sections i s" and "slocks t = slocks s" and "rl_num t = rl_num s"
    and "core t = core (upd_file f (foff_update (\<lambda>_. of_nat (off + k)))
           (s\<lparr>umem := store addr (map (\<lambda>j. fbyte ip j s) [off..<off + k]) (umem s)\<rparr>))"
proof -
  let ?f = "search_recovery_idx RL_INODE ip s" and ?k = "islock s ip"
  obtain a where a: "inode_enter ip s = Inr a" "rcs_ready p i a" "core a = core s"
    "open_sections i a = open_sections i s @ [RL_ICACHE, ?f]"
    "slocks a = (slocks s)(?k := (slocks s ?k)\<lparr>slocked := True, spid := q\<rparr>)"
    "rl_num a = counts_up ?f (counts_up RL_ICACHE (rl_num s))"
    by (rule inode_in [OF assms(1,2) refl refl]) blast
  note ca = same_core [OF a(3)] same_core_files [OF a(3)] same_core_fs [OF a(3)]
  let ?m = "store addr (map (\<lambda>j. fbyte ip j s) [off..<off + k]) (umem s)"
  have n: "unat (of_int n :: u32) = nat n" 
  proof -
    have "take_bit 32 n = n" using assms(7,8) by (intro take_bit_int_eq_self) simp_all
    then show ?thesis by (simp add: unat_eq_nat_uint unsigned_of_int)
  qed
  have kl: "off + k \<le> unat (isize (ino s ip))" using assms(6,10) by simp
  have "readi (uout u) ip addr off (unat (of_int n :: u32)) (umem a) a = readi (to_sink store) ip addr off k (umem s) a"
    using readi_clamped [of off a ip "nat n" "to_sink store" addr "umem s"] assms(6-10) ca n by simp
  also have "\<dots> = Inr (int k, ?m, a)"
    using readi_ok [of off k a ip addr "umem s"] kl assms(4) ca by (simp add: mapped_file_def)
  finally have rd: "readi (uout u) ip addr off (unat (of_int n :: u32)) (umem a) a = Inr (int k, ?m, a)" .
  define b where "b = advance f (int k) (a\<lparr>umem := ?m\<rparr>)"
  have cb: "core b = core (upd_file f (foff_update (\<lambda>_. of_nat (off + k))) (s\<lparr>umem := ?m\<rparr>))"
  proof -
    have "b = upd_file f (foff_update (\<lambda>_. of_nat (off + k))) (a\<lparr>umem := ?m\<rparr>)"
      using ca assms(5) by (simp add: b_def advance_off upd_file_def)
    then show ?thesis using ca by (simp add: upd_file_def a(3))
  qed
  let ?s = "upd_file f (foff_update (\<lambda>_. of_nat (off + k))) (s\<lparr>umem := ?m\<rparr>)"
  have sl: "slocks b = slocks a" "rl_num b = rl_num a" "rcs_infos b = rcs_infos a"
    by (simp_all add: b_def advance_def upd_file_def)
  have rb: "rcs_ready p i b" "open_sections i b = open_sections i a"
    using a(2) by (simp_all add: b_def advance_def upd_file_def rcs_ready_def open_sections_def curproc_def
        rcs_find_def cpu_ok_def free_lock_def)
  note cs = same_core [OF cb] same_core_fs [OF cb]
  have s: "rcs_ready p i s" "procs_free s" "curpid s = Inr q" "ip \<noteq> 0" "1 \<le> iref (ino s ip)"
    "free_lock (LkSleep ?k) s" "real_flag ?f" using assms(1) by (simp_all add: inode_ready_def)
  have us: "procs_free ?s = procs_free s" "curpid ?s = curpid s" "ino ?s = ino s" "islock ?s = islock s"
    "free_lock lk ?s = free_lock lk s" "search_recovery_idx h x ?s = search_recovery_idx h x s" for lk h x
    by (simp_all add: upd_file_def procs_free_def free_lock_def curpid_def curproc_def search_recovery_idx_def
        cong: option.case_cong)
  obtain t where t: "inode_exit ip b = Inr t" "rcs_ready p i t" "core t = core b" "open_sections i t = open_sections i s"
    "slocks t = (slocks b)(?k := (slocks b ?k)\<lparr>slocked := False, spid := 0\<rparr>)"
    "rl_num t = counts_down RL_ICACHE (counts_down ?f (rl_num b))"
    by (rule inode_out [OF rb(1), of q ip ?k ?f "open_sections i s"])
      (use s cs us sl rb(2) a(4,5) in simp_all)
  have "slocks t = slocks s"
    using t(5) sl(1) a(5) assms(1,11) by (simp add: inode_ready_def fun_upd_idem)
  moreover have "file_readi u f addr n s = Inr (int k, t)"
    using a(1) rd t(1) ca assms(3,5) by (simp add: file_readi_def b_def)
  ultimately show thesis using t(2-4,6) sl(2) a(6) cb by (intro that [of t]) simp_all
qed

end

section \<open>Leaving a file\<close>

lemma leave_file_ok:
  assumes "rcs_ready p i s" and "search_recovery_idx RL_FILE f s = g" and "real_flag g"
    and "open_sections i s = xs @ [RL_FTABLE, g]"
  obtains t where "leave_file f s = Inr t" and "rcs_ready p i t" and "core t = core s" and "open_sections i t = xs"
    and "slocks t = slocks s" and "rl_num t = counts_down RL_FTABLE (counts_down g (rl_num s))"
proof -
  obtain c where c: "exit_recovery_critical_section_nodes RL_FILE f s = Inr c" "rcs_ready p i c"
    "open_sections i c = remove_last g (open_sections i s)" "core c = core s" "slocks c = slocks s"
    "rl_num c = (rl_num s)(nat g := rl_num s (nat g) - 1)"
    by (rule node_out [OF assms(1-3)]) (use assms(4) in simp_all)
  have oc: "open_sections i c = xs @ [RL_FTABLE]"
    using c(3) assms(4) remove_last_snoc [of g "xs @ [RL_FTABLE]"] by simp
  obtain t where t: "exit_recovery_critical_section RL_FTABLE 0 c = Inr t" "rcs_ready p i t"
    "open_sections i t = remove_last RL_FTABLE (open_sections i c)" "core t = core c" "slocks t = slocks c"
    "rl_num t = (rl_num c)(nat RL_FTABLE := rl_num c (nat RL_FTABLE) - 1)"
    by (rule section_out [OF c(2), of RL_FTABLE]) (use oc in simp_all)
  have "leave_file f s = Inr t" using c(1) t(1) by (simp add: leave_file_def)
  then show thesis using t oc c(4-6) by (intro that [of t]) (simp_all add: counts_down_def)
qed

end
