(* ===== verification/SysFile.thy ===== *)
theory SysFile
  imports FileTable
begin

text \<open>
  The arguments of system calls (\<open>kernel/syscall.c\<close>) and the system calls on files
  (\<open>kernel/sysfile.c\<close>, without \<open>sys_exec\<close>). A call is a function of the state that returns the
  value the user sees. The sections around the work on files and inodes are entered and left
  in the order of the code, on every path. Paths and names are byte strings without their
  final zero.
\<close>

section \<open>State and arguments\<close>

record 'm sysstate = "'m filestate" +
  ofile :: "nat \<Rightarrow> nat \<Rightarrow> nat"    \<comment> \<open>\<open>proc[i].ofile[fd]\<close>, 0 when closed\<close>
  tfarg :: "nat \<Rightarrow> nat \<Rightarrow> u64"    \<comment> \<open>\<open>proc[i].tf->a0\<close> to \<open>a5\<close>\<close>
  psz :: "nat \<Rightarrow> u64"

abbreviation T_FILE :: u16 where "T_FILE \<equiv> 2"
abbreviation T_DEVICE :: u16 where "T_DEVICE \<equiv> 3"

definition this_proc :: "'a mach_scheme \<Rightarrow> (nat \<times> 'a mach_scheme) res" where
  "this_proc s = bindE (myproc s) (\<lambda>(mp, s). case mp of None \<Rightarrow> Inl Trap | Some p \<Rightarrow> Inr (p, s))"

definition fetchaddr :: "'m io \<Rightarrow> u64 \<Rightarrow> ('m, 'a) sysstate_scheme \<Rightarrow> (u8 list option \<times> ('m, 'a) sysstate_scheme) res" where
  "fetchaddr u addr s = bindE (this_proc s) (\<lambda>(p, s).
     Inr (if addr \<ge> psz s p \<or> addr + 8 > psz s p then None
          else case uin u addr 8 (umem s) of (vs, ok) \<Rightarrow> if ok then Some vs else None, s))"

text \<open>The bytes before the first zero, when one is reached within \<open>n\<close> bytes.\<close>

fun fetch_bytes :: "'m io \<Rightarrow> u64 \<Rightarrow> nat \<Rightarrow> 'm \<Rightarrow> u8 list option" where
  "fetch_bytes u a 0 m = None"
| "fetch_bytes u a (Suc n) m = (case in_byte u a m 0 of None \<Rightarrow> None
     | Some c \<Rightarrow> if c = 0 then Some [] else map_option ((#) c) (fetch_bytes u (a + 1) n m))"

definition fetchstr :: "'m io \<Rightarrow> u64 \<Rightarrow> nat \<Rightarrow> ('m, 'a) sysstate_scheme \<Rightarrow> (u8 list option \<times> ('m, 'a) sysstate_scheme) res" where
  "fetchstr u addr mx s = bindE (this_proc s) (\<lambda>(p, s). Inr (fetch_bytes u addr mx (umem s), s))"

definition argraw :: "nat \<Rightarrow> ('m, 'a) sysstate_scheme \<Rightarrow> (u64 \<times> ('m, 'a) sysstate_scheme) res" where
  "argraw n s = bindE (this_proc s) (\<lambda>(p, s).
     if n < 6 then Inr (tfarg s p n, s) else Inl (Panic ''argraw''))"

definition argint :: "nat \<Rightarrow> ('m, 'a) sysstate_scheme \<Rightarrow> (int \<times> ('m, 'a) sysstate_scheme) res" where
  "argint n s = bindE (argraw n s) (\<lambda>(x, s). Inr (sint (ucast x :: u32), s))"

definition argaddr :: "nat \<Rightarrow> ('m, 'a) sysstate_scheme \<Rightarrow> (u64 \<times> ('m, 'a) sysstate_scheme) res" where
  "argaddr n s = argraw n s"

definition argstr :: "'m io \<Rightarrow> nat \<Rightarrow> nat \<Rightarrow> ('m, 'a) sysstate_scheme \<Rightarrow> (u8 list option \<times> ('m, 'a) sysstate_scheme) res" where
  "argstr u n mx s = bindE (argaddr n s) (\<lambda>(a, s). fetchstr u a mx s)"

section \<open>Descriptors\<close>

definition argfd :: "nat \<Rightarrow> ('m, 'a) sysstate_scheme \<Rightarrow> ((nat \<times> nat) option \<times> ('m, 'a) sysstate_scheme) res" where
  "argfd n s = bindE (argint n s) (\<lambda>(fd, s).
     if fd < 0 \<or> fd \<ge> int NOFILE then Inr (None, s)
     else bindE (this_proc s) (\<lambda>(p, s). let f = ofile s p (nat fd) in
       if f = 0 then Inr (None, s)
       else bindE (enter_recovery_critical_section_nodes RL_FILE f s) (\<lambda>s. Inr (Some (nat fd, f), s))))"

definition set_ofile :: "nat \<Rightarrow> nat \<Rightarrow> nat \<Rightarrow> ('m, 'a) sysstate_scheme \<Rightarrow> ('m, 'a) sysstate_scheme" where
  "set_ofile p fd f s = s\<lparr>ofile := (ofile s)(p := (ofile s p)(fd := f))\<rparr>"

definition fdalloc :: "nat \<Rightarrow> ('m, 'a) sysstate_scheme \<Rightarrow> (nat option \<times> ('m, 'a) sysstate_scheme) res" where
  "fdalloc f s = bindE (this_proc s) (\<lambda>(p, s). case first_idx (\<lambda>fd. ofile s p fd = 0) NOFILE of
       None \<Rightarrow> Inr (None, s) | Some fd \<Rightarrow> Inr (Some fd, set_ofile p fd f s))"

text \<open>Leaving the section of the file table, or of the cache of inodes and the transaction, with a value.\<close>

definition leave_ftable :: "'v \<Rightarrow> ('m, 'a) sysstate_scheme \<Rightarrow> ('v \<times> ('m, 'a) sysstate_scheme) res" where
  "leave_ftable r s = bindE (exit_recovery_critical_section RL_FTABLE 0 s) (\<lambda>s. Inr (r, s))"

definition leave_op :: "'v \<Rightarrow> ('m, 'a) sysstate_scheme \<Rightarrow> ('v \<times> ('m, 'a) sysstate_scheme) res" where
  "leave_op r s = bindE (exit_recovery_critical_section RL_ICACHE 0 s) (\<lambda>s. bindE (end_op s) (\<lambda>s. Inr (r, s)))"

definition sys_dup :: "('m, 'a) sysstate_scheme \<Rightarrow> (int \<times> ('m, 'a) sysstate_scheme) res" where
  "sys_dup s = bindE (enter_recovery_critical_section RL_FTABLE 0 s) (\<lambda>s.
     bindE (argfd 0 s) (\<lambda>(r, s). case r of None \<Rightarrow> leave_ftable (-1) s
     | Some (_, f) \<Rightarrow> bindE (fdalloc f s) (\<lambda>(r, s). case r of
         None \<Rightarrow> bindE (leave_file f s) (\<lambda>s. Inr (-1, s))
       | Some fd \<Rightarrow> bindE (filedup f s) (\<lambda>s. bindE (leave_file f s) (\<lambda>s. Inr (int fd, s))))))"

text \<open>How \<open>sys_read\<close> and \<open>sys_write\<close> fetch a file, an address and a count.\<close>

definition with_file ::
  "(nat \<Rightarrow> u64 \<Rightarrow> int \<Rightarrow> ('m, 'a) sysstate_scheme \<Rightarrow> (int \<times> ('m, 'a) sysstate_scheme) res) \<Rightarrow>
   ('m, 'a) sysstate_scheme \<Rightarrow> (int \<times> ('m, 'a) sysstate_scheme) res" where
  "with_file K s = bindE (enter_recovery_critical_section RL_FTABLE 0 s) (\<lambda>s.
     bindE (argfd 0 s) (\<lambda>(r, s). case r of None \<Rightarrow> leave_ftable (-1) s
     | Some (_, f) \<Rightarrow> bindE (argint 2 s) (\<lambda>(n, s). bindE (argaddr 1 s) (\<lambda>(p, s). K f p n s))))"

definition sys_read ::
  "'m io \<Rightarrow> (int \<Rightarrow> ('m, 'a) sysstate_scheme dev) \<Rightarrow> ('m, 'a) sysstate_scheme \<Rightarrow> (int \<times> ('m, 'a) sysstate_scheme) res" where
  "sys_read u devs s = with_file (fileread u devs) s"

definition sys_write ::
  "'m io \<Rightarrow> (int \<Rightarrow> ('m, 'a) sysstate_scheme dev) \<Rightarrow> ('m, 'a) sysstate_scheme \<Rightarrow> (int \<times> ('m, 'a) sysstate_scheme) res" where
  "sys_write u devs s = with_file (filewrite u devs) s"

definition sys_close :: "('m, 'a) sysstate_scheme \<Rightarrow> (int \<times> ('m, 'a) sysstate_scheme) res" where
  "sys_close s = bindE (enter_recovery_critical_section RL_FTABLE 0 s) (\<lambda>s.
     bindE (argfd 0 s) (\<lambda>(r, s). case r of None \<Rightarrow> leave_ftable (-1) s
     | Some (fd, f) \<Rightarrow> bindE (this_proc s) (\<lambda>(p, s).
         bindE (fileclose f (set_ofile p fd 0 s)) (leave_ftable 0))))"

text \<open>
  In \<open>sys_fstat\<close> the variable \<open>f\<close> has no value when \<open>argfd\<close> fails, and the code then tests it
  (\<open>Trap\<close>).
\<close>

definition sys_fstat ::
  "'m io \<Rightarrow> u8 list \<Rightarrow> ('m, 'a) sysstate_scheme \<Rightarrow> (int \<times> ('m, 'a) sysstate_scheme) res" where
  "sys_fstat u pad s = bindE (enter_recovery_critical_section RL_FTABLE 0 s) (\<lambda>s.
     bindE (argfd 0 s) (\<lambda>(r, s). case r of None \<Rightarrow> Inl Trap
     | Some (_, f) \<Rightarrow> bindE (argaddr 1 s) (\<lambda>(st, s). filestat u pad f st s)))"

section \<open>Links\<close>

definition upd_nlink :: "(u16 \<Rightarrow> u16) \<Rightarrow> nat \<Rightarrow> 'a fsstate_scheme \<Rightarrow> 'a fsstate_scheme res" where
  "upd_nlink g ip s = iupdate ip (upd_ino ip (nlink_update g) s)"

definition link_bad :: "nat \<Rightarrow> ('m, 'a) sysstate_scheme \<Rightarrow> (int \<times> ('m, 'a) sysstate_scheme) res" where
  "link_bad ip s = bindE (ilock ip s) (\<lambda>s. bindE (upd_nlink (\<lambda>n. n - 1) ip s) (\<lambda>s.
     bindE (iunlockput ip s) (leave_op (-1))))"

definition sys_link :: "'m io \<Rightarrow> ('m, 'a) sysstate_scheme \<Rightarrow> (int \<times> ('m, 'a) sysstate_scheme) res" where
  "sys_link u s = bindE (argstr u 0 MAXPATH s) (\<lambda>(old, s). case old of None \<Rightarrow> Inr (-1, s) | Some old \<Rightarrow>
     bindE (argstr u 1 MAXPATH s) (\<lambda>(new, s). case new of None \<Rightarrow> Inr (-1, s) | Some new \<Rightarrow>
     bindE (begin_op s) (\<lambda>s.
     bindE (enter_recovery_critical_section RL_ICACHE 0 s) (\<lambda>s.
     bindE (namei old s) (\<lambda>(r, s). case r of None \<Rightarrow> leave_op (-1) s | Some ip \<Rightarrow>
     bindE (ilock ip s) (\<lambda>s.
     if itype (ino s ip) = T_DIR then bindE (iunlockput ip s) (leave_op (-1))
     else bindE (upd_nlink (\<lambda>n. n + 1) ip s) (\<lambda>s.
       bindE (iunlock ip s) (\<lambda>s.
       bindE (nameiparent new [] s) (\<lambda>((r, name), s). case r of None \<Rightarrow> link_bad ip s | Some dp \<Rightarrow>
       bindE (ilock dp s) (\<lambda>s.
       bindE (if idev (ino s dp) \<noteq> idev (ino s ip) then Inr (-1, s) else dirlink dp name (inum (ino s ip)) s) (\<lambda>(r, s).
       if r < 0 then bindE (iunlockput dp s) (link_bad ip)
       else bindE (iunlockput dp s) (\<lambda>s. bindE (iput ip s) (leave_op 0)))))))))))))"

fun dir_empty_scan :: "nat \<Rightarrow> nat list \<Rightarrow> 'a fsstate_scheme \<Rightarrow> (bool \<times> 'a fsstate_scheme) res" where
  "dir_empty_scan dp [] s = Inr (True, s)"
| "dir_empty_scan dp (off # offs) s = bindE (read_de ''isdirempty: readi'' dp off s) (\<lambda>(de, s).
     if de_inum de \<noteq> 0 then Inr (False, s) else dir_empty_scan dp offs s)"

definition isdirempty :: "nat \<Rightarrow> 'a fsstate_scheme \<Rightarrow> (bool \<times> 'a fsstate_scheme) res" where
  "isdirempty dp s = dir_empty_scan dp (drop 2 (dir_offs dp s)) s"

abbreviation DOT :: "u8 list" where "DOT \<equiv> [46]"
abbreviation DOTDOT :: "u8 list" where "DOTDOT \<equiv> [46, 46]"

definition sys_unlink :: "'m io \<Rightarrow> ('m, 'a) sysstate_scheme \<Rightarrow> (int \<times> ('m, 'a) sysstate_scheme) res" where
  "sys_unlink u s = bindE (argstr u 0 MAXPATH s) (\<lambda>(path, s). case path of None \<Rightarrow> Inr (-1, s) | Some path \<Rightarrow>
     bindE (begin_op s) (\<lambda>s.
     bindE (enter_recovery_critical_section RL_ICACHE 0 s) (\<lambda>s.
     bindE (nameiparent path [] s) (\<lambda>((r, name), s). case r of None \<Rightarrow> leave_op (-1) s | Some dp \<Rightarrow>
     bindE (ilock dp s) (\<lambda>s. let bad = (\<lambda>s. bindE (iunlockput dp s) (leave_op (-1))) in
     if namecmp name DOT = 0 \<or> namecmp name DOTDOT = 0 then bad s
     else bindE (dirlookup dp name s) (\<lambda>(r, s). case r of None \<Rightarrow> bad s | Some (ip, off) \<Rightarrow>
     bindE (ilock ip s) (\<lambda>s.
     if sint (nlink (ino s ip)) < 1 then Inl (Panic ''unlink: nlink < 1'')
     else bindE (if itype (ino s ip) = T_DIR then isdirempty ip s else Inr (True, s)) (\<lambda>(e, s).
     if \<not> e then bindE (iunlockput ip s) bad
     else bindE (writei list_source dp 0 off 16 (replicate 16 0) s) (\<lambda>(r, s).
       if r \<noteq> 16 then Inl (Panic ''unlink: writei'')
       else bindE (if itype (ino s ip) = T_DIR then upd_nlink (\<lambda>n. n - 1) dp s else Inr s) (\<lambda>s.
         bindE (iunlockput dp s) (\<lambda>s.
         bindE (upd_nlink (\<lambda>n. n - 1) ip s) (\<lambda>s.
         bindE (iunlockput ip s) (leave_op 0)))))))))))))"

section \<open>Creating and opening\<close>

definition create :: "u8 list \<Rightarrow> u16 \<Rightarrow> u16 \<Rightarrow> u16 \<Rightarrow> ('m, 'a) sysstate_scheme \<Rightarrow> (nat option \<times> ('m, 'a) sysstate_scheme) res" where
  "create path ty maj mi s = bindE (nameiparent path [] s) (\<lambda>((r, name), s). case r of None \<Rightarrow> Inr (None, s) | Some dp \<Rightarrow>
     bindE (ilock dp s) (\<lambda>s.
     bindE (dirlookup dp name s) (\<lambda>(r, s). case r of
       Some (ip, _) \<Rightarrow> bindE (iunlockput dp s) (\<lambda>s. bindE (ilock ip s) (\<lambda>s.
         if ty = T_FILE \<and> (itype (ino s ip) = T_FILE \<or> itype (ino s ip) = T_DEVICE) then Inr (Some ip, s)
         else bindE (iunlockput ip s) (\<lambda>s. Inr (None, s))))
     | None \<Rightarrow> bindE (ialloc (idev (ino s dp)) ty s) (\<lambda>(ip, s).
         bindE (ilock ip s) (\<lambda>s.
         bindE (iupdate ip (upd_ino ip (\<lambda>x. x\<lparr>major := maj, minor := mi, nlink := 1\<rparr>) s)) (\<lambda>s.
         bindE (if ty = T_DIR then bindE (upd_nlink (\<lambda>n. n + 1) dp s) (\<lambda>s.
             bindE (dirlink ip DOT (inum (ino s ip)) s) (\<lambda>(r, s).
             if r < 0 then Inl (Panic ''create dots'')
             else bindE (dirlink ip DOTDOT (inum (ino s dp)) s) (\<lambda>(r, s).
               if r < 0 then Inl (Panic ''create dots'') else Inr s)))
           else Inr s) (\<lambda>s.
         bindE (dirlink dp name (inum (ino s ip)) s) (\<lambda>(r, s).
         if r < 0 then Inl (Panic ''create: dirlink'')
         else bindE (iunlockput dp s) (\<lambda>s. Inr (Some ip, s))))))))))"

abbreviation O_WRONLY :: nat where "O_WRONLY \<equiv> 0"    \<comment> \<open>bits of the mode\<close>
abbreviation O_RDWR :: nat where "O_RDWR \<equiv> 1"
abbreviation O_CREATE :: nat where "O_CREATE \<equiv> 9"

text \<open>The inode of \<open>sys_open\<close>, locked; \<open>None\<close> when the call has failed and left everything.\<close>

definition open_inode :: "u8 list \<Rightarrow> u32 \<Rightarrow> ('m, 'a) sysstate_scheme \<Rightarrow> (nat option \<times> ('m, 'a) sysstate_scheme) res" where
  "open_inode path omode s =
     (if bit omode O_CREATE
      then bindE (enter_recovery_critical_section RL_ICACHE 0 s) (\<lambda>s.
        bindE (create path T_FILE 0 0 s) (\<lambda>(r, s). case r of None \<Rightarrow> leave_op None s | Some ip \<Rightarrow> Inr (Some ip, s)))
      else bindE (enter_recovery_critical_section RL_ICACHE 0 s) (\<lambda>s.
        bindE (namei path s) (\<lambda>(r, s). case r of
          None \<Rightarrow> bindE (end_op s) (\<lambda>s. bindE (exit_recovery_critical_section RL_ICACHE 0 s) (\<lambda>s. Inr (None, s)))
        | Some ip \<Rightarrow> bindE (ilock ip s) (\<lambda>s.
            if itype (ino s ip) = T_DIR \<and> omode \<noteq> 0 then bindE (iunlockput ip s) (leave_op None)
            else Inr (Some ip, s)))))"

definition sys_open :: "'m io \<Rightarrow> ('m, 'a) sysstate_scheme \<Rightarrow> (int \<times> ('m, 'a) sysstate_scheme) res" where
  "sys_open u s = bindE (argstr u 0 MAXPATH s) (\<lambda>(path, s). case path of None \<Rightarrow> Inr (-1, s) | Some path \<Rightarrow>
     bindE (argraw 1 s) (\<lambda>(m, s). let omode = ucast m :: u32 in
     bindE (begin_op s) (\<lambda>s.
     bindE (open_inode path omode s) (\<lambda>(r, s). case r of None \<Rightarrow> Inr (-1, s) | Some ip \<Rightarrow>
     if itype (ino s ip) = T_DEVICE \<and> (sint (major (ino s ip)) < 0 \<or> sint (major (ino s ip)) \<ge> NDEV)
     then bindE (iunlockput ip s) (leave_op (-1))
     else bindE (enter_recovery_critical_section RL_FTABLE 0 s) (\<lambda>s.
       bindE (filealloc s) (\<lambda>(f, s).
       bindE (if f = 0 then Inr (None, s) else fdalloc f s) (\<lambda>(r, s). case r of
         None \<Rightarrow> bindE (close_if f s) (\<lambda>s. bindE (exit_recovery_critical_section RL_FTABLE 0 s) (\<lambda>s.
           bindE (iunlockput ip s) (leave_op (-1))))
       | Some fd \<Rightarrow>
           let s = (if itype (ino s ip) = T_DEVICE
                 then upd_file f (\<lambda>x. x\<lparr>fty := FD_DEVICE, fmajor := sint (major (ino s ip))\<rparr>) s
                 else upd_file f (\<lambda>x. x\<lparr>fty := FD_INODE, foff := 0\<rparr>) s);
               s = upd_file f (\<lambda>x. x\<lparr>fip := ip, readable := \<not> bit omode O_WRONLY,
                     writable := bit omode O_WRONLY \<or> bit omode O_RDWR\<rparr>) s in
           bindE (leave_file f s) (\<lambda>s.
           bindE (iunlock ip s) (\<lambda>s.
           bindE (exit_recovery_critical_section_nodes RL_INODE ip s) (leave_op (int fd)))))))))))"

definition sys_mkdir :: "'m io \<Rightarrow> ('m, 'a) sysstate_scheme \<Rightarrow> (int \<times> ('m, 'a) sysstate_scheme) res" where
  "sys_mkdir u s = bindE (begin_op s) (\<lambda>s.
     bindE (enter_recovery_critical_section RL_ICACHE 0 s) (\<lambda>s.
     bindE (argstr u 0 MAXPATH s) (\<lambda>(path, s). case path of None \<Rightarrow> leave_op (-1) s | Some path \<Rightarrow>
     bindE (create path T_DIR 0 0 s) (\<lambda>(r, s). case r of None \<Rightarrow> leave_op (-1) s | Some ip \<Rightarrow>
     bindE (iunlockput ip s) (leave_op 0)))))"

definition sys_mknod :: "'m io \<Rightarrow> ('m, 'a) sysstate_scheme \<Rightarrow> (int \<times> ('m, 'a) sysstate_scheme) res" where
  "sys_mknod u s = bindE (begin_op s) (\<lambda>s.
     bindE (enter_recovery_critical_section RL_ICACHE 0 s) (\<lambda>s.
     bindE (argstr u 0 MAXPATH s) (\<lambda>(path, s). case path of None \<Rightarrow> leave_op (-1) s | Some path \<Rightarrow>
     bindE (argint 1 s) (\<lambda>(maj, s). bindE (argint 2 s) (\<lambda>(mi, s).
     bindE (create path T_DEVICE (of_int maj) (of_int mi) s) (\<lambda>(r, s). case r of None \<Rightarrow> leave_op (-1) s | Some ip \<Rightarrow>
     bindE (iunlockput ip s) (leave_op 0)))))))"

definition sys_chdir :: "'m io \<Rightarrow> ('m, 'a) sysstate_scheme \<Rightarrow> (int \<times> ('m, 'a) sysstate_scheme) res" where
  "sys_chdir u s = bindE (this_proc s) (\<lambda>(p, s). bindE (begin_op s) (\<lambda>s.
     bindE (enter_recovery_critical_section RL_ICACHE 0 s) (\<lambda>s.
     bindE (argstr u 0 MAXPATH s) (\<lambda>(path, s). case path of None \<Rightarrow> leave_op (-1) s | Some path \<Rightarrow>
     bindE (namei path s) (\<lambda>(r, s). case r of None \<Rightarrow> leave_op (-1) s | Some ip \<Rightarrow>
     bindE (ilock ip s) (\<lambda>s.
     if itype (ino s ip) \<noteq> T_DIR then bindE (iunlockput ip s) (leave_op (-1))
     else bindE (iunlock ip s) (\<lambda>s.
       bindE (exit_recovery_critical_section_nodes RL_INODE ip s) (\<lambda>s.
       bindE (iput (cwd s p) s) (\<lambda>s.
       bindE (leave_op () s) (\<lambda>(_, s). Inr (0, s\<lparr>cwd := (cwd s)(p := ip)\<rparr>)))))))))))"

section \<open>Pipes\<close>

definition pipe_fail :: "nat \<Rightarrow> nat \<Rightarrow> ('m, 'a) sysstate_scheme \<Rightarrow> (int \<times> ('m, 'a) sysstate_scheme) res" where
  "pipe_fail f0 f1 s = bindE (fileclose f0 s) (\<lambda>s. bindE (fileclose f1 s) (leave_ftable (-1)))"

definition copyout_int :: "'m io \<Rightarrow> u64 \<Rightarrow> nat \<Rightarrow> ('m, 'a) sysstate_scheme \<Rightarrow> bool \<times> ('m, 'a) sysstate_scheme" where
  "copyout_int u a x s = (let (ok, m) = uout u a (le_bytes 4 x) (umem s) in (ok, s\<lparr>umem := m\<rparr>))"

definition sys_pipe :: "'m io \<Rightarrow> ('m, 'a) sysstate_scheme \<Rightarrow> (int \<times> ('m, 'a) sysstate_scheme) res" where
  "sys_pipe u s = bindE (this_proc s) (\<lambda>(p, s).
     bindE (enter_recovery_critical_section RL_FTABLE 0 s) (\<lambda>s.
     bindE (argaddr 0 s) (\<lambda>(fdarray, s).
     bindE (pipealloc s) (\<lambda>(r, s). case r of None \<Rightarrow> leave_ftable (-1) s | Some (f0, f1) \<Rightarrow>
     bindE (fdalloc f0 s) (\<lambda>(r, s). case r of None \<Rightarrow> pipe_fail f0 f1 s | Some fd0 \<Rightarrow>
     bindE (fdalloc f1 s) (\<lambda>(r, s). case r of None \<Rightarrow> pipe_fail f0 f1 (set_ofile p fd0 0 s) | Some fd1 \<Rightarrow>
     let (ok, s) = copyout_int u fdarray fd0 s;
         (ok, s) = (if ok then copyout_int u (fdarray + 4) fd1 s else (False, s)) in
     if \<not> ok then pipe_fail f0 f1 (set_ofile p fd1 0 (set_ofile p fd0 0 s))
     else bindE (exit_recovery_critical_section_nodes RL_FILE f0 s) (\<lambda>s.
       bindE (exit_recovery_critical_section_nodes RL_FILE f1 s) (leave_ftable 0))))))))"

section \<open>Reading from a file\<close>

lemma this_proc_ok: "cpu_ok s \<Longrightarrow> curproc s = Some p \<Longrightarrow> this_proc s = Inr (p, saved s)"
  by (simp add: this_proc_def myproc_ok)

lemma args_ok:
  assumes "cpu_ok s" and "curproc s = Some p" and "n < 6"
  shows "argraw n s = Inr (tfarg s p n, saved s)" and "argint n s = Inr (sint (ucast (tfarg s p n) :: u32), saved s)"
    and "argaddr n s = Inr (tfarg s p n, saved s)"
  using this_proc_ok [OF assms(1,2)] assms(3)
  by (simp_all add: argraw_def argint_def argaddr_def) (simp_all add: saved_def)

lemma same_core_sys:
  assumes "core t = core s"
  shows "ofile t = ofile s" and "tfarg t = tfarg s"
proof -
  have f: "\<And>g. g (core t) = g (core s)" using assms by simp
  show "ofile t = ofile s" "tfarg t = tfarg s" using f [of ofile] f [of tfarg] by (simp_all add: core_def)
qed

lemma rcs_ready_saved [simp]:
  "rcs_ready p i (saved s) = rcs_ready p i s" "open_sections i (saved s) = open_sections i s"
  by (simp_all add: rcs_ready_def open_sections_def)

lemma saved_sys [simp]:
  "ofile (saved s) = ofile s" "tfarg (saved s) = tfarg s" "files (saved s') = files s'" "umem (saved s') = umem s'"
  by (simp_all add: saved_def)

text \<open>The sections of a call on an open file, and the descriptor in its first argument.\<close>

lemma descriptor_in:
  assumes "rcs_ready p i s" and "length (open_sections i s) + 2 \<le> RCS_HIST"
    and "sint (ucast (tfarg s p 0) :: u32) = int fd" and "fd < NOFILE" and "ofile s p fd = f" and "f \<noteq> 0"
    and "search_recovery_idx RL_FILE f s = g" and "real_flag g"
  obtains t where "bindE (enter_recovery_critical_section RL_FTABLE 0 s) (argfd 0) = Inr (Some (fd, f), t)"
    and "rcs_ready p i t" and "open_sections i t = open_sections i s @ [RL_FTABLE, g]" and "core t = core s"
    and "slocks t = slocks s" and "rl_num t = counts_up g (counts_up RL_FTABLE (rl_num s))"
proof -
  obtain a where a: "enter_recovery_critical_section RL_FTABLE 0 s = Inr a" "rcs_ready p i a"
    "open_sections i a = open_sections i s @ [RL_FTABLE]" "core a = core s" "slocks a = slocks s"
    "rl_num a = (rl_num s)(nat RL_FTABLE := rl_num s (nat RL_FTABLE) + 1)"
    by (rule section_in [OF assms(1), of RL_FTABLE]) (use assms(2) in simp_all)
  note ca = same_core [OF a(4)] same_core_sys [OF a(4)]
  obtain t where t: "enter_recovery_critical_section_nodes RL_FILE f (saved a) = Inr t" "rcs_ready p i t"
    "open_sections i t = open_sections i (saved a) @ [g]" "core t = core (saved a)" "slocks t = slocks (saved a)"
    "rl_num t = (rl_num (saved a))(nat g := rl_num (saved a) (nat g) + 1)"
    by (rule node_in [of p i "saved a" RL_FILE f g]) (use assms a ca in simp_all)
  have "cpu_ok a" "curproc a = Some p" using a(2) by (simp_all add: rcs_ready_def)
  then have "argfd 0 a = Inr (Some (fd, f), t)"
    using args_ok(2) [of a p 0] this_proc_ok [of "saved a" p] t(1) assms(3-6) ca
    by (simp add: argfd_def Let_def)
  then show thesis using a t by (intro that [of t]) (simp_all add: counts_up_def)
qed

lemma file_call:
  fixes s :: "('m, 'a) sysstate_scheme"
  assumes "rcs_ready p i s" and "length (open_sections i s) + 2 \<le> RCS_HIST"
    and "sint (ucast (tfarg s p 0) :: u32) = int fd" and "fd < NOFILE" and "ofile s p fd = f" and "f \<noteq> 0"
    and "search_recovery_idx RL_FILE f s = g" and "real_flag g"
  obtains b where "with_file K s = K f (tfarg s p 1) (sint (ucast (tfarg s p 2) :: u32)) b"
    and "rcs_ready p i b" and "open_sections i b = open_sections i s @ [RL_FTABLE, g]" and "core b = core s"
    and "slocks b = slocks s" and "rl_num b = counts_up g (counts_up RL_FTABLE (rl_num s))"
proof -
  obtain a where a: "bindE (enter_recovery_critical_section RL_FTABLE 0 s) (argfd 0) = Inr (Some (fd, f), a)"
    "rcs_ready p i a" "open_sections i a = open_sections i s @ [RL_FTABLE, g]" "core a = core s" "slocks a = slocks s"
    "rl_num a = counts_up g (counts_up RL_FTABLE (rl_num s))"
    by (rule descriptor_in [OF assms])
  define b where "b = saved (saved a)"
  have "cpu_ok a" "curproc a = Some p" using a(2) by (simp_all add: rcs_ready_def)
  then have args: "argint 2 a = Inr (sint (ucast (tfarg s p 2) :: u32), saved a)"
    "argaddr 1 (saved a) = Inr (tfarg s p 1, b)"
    using args_ok [of a p 2] args_ok [of "saved a" p 1] same_core_sys [OF a(4)] by (simp_all add: b_def)
  let ?k = "\<lambda>(r, s). case r of None \<Rightarrow> leave_ftable (-1) s
      | Some (_, f) \<Rightarrow> bindE (argint 2 s) (\<lambda>(n, s). bindE (argaddr 1 s) (\<lambda>(p, s). K f p n s))"
  have "with_file K s = bindE (bindE (enter_recovery_critical_section RL_FTABLE 0 s) (argfd 0)) ?k"
    by (simp add: with_file_def)
  also have "\<dots> = K f (tfarg s p 1) (sint (ucast (tfarg s p 2) :: u32)) b" unfolding a(1) using args by simp
  finally show thesis by (rule that) (use a in \<open>simp_all add: b_def\<close>)
qed

text \<open>
  C9. \<open>read\<close> on an open file delivers the next bytes of the file, at most up to its end, to the
  memory of the caller, moves the offset by their number and changes no other file, inode or
  block; all the sections it entered are left, and the lock of the inode is free again.
\<close>

theorem sys_read_next:
  assumes "inode_ready p i q ip s" and "open_sections i s = []" and "spid (slocks s (islock s ip)) = 0"
    and "sint (ucast (tfarg s p 0) :: u32) = int fd" and "fd < NOFILE" and "ofile s p fd = f" and "f \<noteq> 0"
    and "real_flag (search_recovery_idx RL_FILE f s)"
    and "readable (files s f)" and "fty (files s f) = FD_INODE" and "fip (files s f) = ip"
    and "mapped_file ip s" and "unat (foff (files s f)) = off" and "unat (isize (ino s ip)) = sz" and "off \<le> sz"
    and "sint (ucast (tfarg s p 2) :: u32) = int n" and "off + n < 2 ^ 32" and "uout u = to_sink store_bytes"
    and "k = min n (sz - off)"
  shows "\<exists>t. sys_read u devs s = Inr (int k, t) \<and>
    umem t = store_bytes (tfarg s p 1) (map (\<lambda>j. fbyte ip j s) [off..<off + k]) (umem s) \<and>
    files t = (files s)(f := (files s f)\<lparr>foff := of_nat (off + k)\<rparr>) \<and> ino t = ino s \<and> jr t = jr s \<and>
    open_sections i t = [] \<and> rl_num t = rl_num s \<and> slocks t = slocks s"
proof -
  let ?g = "search_recovery_idx RL_FILE f s" and ?a = "tfarg s p 1"
  have r: "rcs_ready p i s" using assms(1) by (simp add: inode_ready_def)
  obtain b where K: "with_file (fileread u devs) s = fileread u devs f ?a (sint (ucast (tfarg s p 2) :: u32)) b"
    and b: "rcs_ready p i b"
    "open_sections i b = [RL_FTABLE, ?g]" "core b = core s" "slocks b = slocks s"
    "rl_num b = counts_up ?g (counts_up RL_FTABLE (rl_num s))"
    by (rule file_call [OF r _ assms(4-7) refl assms(8)]) (use assms(2) in simp_all)
  note cb = b(3) and sb = b(4,5) and rb = b(1,2)
  note cs = same_core [OF cb] same_core_files [OF cb] same_core_fs [OF cb]
  have ir: "inode_ready p i q ip b" using assms(1) rb(1) sb cs by (simp add: inode_ready_def)
  obtain c where c: "file_readi u f ?a (int n) b = Inr (int k, c)" "rcs_ready p i c" "open_sections i c = open_sections i b"
    "slocks c = slocks b" "rl_num c = rl_num b"
    "core c = core (upd_file f (foff_update (\<lambda>_. of_nat (off + k)))
       (b\<lparr>umem := store_bytes ?a (map (\<lambda>j. fbyte ip j b) [off..<off + k]) (umem b)\<rparr>))"
    by (rule buffer.file_readi_ok [where f = f and n = "int n" and off = off and k = k and addr = ?a,
          OF ir _ _ _ _ _ _ _ assms(18)])
      (use assms rb(2) cs sb in \<open>simp_all add: mapped_file_def\<close>)
  note cc = same_core [OF c(6)] same_core_files [OF c(6)] same_core_fs [OF c(6)]
  have g: "search_recovery_idx RL_FILE f c = ?g"
    using cc(14) [of RL_FILE f] cs(14) [of RL_FILE f] by (simp add: upd_file_def search_recovery_idx_def)
  obtain t where t: "leave_file f c = Inr t" "core t = core c" "open_sections i t = []" "slocks t = slocks c"
    "rl_num t = counts_down RL_FTABLE (counts_down ?g (rl_num c))"
    by (rule leave_file_ok [OF c(2) g assms(8), of "[]"]) (use c(3) rb(2) in simp_all)
  have rd: "sys_read u devs s = Inr (int k, t)"
    unfolding sys_read_def K assms(16) using c(1) t(1) cs assms(9,10) by (simp add: fileread_def)
  have ct: "files t = files c" "umem t = umem c" "ino t = ino c" "jr t = jr c"
    using same_core_files [OF t(2)] same_core_fs [OF t(2)] by simp_all
  have "(\<lambda>j. fbyte ip j b) = (\<lambda>j. fbyte ip j s)" using cs by (simp add: fun_eq_iff)
  then have "files t = (files s)(f := (files s f)\<lparr>foff := of_nat (off + k)\<rparr>)"
    "umem t = store_bytes ?a (map (\<lambda>j. fbyte ip j s) [off..<off + k]) (umem s)" "ino t = ino s" "jr t = jr s"
    using ct cc cs by (simp_all add: upd_file_def del: map_eq_conv)
  moreover have "rl_num t = rl_num s" "slocks t = slocks s" using t(4,5) c(4,5) sb by simp_all
  ultimately show ?thesis using rd t(3) by blast
qed

text \<open>
  \<open>write\<close> on a device without a driver fails with -1 but leaves the section of the inode
  cache, which it has not entered: the count of its users is one too low from then on.
\<close>

text \<open>
  \<open>write\<close> on a device without a driver fails with -1 but leaves the section of the inode
  cache, which it has not entered: the count of its users is one too low from then on.
\<close>

theorem write_to_no_device:
  assumes "rcs_ready p i s" and "open_sections i s = []"
    and "sint (ucast (tfarg s p 0) :: u32) = int fd" and "fd < NOFILE" and "ofile s p fd = f" and "f \<noteq> 0"
    and "real_flag (search_recovery_idx RL_FILE f s)"
    and "writable (files s f)" and "fty (files s f) = FD_DEVICE"
    and "fmajor (files s f) < 0 \<or> fmajor (files s f) \<ge> NDEV \<or> dwrite (devs (fmajor (files s f))) = None"
  shows "\<exists>t. sys_write u devs s = Inr (-1, t) \<and> open_sections i t = [] \<and>
    rl_num t = (rl_num s)(nat RL_ICACHE := rl_num s (nat RL_ICACHE) - 1)"
proof -
  let ?g = "search_recovery_idx RL_FILE f s" and ?a = "tfarg s p 1" and ?n = "sint (ucast (tfarg s p 2) :: u32)"
  obtain b where K: "with_file (filewrite u devs) s = filewrite u devs f ?a ?n b"
    and b: "rcs_ready p i b"
    "open_sections i b = [RL_FTABLE, ?g]" "core b = core s"
    "rl_num b = counts_up ?g (counts_up RL_FTABLE (rl_num s))"
    by (rule file_call [OF assms(1) _ assms(3-6) refl assms(7)]) (use assms(2) in simp_all)
  have g: "search_recovery_idx RL_FILE f b = ?g" using same_core [OF b(3)] by simp
  obtain c where c: "leave_file f b = Inr c" "rcs_ready p i c" "core c = core b" "open_sections i c = []"
    "rl_num c = counts_down RL_FTABLE (counts_down ?g (rl_num b))"
    by (rule leave_file_ok [OF b(1) g assms(7), of "[]"]) (use b(2) in simp_all)
  obtain t where t: "exit_recovery_critical_section RL_ICACHE 0 c = Inr t" "open_sections i t = open_sections i c"
    "rl_num t = (rl_num c)(nat RL_ICACHE := rl_num c (nat RL_ICACHE) - 1)"
    by (rule section_out_absent [OF c(2), of RL_ICACHE]) (use c(4) in simp_all)
  have "sys_write u devs s = Inr (-1, t)"
    unfolding sys_write_def K using assms(8-10) same_core_files [OF b(3)] c(1) t(1) by (auto simp: filewrite_def Let_def)
  then show ?thesis using t c b(4) by simp
qed

text \<open>
  With a bad descriptor \<open>dup\<close> fails with -1 and leaves its section, but \<open>fstat\<close> goes on to
  use a pointer that was never set.
\<close>

text \<open>
  With a bad descriptor \<open>dup\<close> fails with -1 and leaves its section, but \<open>fstat\<close> goes on to
  use a pointer that was never set.
\<close>

text \<open>
  With a bad descriptor \<open>dup\<close> fails with -1 and leaves its section, but \<open>fstat\<close> goes on to
  use a pointer that was never set.
\<close>

theorem fstat_bad_descriptor:
  assumes "rcs_ready p i s" and "open_sections i s = []"
    and "sint (ucast (tfarg s p 0) :: u32) = fd" and "fd < 0 \<or> int NOFILE \<le> fd \<or> ofile s p (nat fd) = 0"
  shows "sys_fstat u pad s = Inl Trap \<and> (\<exists>t. sys_dup s = Inr (-1, t) \<and> open_sections i t = [] \<and> rl_num t = rl_num s)"
proof -
  obtain a where a: "enter_recovery_critical_section RL_FTABLE 0 s = Inr a" "rcs_ready p i a"
    "open_sections i a = open_sections i s @ [RL_FTABLE]" "core a = core s"
    "rl_num a = (rl_num s)(nat RL_FTABLE := rl_num s (nat RL_FTABLE) + 1)"
    by (rule section_in [OF assms(1), of RL_FTABLE]) (use assms(2) in simp_all)
  have "cpu_ok a" "curproc a = Some p" using a(2) by (simp_all add: rcs_ready_def)
  then have n: "argfd 0 a = Inr (None, saved a)"
    using args_ok(2) [of a p 0] this_proc_ok [of "saved a" p] assms(3,4) same_core_sys [OF a(4)]
    by (auto simp: argfd_def Let_def)
  obtain t where t: "exit_recovery_critical_section RL_FTABLE 0 (saved a) = Inr t"
    "open_sections i t = remove_last RL_FTABLE (open_sections i (saved a))"
    "rl_num t = (rl_num (saved a))(nat RL_FTABLE := rl_num (saved a) (nat RL_FTABLE) - 1)"
    by (rule section_out [of p i "saved a" RL_FTABLE]) (use a(2,3) in simp_all)
  have "open_sections i t = []" using t(2) a(3) assms(2) remove_last_snoc [of RL_FTABLE "[]"] by simp
  then show ?thesis using a(1,5) n t(1,3) by (simp add: sys_fstat_def sys_dup_def leave_ftable_def)
qed

text \<open>A process with an empty file open as descriptor 0 that reads two bytes.\<close>

definition demo_open :: kfile where
  "demo_open = \<lparr>fty = FD_INODE, fref = 1, readable = True, writable = True, fpipe = 0, fip = inode_at 0 0,
     foff = 0, fmajor = 0\<rparr>"

definition demo_sys :: "bytes sysstate" where
  "demo_sys = (let b = init_recovery_lock_idx (demo_fs\<lparr>ftable_at := 0, icache_at := 0\<rparr>) in
     filestate.extend (dirstate.extend (fsstate.extend b (dirstate.fields (\<lambda>_. 0)))
       (filestate.fields (\<lambda>_. 0) (\<lambda>_. demo_open) (file_at 0)))
       (sysstate.fields (\<lambda>_ _. file_at 0 (Suc 0)) (\<lambda>_ k. if k = 2 then 2 else 0) (\<lambda>_. 0)))"

lemma demo_sys_sel [simp]:
  "hart demo_sys = hart demo_fs" "cproc demo_sys = cproc demo_fs" "noff demo_sys = noff demo_fs"
  "sie demo_sys = sie demo_fs" "locks demo_sys = locks demo_fs" "procs demo_sys = procs demo_fs"
  "slocks demo_sys = slocks demo_fs" "rcs_infos demo_sys = rcs_infos demo_fs" "ino demo_sys = ino demo_fs"
  "islock demo_sys = islock demo_fs" "files demo_sys = (\<lambda>_. demo_open)" "ofile demo_sys = (\<lambda>_ _. file_at 0 (Suc 0))"
  "tfarg demo_sys = (\<lambda>_ k. if k = 2 then 2 else 0)" "umem demo_sys = (\<lambda>_. 0)"
  by (simp_all add: demo_sys_def init_recovery_lock_idx_def fsstate.defs dirstate.defs filestate.defs sysstate.defs)

lemma demo_sys_flags:
  "i < NFILE \<Longrightarrow> search_recovery_idx RL_FILE (file_at 0 i) demo_sys = 38 + int i"
  "i < NINODE \<Longrightarrow> search_recovery_idx RL_INODE (inode_at 0 i) demo_sys = 138 + int i"
proof -
  let ?b = "init_recovery_lock_idx (demo_fs\<lparr>ftable_at := 0, icache_at := 0\<rparr>)"
  have e: "search_recovery_idx k a demo_sys = search_recovery_idx k a ?b" for k a
    by (simp add: demo_sys_def search_recovery_idx_def fsstate.defs dirstate.defs filestate.defs sysstate.defs
        init_recovery_lock_idx_def cong: option.case_cong)
  have t: "ftable_at (init_recovery_lock_idx s) = ftable_at s" "icache_at (init_recovery_lock_idx s) = icache_at s"
    for s :: fsstate by (simp_all add: init_recovery_lock_idx_def)
  show "i < NFILE \<Longrightarrow> search_recovery_idx RL_FILE (file_at 0 i) demo_sys = 38 + int i"
    "i < NINODE \<Longrightarrow> search_recovery_idx RL_INODE (inode_at 0 i) demo_sys = 138 + int i"
    unfolding e using t flag_of_init [of "ObjFile i" "demo_fs\<lparr>ftable_at := 0, icache_at := 0\<rparr>"]
      flag_of_init [of "ObjInode i" "demo_fs\<lparr>ftable_at := 0, icache_at := 0\<rparr>"] by simp_all
qed

lemma demo_sys_ready: "rcs_ready 0 0 demo_sys" "open_sections 0 demo_sys = []" "procs_free demo_sys"
  "free_lock lk demo_sys" "curpid demo_sys = Inr (Suc 0)" "slocks demo_fs n = \<lparr>slocked = False, slname = [], spid = 0\<rparr>"
proof -
  show free: "free_lock lk demo_sys" for lk
    by (simp add: free_lock_def) (simp add: demo_fs_def memstate.defs ptdupstate.defs pipestate.defs consstate.defs logstate.defs
        fsstate.defs boot_mem_def transtate.defs)
  show "rcs_ready 0 0 demo_sys"
    using demo_log_ready free by (simp add: log_ready_def rcs_ready_def cpu_ok_def curproc_def rcs_find_def)
  show "open_sections 0 demo_sys = []"
  proof -
    have "rcs_infos demo_fs = rcs_infos (boot_mem (\<lambda>_. 0) 0)"
      by (simp add: demo_fs_def memstate.defs ptdupstate.defs pipestate.defs consstate.defs logstate.defs fsstate.defs)
    then show ?thesis by (simp add: open_sections_def hist_abs_def)
  qed
  show "procs_free demo_sys" by (simp add: procs_free_def free)
  show "curpid demo_sys = Inr (Suc 0)"
    by (simp add: curpid_def curproc_def) (simp add: demo_fs_def memstate.defs ptdupstate.defs pipestate.defs consstate.defs logstate.defs
        fsstate.defs boot_mem_def transtate.defs)
  show "slocks demo_fs n = \<lparr>slocked = False, slname = [], spid = 0\<rparr>"
    by (simp add: demo_fs_def memstate.defs ptdupstate.defs pipestate.defs consstate.defs logstate.defs
        fsstate.defs boot_mem_def transtate.defs boot_tr_def boot_rl_def boot_sched_def mach.defs sched.defs rlstate.defs)
qed

theorem sys_read_next_witness:
  "\<exists>t. sys_read \<lparr>uout = to_sink store_bytes, uin = (\<lambda>_ _ _. ([], True))\<rparr> (\<lambda>_. \<lparr>dread = None, dwrite = None\<rparr>) demo_sys =
     Inr (0, t) \<and> rl_num t = rl_num demo_sys"
proof -
  have f: "search_recovery_idx RL_FILE (file_at 0 (Suc 0)) demo_sys = 39"
    "search_recovery_idx RL_INODE (inode_at 0 0) demo_sys = 138"
    using demo_sys_flags(1) [of "Suc 0"] demo_sys_flags(2) [of 0] by simp_all
  have "inode_at 0 0 \<noteq> 0" by (simp add: inode_at_def)
  then have "inode_ready 0 0 1 (inode_at 0 0) demo_sys"
    using demo_sys_ready by (simp add: inode_ready_def f real_flag_def demo_inode_def)
  moreover have "mapped_file (inode_at 0 0) demo_sys" by (simp add: mapped_file_def demo_inode_def)
  moreover have "file_at 0 (Suc 0) \<noteq> 0" by (simp add: file_at_def)
  ultimately show ?thesis
    using sys_read_next [of 0 0 1 "inode_at 0 0" demo_sys 0 "file_at 0 (Suc 0)" 0 0 2
        "\<lparr>uout = to_sink store_bytes, uin = (\<lambda>_ _ _. ([], True))\<rparr>" 0 "\<lambda>_. \<lparr>dread = None, dwrite = None\<rparr>"]
      demo_sys_ready by (simp add: f real_flag_def demo_open_def demo_inode_def) blast
qed

lemma files_update_frame [simp]:
  "rcs_ready p i (files_update g s) = rcs_ready p i s" "open_sections i (files_update g s) = open_sections i s"
  "search_recovery_idx k a (files_update g s) = search_recovery_idx k a s" "rl_num (files_update g s) = rl_num s"
  "rcs_ready p i (tfarg_update h t) = rcs_ready p i t" "open_sections i (tfarg_update h t) = open_sections i t"
  by (simp_all add: rcs_ready_def open_sections_def search_recovery_idx_def cpu_ok_def free_lock_def curproc_def
      rcs_find_def cong: option.case_cong)

theorem write_to_no_device_witness:
  "\<exists>t. sys_write \<lparr>uout = to_sink store_bytes, uin = (\<lambda>_ _ _. ([], True))\<rparr> (\<lambda>_. \<lparr>dread = None, dwrite = None\<rparr>)
     (demo_sys\<lparr>files := (\<lambda>_. demo_open\<lparr>fty := FD_DEVICE\<rparr>)\<rparr>) = Inr (-1, t) \<and> rl_num t 4 = rl_num demo_sys 4 - 1"
proof -
  have f: "search_recovery_idx RL_FILE (file_at 0 (Suc 0)) demo_sys = 39" using demo_sys_flags(1) [of "Suc 0"] by simp
  have "file_at 0 (Suc 0) \<noteq> 0" by (simp add: file_at_def)
  then show ?thesis
    using write_to_no_device [of 0 0 "demo_sys\<lparr>files := (\<lambda>_. demo_open\<lparr>fty := FD_DEVICE\<rparr>)\<rparr>" 0 "file_at 0 (Suc 0)"
        "\<lambda>_. \<lparr>dread = None, dwrite = None\<rparr>" "\<lparr>uout = to_sink store_bytes, uin = (\<lambda>_ _ _. ([], True))\<rparr>"]
      demo_sys_ready by (simp add: f real_flag_def demo_open_def) auto
qed

theorem fstat_bad_descriptor_witness:
  "sys_fstat \<lparr>uout = to_sink store_bytes, uin = (\<lambda>_ _ _. ([], True))\<rparr> [] (demo_sys\<lparr>tfarg := (\<lambda>_ _. 16)\<rparr>) = Inl Trap"
  using fstat_bad_descriptor [of 0 0 "demo_sys\<lparr>tfarg := (\<lambda>_ _. 16)\<rparr>" 16
      "\<lparr>uout = to_sink store_bytes, uin = (\<lambda>_ _ _. ([], True))\<rparr>" "[]"] demo_sys_ready by simp

end
