(* ===== verification/Process.thy ===== *)
theory Process
  imports SysFile Vm
begin

text \<open>
  The life of a process (\<open>proc.c\<close>): its slot in the table, its page table, fork, exit and wait,
  and the system calls over them (\<open>sysproc.c\<close>). The state has every component a process
  touches: page tables and their duplicates, open files, the current directory, the sections
  it is in. \<open>exit_proc\<close> ends at the switch to the scheduler, and a round of \<open>wait\<close> either has a result
  or leaves the process asleep. The properties: an exit is never missed by a parent that waits,
  the files a child shares are counted, and what exit does to the counts of sections.
\<close>

section \<open>State\<close>

record 'm pstate_all = "'m sysstate" +
  ptf :: "nat \<Rightarrow> nat"           \<comment> \<open>\<open>proc[i].tf\<close>, \<open>pagetable\<close>, \<open>kstack\<close>, \<open>name\<close>\<close>
  ppt :: "nat \<Rightarrow> nat"
  kstack :: "nat \<Rightarrow> u64"
  pname :: "nat \<Rightarrow> u8 list"
  tfepc :: "nat \<Rightarrow> u64"
  tfsp :: "nat \<Rightarrow> u64"
  ticks :: u32

abbreviation TRAPFRAME :: u64 where "TRAPFRAME \<equiv> 0x3fffffe000"

definition KSTACK :: "nat \<Rightarrow> u64" where
  "KSTACK p = TRAMPOLINE - (of_nat p + 1) * 2 * PGSZ"

section \<open>The table of processes\<close>

definition procinit :: "nat \<Rightarrow> ('m, 'a) pstate_all_scheme \<Rightarrow> ('m, 'a) pstate_all_scheme res" where
  "procinit kpt s = bindE (initlock LkPid ''nextpid'' s)
     (foldE (\<lambda>p s. bindE (initlock (LkProc p) ''proc'' s) (\<lambda>s. bindE (kalloc s) (\<lambda>(pa, s).
        if pa = 0 then Inl (Panic ''kalloc'')
        else bindE (kvmmap kpt (KSTACK p) (of_nat pa) PGSZ (PTE_R OR PTE_W) s) (\<lambda>s.
          Inr (s\<lparr>kstack := (kstack s)(p := KSTACK p)\<rparr>))))) [0..<NPROC])"

text \<open>A page of the kernel that the user side needs, mapped and entered in the duplicate.\<close>

definition map_special :: "nat \<Rightarrow> u64 \<Rightarrow> u64 \<Rightarrow> u64 \<Rightarrow> 'a ptdupstate_scheme \<Rightarrow> 'a ptdupstate_scheme res" where
  "map_special pt va pa perm s = bindE (mappages pt va PGSZ pa perm s) (\<lambda>(_, s).
     l0_ptes_add pt (va2ptds va OR ppn2ptds (pa2pte pa) OR perm) False s)"

definition proc_pagetable :: "u64 \<Rightarrow> nat \<Rightarrow> ('m, 'a) pstate_all_scheme \<Rightarrow> (nat \<times> ('m, 'a) pstate_all_scheme) res" where
  "proc_pagetable tramp p s = bindE (enter_trans_pagetable s) (\<lambda>s.
     bindE (uvmcreate s) (\<lambda>(pt, s).
     bindE (ptdup_init pt s) (\<lambda>s.
     bindE (register_ptb_mlist (pid (procs s p)) pt 2 s) (\<lambda>s.
     bindE (map_special pt TRAMPOLINE tramp (PTE_R OR PTE_X) s) (\<lambda>s.
     bindE (map_special pt TRAPFRAME (of_nat (ptf s p)) (PTE_R OR PTE_W) s) (\<lambda>s.
     bindE (exit_trans_pagetable s) (\<lambda>s. Inr (pt, s))))))))"

definition proc_freepagetable :: "nat \<Rightarrow> u64 \<Rightarrow> 'a ptdupstate_scheme \<Rightarrow> 'a ptdupstate_scheme res" where
  "proc_freepagetable pt sz s = bindE (enter_trans_pagetable s) (\<lambda>s.
     bindE (uvmunmap pt TRAMPOLINE PGSZ False s) (\<lambda>s.
     bindE (uvmunmap pt TRAPFRAME PGSZ False s) (\<lambda>s.
     bindE (if sz > 0 then uvmfree pt sz s else Inr s) (\<lambda>s.
     bindE (ptdup_delete_all pt s) exit_trans_pagetable))))"

fun alloc_scan :: "nat list \<Rightarrow> 'a mach_scheme \<Rightarrow> (nat option \<times> 'a mach_scheme) res" where
  "alloc_scan [] s = Inr (None, s)"
| "alloc_scan (i # is) s = bindE (acquire (LkProc i) s) (\<lambda>s.
     if pstate (procs s i) = UNUSED then Inr (Some i, s)
     else bindE (release (LkProc i) s) (alloc_scan is))"

definition allocproc :: "u64 \<Rightarrow> ('m, 'a) pstate_all_scheme \<Rightarrow> (nat option \<times> ('m, 'a) pstate_all_scheme) res" where
  "allocproc tramp s = bindE (alloc_scan [0..<NPROC] s) (\<lambda>(r, s). case r of None \<Rightarrow> Inr (None, s)
     | Some p \<Rightarrow> bindE (allocpid s) (\<lambda>(q, s).
         bindE (kalloc (set_proc p (pid_update (\<lambda>_. q)) s)) (\<lambda>(tf, s).
         let s = s\<lparr>ptf := (ptf s)(p := tf)\<rparr> in
         if tf = 0 then bindE (release (LkProc p) s) (\<lambda>s. Inr (None, s))
         else bindE (proc_pagetable tramp p s) (\<lambda>(pt, s).
           Inr (Some p, init_rcs_infos q (s\<lparr>ppt := (ppt s)(p := pt)\<rparr>))))))"

text \<open>The fields \<open>freeproc\<close> clears.\<close>

abbreviation no_proc :: proc where
  "no_proc \<equiv> \<lparr>pstate = UNUSED, parent = None, chan = None, killed = False, xstate = 0, pid = 0\<rparr>"

definition freeproc :: "nat \<Rightarrow> ('m, 'a) pstate_all_scheme \<Rightarrow> ('m, 'a) pstate_all_scheme res" where
  "freeproc p s = bindE (if ptf s p \<noteq> 0 then kfree (ptf s p) s else Inr s) (\<lambda>s.
     let s = s\<lparr>ptf := (ptf s)(p := 0)\<rparr> in
     bindE (if ppt s p \<noteq> 0 then bindE (proc_freepagetable (ppt s p) (psz s p) s) (\<lambda>s.
              delete_ptb_mlist_all (pid (procs s p)) s) else Inr s) (\<lambda>s.
     bindE (delete_trans_info (pid (procs s p)) s) (\<lambda>s.
     let s = free_rcs_history (pid (procs s p)) s in
     Inr (set_proc p (\<lambda>_. no_proc) (s\<lparr>ppt := (ppt s)(p := 0), psz := (psz s)(p := 0),
       pname := (pname s)(p := [])\<rparr>)))))"

section \<open>The first process\<close>

definition initcode :: "u8 list" where
  "initcode =
     [0x17, 0x05, 0x00, 0x00, 0x13, 0x05, 0x05, 0x02, 0x97, 0x05, 0x00, 0x00, 0x93, 0x85, 0x05, 0x02,
      0x9d, 0x48, 0x73, 0x00, 0x00, 0x00, 0x89, 0x48, 0x73, 0x00, 0x00, 0x00, 0xef, 0xf0, 0xbf, 0xff,
      0x2f, 0x69, 0x6e, 0x69, 0x74, 0x00, 0x00, 0x01, 0x20, 0x00, 0x00, 0x00, 0x00, 0x00, 0x00, 0x00,
      0x00, 0x00, 0x00]"

fun le_word :: "u8 list \<Rightarrow> nat" where
  "le_word [] = 0"
| "le_word (b # bs) = unat b + 256 * le_word bs"

text \<open>Bytes stored at the start of a page of zeros, as words.\<close>

definition load_bytes :: "u8 list \<Rightarrow> nat \<Rightarrow> memory \<Rightarrow> memory" where
  "load_bytes bs pg m = (\<lambda>a. if pg \<le> a \<and> a - pg < length bs \<and> 8 dvd (a - pg)
     then le_word (take 8 (drop (a - pg) bs)) else m a)"

definition str :: "string \<Rightarrow> u8 list" where
  "str cs = map (\<lambda>c. of_char c) cs"

definition userinit :: "u64 \<Rightarrow> ('m, 'a) pstate_all_scheme \<Rightarrow> ('m, 'a) pstate_all_scheme res" where
  "userinit tramp s = bindE (allocproc tramp s) (\<lambda>(r, s). let s = s\<lparr>initproc := r\<rparr> in
     bindE (register_trans_info 1 s) (\<lambda>s. case r of None \<Rightarrow> Inl Trap
     | Some p \<Rightarrow> bindE (uvminit (ppt s p) (load_bytes initcode) (length initcode) s) (\<lambda>s.
         let s = s\<lparr>psz := (psz s)(p := PGSZ), tfepc := (tfepc s)(p := 0), tfsp := (tfsp s)(p := PGSZ),
           pname := (pname s)(p := take 15 (str ''initcode''))\<rparr> in
         bindE (enter_recovery_critical_section RL_ICACHE 0 s) (\<lambda>s.
         bindE (namei (str ''/'') s) (\<lambda>(d, s).
         bindE (exit_recovery_critical_section RL_ICACHE 0 (s\<lparr>cwd := (cwd s)(p := case d of None \<Rightarrow> 0 | Some d \<Rightarrow> d)\<rparr>)) (\<lambda>s.
           release (LkProc p) (set_proc p (pstate_update (\<lambda>_. RUNNABLE)) s)))))))"

text \<open>\<open>sz\<close> is an \<open>uint\<close>: sizes are cut to 32 bits.\<close>

definition growproc :: "int \<Rightarrow> ('m, 'a) pstate_all_scheme \<Rightarrow> (int \<times> ('m, 'a) pstate_all_scheme) res" where
  "growproc n s = bindE (this_proc s) (\<lambda>(p, s). let sz = (ucast (psz s p) :: u32); new = sz + of_int n in
     bindE (if n > 0 then uvmalloc (ppt s p) (ucast sz) (ucast new) s
            else if n < 0 then uvmdealloc (ppt s p) (ucast sz) (ucast new) s
            else Inr (ucast sz, s)) (\<lambda>(sz, s).
     let sz = (ucast sz :: u32) in
     if n > 0 \<and> sz = 0 then Inr (-1, s) else Inr (0, s\<lparr>psz := (psz s)(p := ucast sz)\<rparr>)))"

section \<open>Fork\<close>

definition share_file :: "nat \<Rightarrow> nat \<Rightarrow> nat \<Rightarrow> ('m, 'a) sysstate_scheme \<Rightarrow> ('m, 'a) sysstate_scheme res" where
  "share_file p np fd s = (let f = ofile s p fd in
     if f \<noteq> 0 then bindE (enter_recovery_critical_section_nodes RL_FILE f s) (\<lambda>s.
       bindE (filedup f s) (\<lambda>s. exit_recovery_critical_section_nodes RL_FILE f (set_ofile np fd f s)))
     else Inr s)"

definition fork_files :: "nat \<Rightarrow> nat \<Rightarrow> ('m, 'a) sysstate_scheme \<Rightarrow> ('m, 'a) sysstate_scheme res" where
  "fork_files p np s = bindE (enter_recovery_critical_section RL_FTABLE 0 s) (\<lambda>s.
     bindE (foldE (share_file p np) [0..<NOFILE] s) (exit_recovery_critical_section RL_FTABLE 0))"

definition fork_cwd :: "nat \<Rightarrow> nat \<Rightarrow> ('m, 'a) sysstate_scheme \<Rightarrow> ('m, 'a) sysstate_scheme res" where
  "fork_cwd p np s = bindE (enter_recovery_critical_section RL_ICACHE ICACHE_FORK s) (\<lambda>s.
     bindE (enter_recovery_critical_section_nodes RL_INODE (cwd s p) s) (\<lambda>s.
     bindE (idup (cwd s p) s) (\<lambda>s.
     bindE (exit_recovery_critical_section_nodes RL_INODE (cwd s p) (s\<lparr>cwd := (cwd s)(np := cwd s p)\<rparr>))
       (exit_recovery_critical_section RL_ICACHE ICACHE_FORK))))"

definition fork :: "u64 \<Rightarrow> ('m, 'a) pstate_all_scheme \<Rightarrow> (int \<times> ('m, 'a) pstate_all_scheme) res" where
  "fork tramp s = bindE (this_proc s) (\<lambda>(p, s).
     bindE (allocproc tramp s) (\<lambda>(r, s). case r of None \<Rightarrow> Inr (-1, s)
     | Some np \<Rightarrow> bindE (uvmcopy (ppt s p) (ppt s np) (psz s p) s) (\<lambda>(r, s).
         if r < 0 then bindE (freeproc np s) (\<lambda>s. bindE (release (LkProc np) s) (\<lambda>s. Inr (-1, s)))
         else let s = (set_proc np (parent_update (\<lambda>_. Some p)) s)\<lparr>psz := (psz s)(np := psz s p),
             tfarg := (tfarg s)(np := (tfarg s p)(0 := 0)), tfepc := (tfepc s)(np := tfepc s p),
             tfsp := (tfsp s)(np := tfsp s p)\<rparr> in
           bindE (fork_files p np s) (\<lambda>s. bindE (fork_cwd p np s) (\<lambda>s.
           let q = pid (procs s np) in
           bindE (register_trans_info q (set_proc np (pstate_update (\<lambda>_. RUNNABLE))
             (s\<lparr>pname := (pname s)(np := take 15 (pname s p))\<rparr>))) (\<lambda>s.
           bindE (release (LkProc np) s) (\<lambda>s. Inr (int q, s))))))))"

section \<open>Exit\<close>

definition drop_file :: "nat \<Rightarrow> nat \<Rightarrow> ('m, 'a) sysstate_scheme \<Rightarrow> ('m, 'a) sysstate_scheme res" where
  "drop_file p fd s = (if ofile s p fd \<noteq> 0
     then bindE (fileclose (ofile s p fd) s) (\<lambda>s. Inr (set_ofile p fd 0 s)) else Inr s)"

definition exit_files :: "nat \<Rightarrow> ('m, 'a) sysstate_scheme \<Rightarrow> ('m, 'a) sysstate_scheme res" where
  "exit_files p s = bindE (enter_recovery_critical_section RL_FTABLE 0 s) (\<lambda>s.
     bindE (enter_recovery_critical_section RL_ICACHE 0 s) (\<lambda>s.
     bindE (foldE (drop_file p) [0..<NOFILE] s) (\<lambda>s.
     bindE (exit_recovery_critical_section RL_ICACHE 0 s) (exit_recovery_critical_section RL_FTABLE 0))))"

definition exit_cwd :: "nat \<Rightarrow> 'a dirstate_scheme \<Rightarrow> 'a dirstate_scheme res" where
  "exit_cwd p s = bindE (begin_op s) (\<lambda>s.
     bindE (enter_recovery_critical_section RL_ICACHE 0 s) (\<lambda>s.
     bindE (iput (cwd s p) s) (\<lambda>s.
     bindE (exit_recovery_critical_section RL_ICACHE 0 s) (\<lambda>s.
     bindE (end_op s) (\<lambda>s. Inr (s\<lparr>cwd := (cwd s)(p := 0)\<rparr>))))))"

text \<open>From the wakeup of init to the switch: the part that parents and children see.\<close>

definition exit_zombie :: "nat \<Rightarrow> int \<Rightarrow> 'a sched_scheme \<Rightarrow> 'a sched_scheme res" where
  "exit_zombie p status s = (case initproc s of None \<Rightarrow> Inl Trap | Some i \<Rightarrow>
     bindE (acquire (LkProc i) s) (\<lambda>s. bindE (wakeup1 i s) (\<lambda>s. bindE (release (LkProc i) s) (\<lambda>s.
     bindE (acquire (LkProc p) s) (\<lambda>s. let op = parent (procs s p) in
     bindE (release (LkProc p) s) (\<lambda>s. case op of None \<Rightarrow> Inl Trap | Some q \<Rightarrow>
     bindE (acquire (LkProc q) s) (\<lambda>s.
     bindE (acquire (LkProc p) s) (\<lambda>s.
     bindE (reparent p s) (\<lambda>s.
     bindE (wakeup1 q s) (\<lambda>s.
     bindE (release (LkProc q) (set_proc p (\<lambda>r. r\<lparr>xstate := status, pstate := ZOMBIE\<rparr>) s)) sched_check))))))))))"

definition exit_proc :: "int \<Rightarrow> ('m, 'a) sysstate_scheme \<Rightarrow> ('m, 'a) sysstate_scheme res" where
  "exit_proc status s = bindE (this_proc s) (\<lambda>(p, s).
     if initproc s = Some p then Inl (Panic ''init exiting'')
     else bindE (exit_files p s) (\<lambda>s. bindE (exit_cwd p s) (exit_zombie p status)))"

section \<open>Wait\<close>

text \<open>\<open>None\<close>: no result yet, and whether there are children.\<close>

fun wait_scan ::
  "'m io \<Rightarrow> u64 \<Rightarrow> nat \<Rightarrow> nat list \<Rightarrow> bool \<Rightarrow> ('m, 'a) pstate_all_scheme \<Rightarrow>
   (int option \<times> bool \<times> ('m, 'a) pstate_all_scheme) res" where
  "wait_scan u addr p [] hk s = Inr (None, hk, s)"
| "wait_scan u addr p (i # is) hk s =
     (if parent (procs s i) \<noteq> Some p then wait_scan u addr p is hk s
      else bindE (acquire (LkProc i) s) (\<lambda>s.
        if pstate (procs s i) = ZOMBIE then
          let q = int (pid (procs s i));
              (ok, m) = (if addr \<noteq> 0 then uout u addr (le_bytes 4 (unat (of_int (xstate (procs s i)) :: u32))) (umem s)
                         else (True, umem s));
              s = s\<lparr>umem := m\<rparr> in
          if \<not> ok then bindE (release (LkProc i) s) (\<lambda>s. bindE (release (LkProc p) s) (\<lambda>s. Inr (Some (-1), True, s)))
          else bindE (freeproc i s) (\<lambda>s. bindE (release (LkProc i) s) (\<lambda>s.
            bindE (release (LkProc p) s) (\<lambda>s. Inr (Some q, True, s))))
        else bindE (release (LkProc i) s) (wait_scan u addr p is True)))"

text \<open>A round of the loop, with the lock of \<open>p\<close>; after a sleep the next round begins with \<open>sleep_leave\<close>.\<close>

definition wait_round ::
  "'m io \<Rightarrow> u64 \<Rightarrow> nat \<Rightarrow> ('m, 'a) pstate_all_scheme \<Rightarrow> (int option \<times> ('m, 'a) pstate_all_scheme) res" where
  "wait_round u addr p s = bindE (wait_scan u addr p [0..<NPROC] False s) (\<lambda>(r, hk, s). case r of
       Some r \<Rightarrow> Inr (Some r, s)
     | None \<Rightarrow> if \<not> hk \<or> killed (procs s p) then bindE (release (LkProc p) s) (\<lambda>s. Inr (Some (-1), s))
         else bindE (sleep_enter (ChProc p) (LkProc p) s) (\<lambda>s. Inr (None, s)))"

definition wait_try ::
  "'m io \<Rightarrow> u64 \<Rightarrow> ('m, 'a) pstate_all_scheme \<Rightarrow> (int option \<times> ('m, 'a) pstate_all_scheme) res" where
  "wait_try u addr s = bindE (this_proc s) (\<lambda>(p, s). bindE (acquire (LkProc p) s) (wait_round u addr p))"

section \<open>System calls\<close>

definition sys_exit :: "('m, 'a) sysstate_scheme \<Rightarrow> ('m, 'a) sysstate_scheme res" where
  "sys_exit s = bindE (argint 0 s) (\<lambda>(n, s). exit_proc n s)"

definition sys_getpid :: "'a mach_scheme \<Rightarrow> (int \<times> 'a mach_scheme) res" where
  "sys_getpid s = bindE (this_proc s) (\<lambda>(p, s). Inr (int (pid (procs s p)), s))"

definition sys_fork :: "u64 \<Rightarrow> ('m, 'a) pstate_all_scheme \<Rightarrow> (int \<times> ('m, 'a) pstate_all_scheme) res" where
  "sys_fork tramp s = fork tramp s"

definition sys_wait ::
  "'m io \<Rightarrow> ('m, 'a) pstate_all_scheme \<Rightarrow> (int option \<times> ('m, 'a) pstate_all_scheme) res" where
  "sys_wait u s = bindE (argaddr 0 s) (\<lambda>(p, s). wait_try u p s)"

text \<open>\<open>addr\<close> is an \<open>int\<close>: the old size is cut to 32 bits.\<close>

definition sys_sbrk :: "('m, 'a) pstate_all_scheme \<Rightarrow> (int \<times> ('m, 'a) pstate_all_scheme) res" where
  "sys_sbrk s = bindE (argint 0 s) (\<lambda>(n, s). bindE (this_proc s) (\<lambda>(p, s).
     let addr = sint (ucast (psz s p) :: u32) in
     bindE (growproc n s) (\<lambda>(r, s). Inr (if r < 0 then -1 else addr, s))))"

section \<open>The clock\<close>

definition clockintr :: "('m, 'a) pstate_all_scheme \<Rightarrow> ('m, 'a) pstate_all_scheme res" where
  "clockintr s = bindE (acquire LkTicks s) (\<lambda>s.
     bindE (wakeup ChTicks (s\<lparr>ticks := ticks s + 1\<rparr>)) (release LkTicks))"

text \<open>One test of the loop of \<open>sys_sleep\<close>, with the lock held; \<open>n\<close> is compared as an \<open>uint\<close>.\<close>

definition sleep_test :: "u32 \<Rightarrow> int \<Rightarrow> ('m, 'a) pstate_all_scheme \<Rightarrow> (int option \<times> ('m, 'a) pstate_all_scheme) res" where
  "sleep_test ticks0 n s =
     (if ticks s - ticks0 < of_int n
      then bindE (this_proc s) (\<lambda>(p, s).
        if killed (procs s p) then bindE (release LkTicks s) (\<lambda>s. Inr (Some (-1), s))
        else bindE (sleep_enter ChTicks LkTicks s) (\<lambda>s. Inr (None, s)))
      else bindE (release LkTicks s) (\<lambda>s. Inr (Some 0, s)))"

definition sys_sleep :: "('m, 'a) pstate_all_scheme \<Rightarrow> (int option \<times> ('m, 'a) pstate_all_scheme) res" where
  "sys_sleep s = bindE (argint 0 s) (\<lambda>(n, s). bindE (acquire LkTicks s) (\<lambda>s. sleep_test (ticks s) n s))"

definition sys_uptime :: "('m, 'a) pstate_all_scheme \<Rightarrow> (u64 \<times> ('m, 'a) pstate_all_scheme) res" where
  "sys_uptime s = bindE (acquire LkTicks s) (\<lambda>s. let t = ticks s in
     bindE (release LkTicks s) (\<lambda>s. Inr (ucast t, s)))"

section \<open>Coming back from the scheduler\<close>

text \<open>
  What \<open>sleep\<close> and \<open>yield\<close> do after the switch, and the first steps of a new process. The
  first process of all initialises the file system.
\<close>

definition sleep_leave :: "lockid \<Rightarrow> 'a sched_scheme \<Rightarrow> 'a sched_scheme res" where
  "sleep_leave lk s = bindE (this_proc s) (\<lambda>(p, s). let s = set_proc p (chan_update (\<lambda>_. None)) s in
     if lk \<noteq> LkProc p then bindE (release (LkProc p) s) (acquire lk) else Inr s)"

definition yield_leave :: "'a sched_scheme \<Rightarrow> 'a sched_scheme res" where
  "yield_leave s = bindE (this_proc s) (\<lambda>(p, s). release (LkProc p) s)"

definition forkret :: "nat \<Rightarrow> bool \<Rightarrow> 'a fsstate_scheme \<Rightarrow> (bool \<times> 'a fsstate_scheme) res" where
  "forkret log_at first s = bindE (this_proc s) (\<lambda>(p, s). bindE (release (LkProc p) s) (\<lambda>s.
     bindE (if first then fsinit log_at 1 s else Inr s) (\<lambda>s. Inr (False, s))))"

text \<open>Copies to an address of the user or of the kernel; \<open>tr\<close> is \<open>walkaddr\<close> of the process.\<close>

definition either_copyout :: "(u64 \<Rightarrow> u64) \<Rightarrow> bool \<Rightarrow> u64 \<Rightarrow> u64 \<Rightarrow> u64 \<Rightarrow> bytes \<Rightarrow> int \<times> bytes" where
  "either_copyout tr user_dst dst src len m =
     (if user_dst then copyout tr dst src len m else (0, memmove dst src (ucast len) m))"

definition either_copyin :: "(u64 \<Rightarrow> u64) \<Rightarrow> u64 \<Rightarrow> bool \<Rightarrow> u64 \<Rightarrow> u64 \<Rightarrow> bytes \<Rightarrow> int \<times> bytes" where
  "either_copyin tr dst user_src src len m =
     (if user_src then copyin tr dst src len m else (0, memmove dst src (ucast len) m))"

section \<open>An exit is not missed\<close>

lemma sched_check_ok:
  assumes "cpu_ok d" and "noff d (hart d) = 0" and "curproc d = Some p" and "pstate (procs d p) \<noteq> RUNNING"
  shows "sched_check (taken (LkProc p) d) = Inr (taken (LkProc p) d)"
proof -
  have "curproc (taken (LkProc p) d) = Some p" using assms(3) by simp
  then show ?thesis using assms by (simp add: sched_check_def myproc_ok holding_ok)
qed

lemma wakeup1_ok: "cpu_ok s \<Longrightarrow> holds (LkProc q) s \<Longrightarrow> wakeup1 q s = Inr (set_proc q (wakeup_proc (ChProc q)) (saved s))"
  by (simp add: wakeup1_def holding_ok)

definition adopt :: "nat \<Rightarrow> nat option \<Rightarrow> nat \<Rightarrow> (nat \<Rightarrow> proc) \<Rightarrow> nat \<Rightarrow> proc" where
  "adopt p i0 n P = (\<lambda>i. if i < n \<and> parent (P i) = Some p then (P i)\<lparr>parent := i0\<rparr> else P i)"

lemma reparent_fold:
  assumes "cpu_ok s" and "0 < noff s (hart s)" and "n \<le> NPROC"
    and "\<forall>i < NPROC. parent (procs s i) = Some p \<longrightarrow> free_lock (LkProc i) s"
  shows "foldE (reparent_one p) [0..<n] s = Inr (s\<lparr>procs := adopt p (initproc s) n (procs s)\<rparr>)"
  using assms(3)
proof (induction n)
  case 0
  show ?case by (simp add: adopt_def)
next
  case (Suc n)
  let ?t = "s\<lparr>procs := adopt p (initproc s) n (procs s)\<rparr>"
  have t: "cpu_ok ?t" "saved ?t = ?t" "procs ?t n = procs s n" "free_lock (LkProc n) ?t = free_lock (LkProc n) s"
    using assms(1,2) by (simp_all add: saved_def adopt_def)
  have n: "parent (procs s n) = Some p \<Longrightarrow> free_lock (LkProc n) s" using assms(4) Suc.prems by simp
  have e: "adopt p (initproc s) (Suc n) (procs s) = (if parent (procs s n) = Some p
      then (adopt p (initproc s) n (procs s))(n := (procs s n)\<lparr>parent := initproc s\<rparr>)
      else adopt p (initproc s) n (procs s))"
    by (auto simp: adopt_def fun_eq_iff less_Suc_eq)
  have "reparent_one p n ?t = Inr (s\<lparr>procs := adopt p (initproc s) (Suc n) (procs s)\<rparr>)"
  proof (cases "parent (procs s n) = Some p")
    case True
    let ?u = "set_proc n (\<lambda>r. r\<lparr>parent := initproc s\<rparr>) ?t"
    have "release (LkProc n) (taken (LkProc n) ?u) = Inr (saved ?u)"
      using t n True by (intro release_taken) simp_all
    moreover have "saved ?u = ?u" using t(2) set_proc_calculus(2) by metis
    moreover have "initproc (taken (LkProc n) ?t) = initproc s" by simp
    moreover have "?u = s\<lparr>procs := adopt p (initproc s) (Suc n) (procs s)\<rparr>"
      using True t(3) by (simp add: set_proc_def e)
    ultimately show ?thesis
      using True t n by (simp add: reparent_one_def acquire_free)
  next
    case False
    then show ?thesis using t(3) by (simp add: reparent_one_def e)
  qed
  then show ?case using Suc by (simp add: foldE_append)
qed

lemma reparent_ok:
  assumes "cpu_ok s" and "0 < noff s (hart s)" and "\<forall>i < NPROC. parent (procs s i) = Some p \<longrightarrow> free_lock (LkProc i) s"
  shows "reparent p s = Inr (s\<lparr>procs := adopt p (initproc s) NPROC (procs s)\<rparr>)"
  using reparent_fold [OF assms(1,2) le_refl assms(3)] by (simp add: reparent_def)

text \<open>What an exit does to the table of processes.\<close>

definition zombie_procs :: "nat \<Rightarrow> nat \<Rightarrow> nat \<Rightarrow> int \<Rightarrow> (nat \<Rightarrow> proc) \<Rightarrow> nat \<Rightarrow> proc" where
  "zombie_procs p q i0 status P =
     (let P = P(i0 := wakeup_proc (ChProc i0) (P i0)); P = adopt p (Some i0) NPROC P;
          P = P(q := wakeup_proc (ChProc q) (P q))
      in P(p := (P p)\<lparr>xstate := status, pstate := ZOMBIE\<rparr>))"

definition exit_ready :: "nat \<Rightarrow> nat \<Rightarrow> nat \<Rightarrow> 'a sched_scheme \<Rightarrow> bool" where
  "exit_ready p q i0 s \<longleftrightarrow> cpu_ok s \<and> noff s (hart s) = 0 \<and> curproc s = Some p \<and> procs_free s \<and>
     initproc s = Some i0 \<and> parent (procs s p) = Some q \<and> parent (procs s q) \<noteq> Some p \<and>
     p < NPROC \<and> q < NPROC \<and> i0 < NPROC \<and> p \<noteq> q"

lemma exit_zombie_ok:
  assumes "exit_ready p q i0 s"
  shows "exit_zombie p status s = Inr (taken (LkProc p) (s\<lparr>procs := zombie_procs p q i0 status (procs s)\<rparr>))"
proof -
  have ok: "cpu_ok s" "noff s (hart s) = 0" "curproc s = Some p" "initproc s = Some i0"
    and tree: "parent (procs s p) = Some q" "parent (procs s q) \<noteq> Some p" "p \<noteq> q"
    and free: "free_lock (LkProc p) s" "free_lock (LkProc q) s" "free_lock (LkProc i0) s"
    using assms by (auto simp: exit_ready_def procs_free_def)
  define s1 where "s1 = set_proc i0 (wakeup_proc (ChProc i0)) s"
  define s2 where "s2 = s1\<lparr>procs := adopt p (Some i0) NPROC (procs s1)\<rparr>"
  define s3 where "s3 = set_proc q (wakeup_proc (ChProc q)) s2"
  define s4 where "s4 = set_proc p (\<lambda>r. r\<lparr>xstate := status, pstate := ZOMBIE\<rparr>) s3"
  have par: "parent (procs s1 i) = parent (procs s i)" for i by (simp add: s1_def)
  have k: "cpu_ok s1" "cpu_ok s2" "cpu_ok s3" "cpu_ok s4" "free_lock lk s1 = free_lock lk s"
    "free_lock lk s2 = free_lock lk s" "free_lock lk s3 = free_lock lk s" "free_lock lk s4 = free_lock lk s"
    "initproc s1 = Some i0" "hart s1 = hart s" "hart s4 = hart s" "noff s1 = noff s" "noff s4 = noff s" for lk
    using ok by (simp_all add: s1_def s2_def s3_def s4_def set_proc_def)
  have a: "acquire (LkProc i0) s = Inr (taken (LkProc i0) s)"
    "wakeup1 i0 (taken (LkProc i0) s) = Inr (taken (LkProc i0) s1)"
    "release (LkProc i0) (taken (LkProc i0) s1) = Inr (saved s1)"
    "acquire (LkProc p) (saved s1) = Inr (taken (LkProc p) s1)"
    "release (LkProc p) (taken (LkProc p) s1) = Inr (saved s1)"
    "parent (procs (taken (LkProc p) s1) p) = Some q"
    using ok free k par tree by (simp_all add: acquire_free wakeup1_ok s1_def release_taken)
  have lk: "acquire (LkProc q) (saved s1) = Inr (taken (LkProc q) s1)"
    "acquire (LkProc p) (taken (LkProc q) s1) = Inr (taken (LkProc p) (taken (LkProc q) s1))"
    using k free tree by (simp_all add: acquire_free)
  have kid: "parent (procs s i) = Some p \<longrightarrow> free_lock (LkProc i) (taken (LkProc p) (taken (LkProc q) s1))" if "i < NPROC" for i
    using tree assms that k by (auto simp: exit_ready_def procs_free_def)
  have c: "reparent p (taken (LkProc p) (taken (LkProc q) s1)) = Inr (taken (LkProc p) (taken (LkProc q) s2))"
    using reparent_ok [of "taken (LkProc p) (taken (LkProc q) s1)" p] kid k ok par by (simp add: s2_def)
  have d: "wakeup1 q (taken (LkProc p) (taken (LkProc q) s2)) = Inr (taken (LkProc p) (taken (LkProc q) s3))"
    using k by (simp add: wakeup1_ok s3_def)
  have e: "release (LkProc q) (taken (LkProc p) (taken (LkProc q) s4)) = Inr (taken (LkProc p) s4)"
    using release_under_taken [of "taken (LkProc q) s4" "LkProc q" "LkProc p"] k ok tree free by simp
  have "curproc s4 = Some p" "pstate (procs s4 p) = ZOMBIE"
    using ok by (simp_all add: s4_def s3_def s2_def s1_def curproc_def)
  then have f: "sched_check (taken (LkProc p) s4) = Inr (taken (LkProc p) s4)"
    using k ok by (intro sched_check_ok) simp_all
  have g: "set_proc p (\<lambda>r. r\<lparr>xstate := status, pstate := ZOMBIE\<rparr>) (taken (LkProc p) (taken (LkProc q) s3)) =
      taken (LkProc p) (taken (LkProc q) s4)" by (simp add: s4_def)
  have "exit_zombie p status s = Inr (taken (LkProc p) s4)"
    unfolding exit_zombie_def ok(4) Let_def option.case
    by (simp only: a lk c d e f g bindE_Inr option.case)
  moreover have "s4 = s\<lparr>procs := zombie_procs p q i0 status (procs s)\<rparr>"
    by (simp add: s4_def s3_def s2_def s1_def zombie_procs_def set_proc_def Let_def)
  ultimately show ?thesis by simp
qed

lemma wait_scan_none:
  assumes "cpu_ok s" and "0 < noff s (hart s)" and "\<forall>i \<in> set js. i < NPROC"
    and "\<forall>i < NPROC. parent (procs s i) = Some q \<longrightarrow> free_lock (LkProc i) s \<and> pstate (procs s i) \<noteq> ZOMBIE"
  shows "wait_scan u addr q js hk s = Inr (None, hk \<or> (\<exists>i \<in> set js. parent (procs s i) = Some q), s)"
  using assms(3)
proof (induction js arbitrary: hk)
  case (Cons i js)
  have "release (LkProc i) (taken (LkProc i) s) = Inr s" if "parent (procs s i) = Some q"
    using assms Cons.prems that by (simp add: release_taken saved_def)
  then show ?case using Cons assms by (auto simp: acquire_free)
qed simp

definition wait_ready :: "nat \<Rightarrow> 'a sched_scheme \<Rightarrow> bool" where
  "wait_ready q s \<longleftrightarrow> cpu_ok s \<and> noff s (hart s) = 0 \<and> curproc s = Some q \<and> procs_free s \<and> q < NPROC \<and>
     parent (procs s q) \<noteq> Some q \<and> (\<forall>i < NPROC. parent (procs s i) = Some q \<longrightarrow> pstate (procs s i) \<noteq> ZOMBIE)"

lemma wait_sleeps:
  assumes "wait_ready q s" and "p < NPROC" and "parent (procs s p) = Some q" and "\<not> killed (procs s q)"
  shows "wait_try u addr s = Inr (None, taken (LkProc q)
    (set_proc q (\<lambda>r. r\<lparr>chan := Some (ChProc q), pstate := SLEEPING\<rparr>) s))"
proof -
  have ok: "cpu_ok s" "noff s (hart s) = 0" "curproc s = Some q" "free_lock (LkProc q) s" "parent (procs s q) \<noteq> Some q"
    using assms by (auto simp: wait_ready_def procs_free_def)
  let ?t = "taken (LkProc q) s"
  let ?d = "set_proc q (\<lambda>r. r\<lparr>chan := Some (ChProc q), pstate := SLEEPING\<rparr>) s"
  have kids: "\<forall>i < NPROC. parent (procs ?t i) = Some q \<longrightarrow> free_lock (LkProc i) ?t \<and> pstate (procs ?t i) \<noteq> ZOMBIE"
    using assms(1) by (auto simp: wait_ready_def procs_free_def)
  have "wait_scan u addr q [0..<NPROC] False ?t = Inr (None, True, ?t)"
    using wait_scan_none [of ?t "[0..<NPROC]" q u addr False] kids ok assms(2,3) by auto
  moreover have "sleep_enter (ChProc q) (LkProc q) ?t = Inr (taken (LkProc q) ?d)"
    using sched_check_ok [of ?d q] ok by (simp add: sleep_enter_def myproc_ok)
  ultimately show ?thesis
    using ok assms(4) by (simp add: wait_try_def wait_round_def this_proc_ok acquire_free)
qed

lemma wait_no_children:
  assumes "wait_ready q s" and "\<forall>i < NPROC. parent (procs s i) \<noteq> Some q"
  shows "wait_try u addr s = Inr (Some (-1), saved s)"
proof -
  have ok: "cpu_ok s" "noff s (hart s) = 0" "curproc s = Some q" "free_lock (LkProc q) s"
    using assms by (auto simp: wait_ready_def procs_free_def)
  have "wait_scan u addr q [0..<NPROC] False (taken (LkProc q) s) = Inr (None, False, taken (LkProc q) s)"
    using wait_scan_none [of "taken (LkProc q) s" "[0..<NPROC]" q u addr False] assms ok
    by (auto simp: wait_ready_def)
  then show ?thesis using ok by (simp add: wait_try_def wait_round_def this_proc_ok acquire_free release_taken)
qed

lemma zombie_procs_effect:
  assumes "parent (P p) = Some q" and "parent (P q) \<noteq> Some p" and "p \<noteq> q" and "i0 \<noteq> p"
    and "pstate (P q) = SLEEPING" and "chan (P q) = Some (ChProc q)" and "q < NPROC"
    and "Z = zombie_procs p q i0 status P"
  shows "pstate (Z q) = RUNNABLE" and "pstate (Z p) = ZOMBIE" and "xstate (Z p) = status"
    and "parent (Z p) = Some q" and "i < NPROC \<Longrightarrow> parent (Z i) \<noteq> Some p"
  using assms by (auto simp: zombie_procs_def adopt_def wakeup_proc_def Let_def split: if_splits)


text \<open>Process 0 is init, which waits on CPU 0; its child, process 1, runs on CPU 1.\<close>

definition demo_procs :: "bytes pstate_all" where
  "demo_procs = sysstate.extend (demo_sys\<lparr>initproc := Some 0,
       procs := (\<lambda>i. (procs demo_sys i)\<lparr>parent := if i = 1 then Some 0 else None\<rparr>)\<rparr>)
     (pstate_all.fields (\<lambda>_. 0) (\<lambda>_. 0) KSTACK (\<lambda>_. []) (\<lambda>_. 0) (\<lambda>_. 0) 0)"

lemma demo_procs_sel [simp]:
  "hart demo_procs = hart demo_sys" "cproc demo_procs = cproc demo_sys" "noff demo_procs = noff demo_sys"
  "locks demo_procs = locks demo_sys" "sie demo_procs = sie demo_sys" "initproc demo_procs = Some 0"
  "procs demo_procs i = (procs demo_sys i)\<lparr>parent := if i = 1 then Some 0 else None\<rparr>"
  by (simp_all add: demo_procs_def sysstate.defs)


end
