(* ===== verification/ForkFiles.thy ===== *)
theory ForkFiles
  imports Process
begin

text \<open>
  The open files of a process in fork and exit (\<open>proc.c\<close>): fork counts a file once more for every
  descriptor the child gets and leaves every section it enters; exit leaves sections of files
  that it has not entered.
\<close>

section \<open>Fork\<close>

lemma core_ofile [simp]:
  fixes s :: "('m, 'a) sysstate_scheme"
  shows "core (ofile_update g s) = ofile_update g (core s)" and "core (files_update h s) = files_update h (core s)"
  by (rule sysstate.equality; simp add: core_def)+

lemma upd_file_sel [simp]:
  "file_idx (upd_file f g s) = file_idx s" "inode_idx (upd_file f g s) = inode_idx s" "buf_idx (upd_file f g s) = buf_idx s"
  "locks (upd_file f g s) = locks s" "rl_num (upd_file f g s) = rl_num s" "rcs_infos (upd_file f g s) = rcs_infos s"
  "procs (upd_file f g s) = procs s" "noff (upd_file f g s) = noff s" "sie (upd_file f g s) = sie s"
  "hart (upd_file f g s) = hart s" "cproc (upd_file f g s) = cproc s"
  "ofile (upd_file f h t) = ofile t"
  by (simp_all add: upd_file_def)

lemma set_ofile_sel [simp]:
  "file_idx (set_ofile p fd f s) = file_idx s" "inode_idx (set_ofile p fd f s) = inode_idx s"
  "buf_idx (set_ofile p fd f s) = buf_idx s"
  "locks (set_ofile p fd f s) = locks s" "rl_num (set_ofile p fd f s) = rl_num s" "rcs_infos (set_ofile p fd f s) = rcs_infos s"
  "procs (set_ofile p fd f s) = procs s" "noff (set_ofile p fd f s) = noff s" "sie (set_ofile p fd f s) = sie s"
  "hart (set_ofile p fd f s) = hart s" "cproc (set_ofile p fd f s) = cproc s"
  "files (set_ofile p fd f s) = files s" "ofile (set_ofile p fd f s) = (ofile s)(p := (ofile s p)(fd := f))"
  by (simp_all add: set_ofile_def)

lemma ready_files:
  "rcs_ready p i (upd_file f g s) = rcs_ready p i s" "open_sections i (upd_file f g s) = open_sections i s"
  "free_lock lk (upd_file f g s) = free_lock lk s" "search_recovery_idx k a (upd_file f g s) = search_recovery_idx k a s"
  "rcs_ready p i (set_ofile q fd f t) = rcs_ready p i t" "open_sections i (set_ofile q fd f t) = open_sections i t"
  "free_lock lk (set_ofile q fd f t) = free_lock lk t" "search_recovery_idx k a (set_ofile q fd f t) = search_recovery_idx k a t"
  by (simp_all add: rcs_ready_def open_sections_def free_lock_def cpu_ok_def curproc_def rcs_find_def
      search_recovery_idx_def cong: option.case_cong)

lemma filedup_ok:
  "cpu_ok s \<Longrightarrow> free_lock LkFtable s \<Longrightarrow> 1 \<le> fref (files s f) \<Longrightarrow>
     filedup f s = Inr (saved (upd_file f (fref_update (\<lambda>r. r + 1)) s))"
proof -
  assume a: "cpu_ok s" "free_lock LkFtable s" "1 \<le> fref (files s f)"
  have t: "upd_file f g (taken lk s) = taken lk (upd_file f g s)" "files (taken lk s) = files s"
    "cpu_ok (upd_file f g s) = cpu_ok s" for f g lk and s :: "('a, 'b) filestate_scheme"
    by (simp_all add: upd_file_def taken_def cpu_ok_def)
  show ?thesis using a by (simp add: filedup_def acquire_free t release_taken ready_files)
qed

lemma share_file_ok:
  fixes s :: "('m, 'a) sysstate_scheme"
  assumes "rcs_ready p i s" and "length (open_sections i s) < RCS_HIST" and "free_lock LkFtable s"
    and "ofile s p fd = f" and "f \<noteq> 0" and "1 \<le> fref (files s f)" and "real_flag (search_recovery_idx RL_FILE f s)"
  obtains t where "share_file p np fd s = Inr t" and "rcs_ready p i t" and "open_sections i t = open_sections i s"
    and "rl_num t = rl_num s" and "core t = core (set_ofile np fd f (upd_file f (fref_update (\<lambda>r. r + 1)) s))"
proof -
  let ?g = "search_recovery_idx RL_FILE f s"
  obtain a where a: "enter_recovery_critical_section_nodes RL_FILE f s = Inr a" "rcs_ready p i a"
    "open_sections i a = open_sections i s @ [?g]" "core a = core s" "rl_num a = counts_up ?g (rl_num s)"
    unfolding counts_up_def by (rule node_in [OF assms(1) refl assms(7,2)])
  note ca = same_core [OF a(4)] same_core_files [OF a(4)]
  have d: "filedup f a = Inr (saved (upd_file f (fref_update (\<lambda>r. r + 1)) a))"
    using filedup_ok [of a f] a(2) ca assms(3,6) by (simp add: rcs_ready_def)
  define b where "b = set_ofile np fd f (saved (upd_file f (fref_update (\<lambda>r. r + 1)) a))"
  have b: "rcs_ready p i b" "open_sections i b = open_sections i s @ [?g]" "search_recovery_idx RL_FILE f b = ?g"
    "rl_num b = counts_up ?g (rl_num s)"
    using a ca by (simp_all add: b_def ready_files)
  obtain t where t: "exit_recovery_critical_section_nodes RL_FILE f b = Inr t" "rcs_ready p i t"
    "open_sections i t = remove_last ?g (open_sections i b)" "core t = core b" "rl_num t = counts_down ?g (rl_num b)"
    unfolding counts_down_def by (rule node_out [OF b(1,3) assms(7)]) (use b(2) in simp_all)
  have "share_file p np fd s = Inr t"
    using a(1) d t(1) assms(4,5) by (simp add: share_file_def b_def)
  moreover have "core b = core (set_ofile np fd f (upd_file f (fref_update (\<lambda>r. r + 1)) s))"
    using a(4) ca same_core_sys [OF a(4)] by (simp add: b_def set_ofile_def upd_file_def)
  ultimately show thesis using t b by (intro that [of t]) simp_all
qed

text \<open>The number of descriptors below \<open>n\<close> that process \<open>p\<close> has on file \<open>f\<close>.\<close>

definition descriptors :: "nat \<Rightarrow> nat \<Rightarrow> nat \<Rightarrow> ('m, 'a) sysstate_scheme \<Rightarrow> int" where
  "descriptors p n f s = (if f = 0 then 0 else int (length (filter (\<lambda>fd. ofile s p fd = f) [0..<n])))"

lemma descriptors_nonneg [simp]: "0 \<le> descriptors p n f s"
  by (simp add: descriptors_def)

definition inherited :: "nat \<Rightarrow> nat \<Rightarrow> nat \<Rightarrow> ('m, 'a) sysstate_scheme \<Rightarrow> nat \<Rightarrow> nat \<Rightarrow> nat" where
  "inherited p np n s = (ofile s)(np := (\<lambda>fd. if fd < n \<and> ofile s p fd \<noteq> 0 then ofile s p fd else ofile s np fd))"

definition files_ready :: "nat \<Rightarrow> ('m, 'a) sysstate_scheme \<Rightarrow> bool" where
  "files_ready p s \<longleftrightarrow> free_lock LkFtable s \<and> (\<forall>fd < NOFILE. ofile s p fd \<noteq> 0 \<longrightarrow>
     1 \<le> fref (files s (ofile s p fd)) \<and> real_flag (search_recovery_idx RL_FILE (ofile s p fd) s))"

lemma same_core_lock:
  "core t = core s \<Longrightarrow> free_lock lk t = free_lock lk s" "core t = core s \<Longrightarrow> search_recovery_idx k a t = search_recovery_idx k a s"
  by (erule same_core)+

lemma share_files_ok:
  assumes "rcs_ready p i s" and "length (open_sections i s) < RCS_HIST" and "files_ready p s" and "p \<noteq> np" and "n \<le> NOFILE"
  shows "\<exists>t. foldE (share_file p np) [0..<n] s = Inr t \<and> rcs_ready p i t \<and> open_sections i t = open_sections i s \<and>
    rl_num t = rl_num s \<and> free_lock LkFtable t \<and> (\<forall>a. search_recovery_idx RL_FILE a t = search_recovery_idx RL_FILE a s) \<and>
    ofile t = inherited p np n s \<and> files t = (\<lambda>f. fref_update (\<lambda>r. r + descriptors p n f s) (files s f))"
  using assms(5)
proof (induction n)
  case 0
  have "(\<lambda>f. fref_update (\<lambda>r. r) (files s f)) = files s"
    by (rule ext) (metis (no_types) kfile.surjective kfile.update_convs(2))
  moreover have "descriptors p 0 f s = 0" for f by (simp add: descriptors_def)
  ultimately show ?case using assms(1-4) by (simp add: files_ready_def inherited_def)
next
  case (Suc n)
  obtain t where t: "foldE (share_file p np) [0..<n] s = Inr t" "rcs_ready p i t" "open_sections i t = open_sections i s"
    "rl_num t = rl_num s" "free_lock LkFtable t" "\<And>a. search_recovery_idx RL_FILE a t = search_recovery_idx RL_FILE a s"
    "ofile t = inherited p np n s" "files t = (\<lambda>f. fref_update (\<lambda>r. r + descriptors p n f s) (files s f))"
    using Suc by fastforce
  let ?f = "ofile s p n"
  have o: "ofile t p n = ?f" using t(7) assms(4) by (simp add: inherited_def)
  show ?case
  proof (cases "?f = 0")
    case True
    have "inherited p np (Suc n) s = inherited p np n s" "descriptors p (Suc n) f s = descriptors p n f s" for f
      using True by (auto simp: inherited_def descriptors_def fun_eq_iff less_Suc_eq)
    moreover have "share_file p np n t = Inr t" by (simp add: share_file_def o True)
    then have "foldE (share_file p np) [0..<Suc n] s = Inr t" by (simp add: foldE_append t(1))
    ultimately show ?thesis using t by (intro exI [of _ t]) simp
  next
    case False
    have r: "1 \<le> fref (files s ?f)" "real_flag (search_recovery_idx RL_FILE ?f s)"
      using assms(3) Suc.prems False by (simp_all add: files_ready_def)
    have ge: "1 \<le> fref (files s ?f) + descriptors p n ?f s" using r(1) by (rule order_trans) simp
    obtain u where u: "share_file p np n t = Inr u" "rcs_ready p i u" "open_sections i u = open_sections i t"
      "rl_num u = rl_num t" "core u = core (set_ofile np n ?f (upd_file ?f (fref_update (\<lambda>r. r + 1)) t))"
      by (rule share_file_ok [OF t(2) _ t(5) o False])
        (use t assms(2) r ge in simp_all)
    note cu = same_core_lock [OF u(5)] same_core_files [OF u(5)] same_core_sys [OF u(5)]
    have "ofile u = inherited p np (Suc n) s"
      using cu t(7) False by (auto simp: inherited_def fun_eq_iff less_Suc_eq)
    moreover have "files u = (\<lambda>f. fref_update (\<lambda>r. r + descriptors p (Suc n) f s) (files s f))"
      using cu t(8) False by (auto simp: upd_file_def descriptors_def fun_eq_iff add_ac comp_def)
    moreover have "foldE (share_file p np) [0..<Suc n] s = Inr u" using u(1) by (simp add: foldE_append t(1))
    ultimately show ?thesis using t u cu by (intro exI [of _ u]) (simp add: ready_files)
  qed
qed

lemma fork_files_ok:
  assumes "rcs_ready p i s" and "length (open_sections i s) + 2 \<le> RCS_HIST" and "files_ready p s" and "p \<noteq> np"
  obtains t where "fork_files p np s = Inr t" and "rcs_ready p i t" and "open_sections i t = open_sections i s"
    and "rl_num t = rl_num s" and "ofile t = inherited p np NOFILE s"
    and "files t = (\<lambda>f. fref_update (\<lambda>r. r + descriptors p NOFILE f s) (files s f))"
proof -
  obtain a where a: "enter_recovery_critical_section RL_FTABLE 0 s = Inr a" "rcs_ready p i a"
    "open_sections i a = open_sections i s @ [RL_FTABLE]" "core a = core s"
    "rl_num a = counts_up RL_FTABLE (rl_num s)"
    unfolding counts_up_def by (rule section_in [OF assms(1), of RL_FTABLE]) (use assms(2) in simp_all)
  note ca = same_core_lock [OF a(4)] same_core_files [OF a(4)] same_core_sys [OF a(4)]
  have l: "length (open_sections i a) < RCS_HIST" using assms(2) a(3) by simp
  have "files_ready p a" using assms(3) ca by (simp add: files_ready_def)
  from share_files_ok [OF a(2) l this assms(4) le_refl]
  obtain b where b: "foldE (share_file p np) [0..<NOFILE] a = Inr b" "rcs_ready p i b"
    "open_sections i b = open_sections i a" "rl_num b = rl_num a" "ofile b = inherited p np NOFILE a"
    "files b = (\<lambda>f. fref_update (\<lambda>r. r + descriptors p NOFILE f a) (files a f))" by blast
  obtain t where t: "exit_recovery_critical_section RL_FTABLE 0 b = Inr t" "rcs_ready p i t"
    "open_sections i t = remove_last RL_FTABLE (open_sections i b)" "core t = core b"
    "rl_num t = counts_down RL_FTABLE (rl_num b)"
    unfolding counts_down_def by (rule section_out [OF b(2), of RL_FTABLE]) (use a(3) b(3) in simp_all)
  have "fork_files p np s = Inr t" using a(1) b(1) t(1) by (simp add: fork_files_def)
  moreover have "descriptors p NOFILE f a = descriptors p NOFILE f s" "inherited p np NOFILE a = inherited p np NOFILE s" for f
    using ca by (simp_all add: inherited_def descriptors_def cong: if_cong)
  ultimately show thesis
    using t a b ca same_core_files [OF t(4)] same_core_sys [OF t(4)] by (intro that [of t]) simp_all
qed

text \<open>Every file counts the descriptors on it.\<close>

definition refs_exact :: "('m, 'a) sysstate_scheme \<Rightarrow> bool" where
  "refs_exact s \<longleftrightarrow> (\<forall>f. f \<noteq> 0 \<longrightarrow> fref (files s f) = (\<Sum>q < NPROC. descriptors q NOFILE f s))"

lemma refs_exact_ready:
  assumes "refs_exact s" and "p < NPROC" and "free_lock LkFtable s"
    and "\<forall>fd < NOFILE. ofile s p fd \<noteq> 0 \<longrightarrow> real_flag (search_recovery_idx RL_FILE (ofile s p fd) s)"
  shows "files_ready p s"
proof -
  have "1 \<le> fref (files s f)" if "fd < NOFILE" "ofile s p fd = f" "f \<noteq> 0" for fd f
  proof -
    have "fd \<in> set (filter (\<lambda>fd. ofile s p fd = f) [0..<NOFILE])" using that by simp
    then have "0 < length (filter (\<lambda>fd. ofile s p fd = f) [0..<NOFILE])" by (rule length_pos_if_in_set)
    then have "1 \<le> descriptors p NOFILE f s" using that(3) by (simp only: descriptors_def if_False)
    also have "\<dots> \<le> (\<Sum>q < NPROC. descriptors q NOFILE f s)"
      using assms(2) by (intro member_le_sum) simp_all
    finally show ?thesis using assms(1) that(3) by (simp add: refs_exact_def)
  qed
  then show ?thesis using assms(3,4) by (auto simp: files_ready_def)
qed

text \<open>
  C11. Fork keeps the reference counts of files exact: when every file counts the descriptors of all
  processes on it, so it does after fork has given the child the descriptors of its parent,
  and every section fork has entered is left.
\<close>

theorem fork_keeps_reference_counts:
  assumes "rcs_ready p i s" and "length (open_sections i s) + 2 \<le> RCS_HIST" and "free_lock LkFtable s"
    and "\<forall>fd < NOFILE. ofile s p fd \<noteq> 0 \<longrightarrow> real_flag (search_recovery_idx RL_FILE (ofile s p fd) s)"
    and "refs_exact s" and "p < NPROC" and "np < NPROC" and "p \<noteq> np" and "ofile s np = (\<lambda>_. 0)"
  shows "\<exists>t. fork_files p np s = Inr t \<and> refs_exact t \<and> (\<forall>fd < NOFILE. ofile t np fd = ofile s p fd) \<and>
    open_sections i t = open_sections i s \<and> rl_num t = rl_num s"
proof -
  obtain t where t: "fork_files p np s = Inr t" "open_sections i t = open_sections i s" "rl_num t = rl_num s"
    "ofile t = inherited p np NOFILE s"
    "files t = (\<lambda>f. fref_update (\<lambda>r. r + descriptors p NOFILE f s) (files s f))"
    by (rule fork_files_ok [OF assms(1,2) refs_exact_ready [OF assms(5,6,3,4)] assms(8)])
  have n: "descriptors np NOFILE f t = descriptors p NOFILE f s" for f
    using t(4) assms(9) by (auto simp: descriptors_def inherited_def intro!: filter_cong arg_cong [of _ _ length])
  have z: "descriptors np NOFILE f s = 0" for f using assms(9) by (simp add: descriptors_def)
  have o: "descriptors q NOFILE f t = descriptors q NOFILE f s" if "q \<noteq> np" for q f
    using that t(4) by (simp add: descriptors_def inherited_def)
  have "(\<Sum>q < NPROC. descriptors q NOFILE f t) =
      (\<Sum>q < NPROC. descriptors q NOFILE f s + (if q = np then descriptors p NOFILE f s else 0))" for f
    by (rule sum.cong) (use n z o in auto)
  then have "(\<Sum>q < NPROC. descriptors q NOFILE f t) =
      (\<Sum>q < NPROC. descriptors q NOFILE f s) + descriptors p NOFILE f s" for f
    using assms(7) by (simp add: sum.distrib)
  then have "refs_exact t" using assms(5) t(5) by (simp add: refs_exact_def)
  then show ?thesis using t assms(9) by (auto simp: inherited_def)
qed

text \<open>Process 0 has a file open as descriptor 0; process 1 is the child.\<close>

definition demo_fork :: "bytes sysstate" where
  "demo_fork = demo_sys\<lparr>ofile := (\<lambda>q fd. if q = 0 \<and> fd = 0 then file_at 0 (Suc 0) else 0),
     files := (\<lambda>f. demo_open\<lparr>fref := if f = file_at 0 (Suc 0) then 1 else 0\<rparr>)\<rparr>"

lemma demo_fork_ready: "rcs_ready 0 0 demo_fork" "open_sections 0 demo_fork = []" "free_lock lk demo_fork"
  "search_recovery_idx k a demo_fork = search_recovery_idx k a demo_sys"
  using demo_sys_ready
  by (simp_all add: demo_fork_def rcs_ready_def open_sections_def free_lock_def cpu_ok_def curproc_def rcs_find_def
      search_recovery_idx_def cong: option.case_cong)

lemma demo_fork_ofile: "ofile demo_fork q = (\<lambda>fd. if q = 0 \<and> fd = 0 then file_at 0 (Suc 0) else 0)"
  by (simp add: demo_fork_def)

theorem fork_keeps_reference_counts_witness:
  "\<exists>t. fork_files 0 1 demo_fork = Inr t \<and> refs_exact t \<and> ofile t 1 0 = file_at 0 (Suc 0)"
proof -
  have "descriptors q NOFILE f demo_fork = (if q = 0 \<and> f = file_at 0 (Suc 0) then 1 else 0)" if "f \<noteq> 0" for q f
  proof -
    have "[0..<NOFILE] = 0 # [1..<NOFILE]" by (simp add: upt_rec)
    moreover have "filter (\<lambda>fd. ofile demo_fork q fd = f) [1..<NOFILE] = []"
      using that by (auto simp: demo_fork_def filter_empty_conv)
    ultimately show ?thesis using that by (auto simp: descriptors_def demo_fork_def)
  qed
  moreover have "(\<Sum>q < NPROC. if q = 0 \<and> b then 1 else 0 :: int) = (if b then 1 else 0)" for b
    by (cases b) simp_all
  ultimately have "refs_exact demo_fork" by (simp add: refs_exact_def) (simp add: demo_fork_def)
  moreover have "real_flag (search_recovery_idx RL_FILE (file_at 0 (Suc 0)) demo_fork)"
    using demo_sys_flags(1) [of "Suc 0"] by (simp add: demo_fork_ready real_flag_def)
  then have "\<forall>fd < NOFILE. ofile demo_fork 0 fd \<noteq> 0 \<longrightarrow> real_flag (search_recovery_idx RL_FILE (ofile demo_fork 0 fd) demo_fork)"
    by (simp add: demo_fork_ofile)
  ultimately obtain t where "fork_files 0 1 demo_fork = Inr t" "refs_exact t"
    "\<forall>fd < NOFILE. ofile t 1 fd = ofile demo_fork 0 fd"
    using fork_keeps_reference_counts [of 0 0 demo_fork 1] demo_fork_ready(1-3) demo_fork_ofile [of 1] by auto
  then show ?thesis by (auto simp: demo_fork_ofile)
qed

section \<open>Exit\<close>

text \<open>Leaving the section of an object the process is not in.\<close>

lemma node_out_absent:
  assumes "rcs_ready p i s" and "search_recovery_idx k a s = f" and "real_flag f" and "f \<notin> set (open_sections i s)"
    and "length (open_sections i s) < RCS_HIST"
  obtains t where "exit_recovery_critical_section_nodes k a s = Inr t" and "rcs_ready p i t"
    and "open_sections i t = open_sections i s" and "core t = core s" and "rl_num t = counts_down f (rl_num s)"
proof -
  have "\<not> bad_flag f" using assms(3) by (auto simp: real_flag_def bad_flag_def)
  then have n: "exit_recovery_critical_section_nodes k a s = exit_recovery_critical_section f 0 s"
    using assms(2) by (simp add: exit_recovery_critical_section_nodes_def Let_def)
  show thesis unfolding n counts_down_def
    by (rule section_out_absent [OF assms(1,3,4,5)]) (use that n in \<open>simp add: counts_down_def\<close>)
qed

lemma drop_none: "\<forall>fd \<in> set fds. ofile s p fd = 0 \<Longrightarrow> foldE (drop_file p) fds s = Inr s"
  by (induction fds) (simp_all add: drop_file_def)

lemma fileclose_shared:
  assumes "cpu_ok s" and "free_lock LkFtable s" and "1 < fref (files s f)"
  shows "fileclose f s = exit_recovery_critical_section_nodes RL_FILE f (saved (upd_file f (fref_update (\<lambda>r. r - 1)) s))"
proof -
  have t: "upd_file f g (taken lk s) = taken lk (upd_file f g s)" "files (taken lk s) = files s"
    "cpu_ok (upd_file f g s) = cpu_ok s" for f g lk and s :: "('a, 'b) filestate_scheme"
    by (simp_all add: upd_file_def taken_def cpu_ok_def)
  have "fref (files (upd_file f (fref_update (\<lambda>r. r - 1)) s) f) = fref (files s f) - 1" by (simp add: upd_file_def)
  then show ?thesis using assms by (simp add: fileclose_def acquire_free t release_taken ready_files Let_def)
qed

text \<open>
  C25. Exit closes a shared file and counts it down, but leaves the section of that file without
  having entered it: the count of the processes in the section is one too low from then on.
\<close>

theorem exit_leaves_unentered_section:
  assumes "rcs_ready p i s" and "open_sections i s = []" and "free_lock LkFtable s"
    and "d < NOFILE" and "ofile s p = (\<lambda>_. 0)(d := f)" and "f \<noteq> 0" and "1 < fref (files s f)"
    and "search_recovery_idx RL_FILE f s = g" and "real_flag g" and "g \<noteq> RL_FTABLE" and "g \<noteq> RL_ICACHE"
  shows "\<exists>t. exit_files p s = Inr t \<and> ofile t p = (\<lambda>_. 0) \<and> fref (files t f) = fref (files s f) - 1 \<and>
    open_sections i t = [] \<and> rl_num t = (rl_num s)(nat g := rl_num s (nat g) - 1)"
proof -
  obtain a where a: "enter_recovery_critical_section RL_FTABLE 0 s = Inr a" "rcs_ready p i a"
    "open_sections i a = open_sections i s @ [RL_FTABLE]" "core a = core s" "rl_num a = counts_up RL_FTABLE (rl_num s)"
    unfolding counts_up_def by (rule section_in [OF assms(1), of RL_FTABLE]) (use assms(2) in simp_all)
  obtain b where b: "enter_recovery_critical_section RL_ICACHE 0 a = Inr b" "rcs_ready p i b"
    "open_sections i b = open_sections i a @ [RL_ICACHE]" "core b = core a" "rl_num b = counts_up RL_ICACHE (rl_num a)"
    unfolding counts_up_def by (rule section_in [OF a(2), of RL_ICACHE]) (use assms(2) a(3) in simp_all)
  have cb: "core b = core s" using a(4) b(4) by simp
  note cs = same_core_lock [OF cb] same_core_files [OF cb] same_core_sys [OF cb]
  define c where "c = saved (upd_file f (fref_update (\<lambda>r. r - 1)) b)"
  have c: "rcs_ready p i c" "search_recovery_idx RL_FILE f c = g" "open_sections i c = [RL_FTABLE, RL_ICACHE]"
    "rl_num c = rl_num b" "ofile c = ofile s" "fref (files c f) = fref (files s f) - 1"
    using b a assms(2,8) cs by (simp_all add: c_def ready_files) (simp add: upd_file_def)
  obtain e where e: "exit_recovery_critical_section_nodes RL_FILE f c = Inr e" "rcs_ready p i e"
    "open_sections i e = open_sections i c" "core e = core c" "rl_num e = counts_down g (rl_num c)"
    by (rule node_out_absent [OF c(1,2) assms(9)]) (use c(3) assms(10,11) in simp_all)
  note ce = same_core_files [OF e(4)] same_core_sys [OF e(4)]
  define h where "h = set_ofile p d 0 e"
  have l: "[0..<NOFILE] = [0..<d] @ d # [Suc d..<NOFILE]"
    using assms(4) by (metis le_add_same_cancel1 less_imp_le upt_add_eq_append upt_conv_Cons le0 le_add_diff_inverse)
  have "ofile h p = (\<lambda>_. 0)" using ce c(5) assms(5) by (simp add: h_def fun_eq_iff)
  moreover have "fileclose f b = Inr e"
    using fileclose_shared [of b f] b(2) cs assms(3,7) e(1) by (simp add: rcs_ready_def c_def)
  then have "drop_file p d b = Inr h" using cs assms(5,6) by (simp add: drop_file_def h_def)
  ultimately have loop: "foldE (drop_file p) [0..<NOFILE] b = Inr h"
    unfolding l foldE_append using cs assms(5) by (simp add: drop_none)
  have h: "rcs_ready p i h" "open_sections i h = [RL_FTABLE, RL_ICACHE]" "rl_num h = rl_num e"
    using e c(3) by (simp_all add: h_def ready_files)
  obtain v where v: "exit_recovery_critical_section RL_ICACHE 0 h = Inr v" "rcs_ready p i v"
    "open_sections i v = remove_last RL_ICACHE (open_sections i h)" "core v = core h" "rl_num v = counts_down RL_ICACHE (rl_num h)"
    unfolding counts_down_def by (rule section_out [OF h(1), of RL_ICACHE]) (use h(2) in simp_all)
  have ov: "open_sections i v = [RL_FTABLE]" using v(3) h(2) remove_last_snoc [of RL_ICACHE "[RL_FTABLE]"] by simp
  obtain t where t: "exit_recovery_critical_section RL_FTABLE 0 v = Inr t"
    "open_sections i t = remove_last RL_FTABLE (open_sections i v)" "core t = core v" "rl_num t = counts_down RL_FTABLE (rl_num v)"
    unfolding counts_down_def by (rule section_out [OF v(2), of RL_FTABLE]) (use ov in simp_all)
  have ct: "core t = core h" using v(4) t(3) by simp
  have "exit_files p s = Inr t" using a(1) b(1) loop v(1) t(1) by (simp add: exit_files_def)
  moreover have "open_sections i t = []" using t(2) ov remove_last_snoc [of RL_FTABLE "[]"] by simp
  moreover have "rl_num t = (rl_num s)(nat g := rl_num s (nat g) - 1)"
    using t(4) v(5) h(3) e(5) c(4) b(5) a(5)
    by (auto simp: counts_up_def counts_down_def fun_eq_iff)
  moreover have "ofile t p = (\<lambda>_. 0)" "fref (files t f) = fref (files s f) - 1"
    using same_core_files [OF ct] same_core_sys [OF ct] \<open>ofile h p = (\<lambda>_. 0)\<close> ce c(6) by (simp_all add: h_def)
  ultimately show ?thesis by blast
qed

theorem exit_leaves_unentered_section_witness:
  "\<exists>t. exit_files 0 (demo_fork\<lparr>files := (\<lambda>_. demo_open\<lparr>fref := 2\<rparr>)\<rparr>) = Inr t \<and> fref (files t (file_at 0 (Suc 0))) = 1"
proof -
  let ?s = "demo_fork\<lparr>files := (\<lambda>_. demo_open\<lparr>fref := 2\<rparr>)\<rparr>"
  have r: "rcs_ready 0 0 ?s" "open_sections 0 ?s = []" "free_lock LkFtable ?s"
    "search_recovery_idx RL_FILE (file_at 0 (Suc 0)) ?s = 39"
    using demo_fork_ready demo_sys_flags(1) [of "Suc 0"] by simp_all (simp add: free_lock_def)
  have o: "ofile ?s 0 = (\<lambda>_. 0)(0 := file_at 0 (Suc 0))" "file_at 0 (Suc 0) \<noteq> 0"
    by (simp_all add: demo_fork_def fun_eq_iff file_at_def)
  show ?thesis
    using exit_leaves_unentered_section [OF r(1-3) _ o(1,2) _ r(4)] by (auto simp: real_flag_def)
qed

end
