(* ===== verification/Exec.thy ===== *)
theory Exec
  imports ForkFiles
begin

text \<open>
  The loading of programs (\<open>exec.c\<close>) and \<open>sys_exec\<close>. The pages of the new image are reached by
  their physical addresses in the kernel's memory of words; the strings of the arguments are
  lists of bytes. The property is about the stack: where the arguments are put.
\<close>

section \<open>Bytes in the kernel's memory\<close>

definition set_byte :: "nat \<Rightarrow> u8 \<Rightarrow> memory \<Rightarrow> memory" where
  "set_byte a b m = (let w = a - a mod 8; d = 256 ^ (a mod 8); x = m w in
     m(w := x - (x div d mod 256) * d + unat b * d))"

definition set_bytes :: "u64 \<Rightarrow> u8 list \<Rightarrow> memory \<Rightarrow> memory" where
  "set_bytes d bs m = fold (\<lambda>i. set_byte (unat d + i) (bs ! i)) [0..<length bs] m"

text \<open>\<open>copyout\<close> to a page table that is not the current one, a byte at a time.\<close>

fun copyout_to :: "nat \<Rightarrow> u64 \<Rightarrow> u8 list \<Rightarrow> 'a ptdupstate_scheme \<Rightarrow> (bool \<times> 'a ptdupstate_scheme) res" where
  "copyout_to pt va [] s = Inr (True, s)"
| "copyout_to pt va (b # bs) s = bindE (walkaddr pt (pgrounddown va) s) (\<lambda>(pa, s).
     if pa = 0 then Inr (False, s)
     else copyout_to pt (va + 1) bs (s\<lparr>mem := set_byte (unat (pa + (va - pgrounddown va))) b (mem s)\<rparr>))"

section \<open>Headers\<close>

abbreviation ELF_MAGIC :: nat where "ELF_MAGIC \<equiv> 0x464C457F"
abbreviation MAXARG :: nat where "MAXARG \<equiv> 32"

definition field :: "nat \<Rightarrow> nat \<Rightarrow> u8 list \<Rightarrow> nat" where
  "field off n bs = le_word (take n (drop off bs))"

record elfhdr =
  eh_magic :: nat
  eh_entry :: u64
  eh_phoff :: u64
  eh_phnum :: nat

definition elf_of :: "u8 list \<Rightarrow> elfhdr" where
  "elf_of bs = \<lparr>eh_magic = field 0 4 bs, eh_entry = of_nat (field 24 8 bs), eh_phoff = of_nat (field 32 8 bs),
     eh_phnum = field 56 2 bs\<rparr>"

record proghdr =
  ph_type :: nat
  ph_off :: u64
  ph_vaddr :: u64
  ph_filesz :: u64
  ph_memsz :: u64

definition proghdr_of :: "u8 list \<Rightarrow> proghdr" where
  "proghdr_of bs = \<lparr>ph_type = field 0 4 bs, ph_off = of_nat (field 8 8 bs), ph_vaddr = of_nat (field 16 8 bs),
     ph_filesz = of_nat (field 32 8 bs), ph_memsz = of_nat (field 40 8 bs)\<rparr>"

definition read_hdr :: "nat \<Rightarrow> u32 \<Rightarrow> nat \<Rightarrow> 'a fsstate_scheme \<Rightarrow> (u8 list option \<times> 'a fsstate_scheme) res" where
  "read_hdr ip off n s = bindE (readi (to_sink append_bytes) ip 0 (unat off) n [] s) (\<lambda>(r, bs, s).
     Inr (if r = int n then Some bs else None, s))"

section \<open>Segments\<close>

text \<open>
  The loop counts in an \<open>uint\<close>: for a size within a page of \<open>2\<^sup>3\<^sup>2\<close> it would start again from 0
  (\<open>Blocked\<close>).
\<close>

fun load_pages ::
  "nat \<Rightarrow> u64 \<Rightarrow> nat \<Rightarrow> u32 \<Rightarrow> nat \<Rightarrow> nat list \<Rightarrow> ('m, 'a) pstate_all_scheme \<Rightarrow> (int \<times> ('m, 'a) pstate_all_scheme) res" where
  "load_pages pt va ip off sz [] s = (if sz > 2 ^ 32 - PGSIZE then Inl Blocked else Inr (0, s))"
| "load_pages pt va ip off sz (i # is) s = bindE (walkaddr pt (va + of_nat i) s) (\<lambda>(pa, s).
     if pa = 0 then Inl (Panic ''loadseg: address should exist'')
     else let n = (if sz - i < PGSIZE then sz - i else PGSIZE) in
       bindE (readi (to_sink set_bytes) ip pa (unat (off + of_nat i)) n (mem s) s) (\<lambda>(r, m, s).
       let s = s\<lparr>mem := m\<rparr> in
       if r \<noteq> int n then Inr (-1, s) else load_pages pt va ip off sz is s))"

definition loadseg ::
  "nat \<Rightarrow> u64 \<Rightarrow> nat \<Rightarrow> u32 \<Rightarrow> u32 \<Rightarrow> ('m, 'a) pstate_all_scheme \<Rightarrow> (int \<times> ('m, 'a) pstate_all_scheme) res" where
  "loadseg pt va ip off sz s =
     (if va mod PGSZ \<noteq> 0 then Inl (Panic ''loadseg: va must be page aligned'')
      else load_pages pt va ip off (unat sz) (map (\<lambda>k. k * PGSIZE) [0..<(unat sz + PGSIZE - 1) div PGSIZE]) s)"

text \<open>The program headers from \<open>off\<close> on; whether all went well, and the size reached.\<close>

fun load_segments ::
  "nat \<Rightarrow> nat \<Rightarrow> u32 list \<Rightarrow> u64 \<Rightarrow> ('m, 'a) pstate_all_scheme \<Rightarrow> ((bool \<times> u64) \<times> ('m, 'a) pstate_all_scheme) res" where
  "load_segments ip pt [] sz s = Inr ((True, sz), s)"
| "load_segments ip pt (off # offs) sz s = bindE (read_hdr ip off 56 s) (\<lambda>(r, s). case r of None \<Rightarrow> Inr ((False, sz), s)
     | Some bs \<Rightarrow> let ph = proghdr_of bs in
         if ph_type ph \<noteq> 1 then load_segments ip pt offs sz s
         else if ph_memsz ph < ph_filesz ph \<or> ph_vaddr ph + ph_memsz ph < ph_vaddr ph then Inr ((False, sz), s)
         else bindE (uvmalloc pt sz (ph_vaddr ph + ph_memsz ph) s) (\<lambda>(sz, s).
           if sz = 0 \<or> ph_vaddr ph mod PGSZ \<noteq> 0 then Inr ((False, sz), s)
           else bindE (loadseg pt (ph_vaddr ph) ip (ucast (ph_off ph)) (ucast (ph_filesz ph)) s) (\<lambda>(r, s).
             if r < 0 then Inr ((False, sz), s) else load_segments ip pt offs sz s)))"

text \<open>The offsets of the headers, in an \<open>int\<close>.\<close>

definition header_offs :: "elfhdr \<Rightarrow> u32 list" where
  "header_offs e = map (\<lambda>i. ucast (eh_phoff e) + of_nat i * 56) [0..<eh_phnum e]"

section \<open>The stack\<close>

definition push_sp :: "u64 \<Rightarrow> nat \<Rightarrow> u64" where
  "push_sp sp n = (let sp = sp - of_nat n in sp - sp mod 16)"

fun push_args ::
  "nat \<Rightarrow> u64 \<Rightarrow> u8 list list \<Rightarrow> nat \<Rightarrow> u64 \<Rightarrow> 'a ptdupstate_scheme \<Rightarrow> ((u64 \<times> u64 list) option \<times> 'a ptdupstate_scheme) res" where
  "push_args pt base [] argc sp s = Inr (Some (sp, []), s)"
| "push_args pt base (a # as) argc sp s =
     (if argc \<ge> MAXARG then Inr (None, s)
      else let sp = push_sp sp (length a + 1) in
        if sp < base then Inr (None, s)
        else bindE (copyout_to pt sp (a @ [0]) s) (\<lambda>(ok, s).
          if \<not> ok then Inr (None, s)
          else bindE (push_args pt base as (argc + 1) sp s) (\<lambda>(r, s).
            Inr (map_option (\<lambda>(sp', us). (sp', sp # us)) r, s))))"

definition word_bytes :: "u64 \<Rightarrow> u8 list" where
  "word_bytes w = le_bytes 8 (unat w)"

text \<open>The strings and then the array of their addresses; the addresses and the final pointer.\<close>

definition push_stack ::
  "nat \<Rightarrow> u64 \<Rightarrow> u8 list list \<Rightarrow> 'a ptdupstate_scheme \<Rightarrow> (u64 option \<times> 'a ptdupstate_scheme) res" where
  "push_stack pt sz args s = (let base = sz - PGSZ in
     bindE (push_args pt base args 0 sz s) (\<lambda>(r, s). case r of None \<Rightarrow> Inr (None, s)
     | Some (sp, us) \<Rightarrow> let sp = push_sp sp ((length args + 1) * 8) in
         if sp < base then Inr (None, s)
         else bindE (copyout_to pt sp (concat (map word_bytes (us @ [0]))) s) (\<lambda>(ok, s).
           Inr (if ok then Some sp else None, s))))"

section \<open>The system call\<close>

definition path_last :: "u8 list \<Rightarrow> u8 list" where
  "path_last path = rev (takeWhile (\<lambda>c. c \<noteq> 47) (rev path))"

text \<open>The label \<open>bad\<close>: \<open>pt\<close> is 0 before the page table exists, \<open>ip\<close> after the inode was put.\<close>

definition exec_bad :: "nat \<Rightarrow> u64 \<Rightarrow> nat \<Rightarrow> ('m, 'a) pstate_all_scheme \<Rightarrow> (int \<times> ('m, 'a) pstate_all_scheme) res" where
  "exec_bad pt sz ip s = bindE (if pt \<noteq> 0 then proc_freepagetable pt sz s else Inr s) (\<lambda>s.
     bindE (if ip \<noteq> 0 then bindE (iunlockput ip s) (\<lambda>s. bindE (exit_recovery_critical_section RL_ICACHE 0 s) end_op)
            else Inr s) (\<lambda>s. Inr (-1, s)))"

definition exec_commit ::
  "u8 list \<Rightarrow> u8 list list \<Rightarrow> nat \<Rightarrow> u64 \<Rightarrow> u64 \<Rightarrow> u64 \<Rightarrow> u64 \<Rightarrow> ('m, 'a) pstate_all_scheme \<Rightarrow>
   (int \<times> ('m, 'a) pstate_all_scheme) res" where
  "exec_commit path args pt sz oldsz entry sp s = bindE (this_proc s) (\<lambda>(p, s). let old = ppt s p in
     bindE (proc_freepagetable old oldsz (s\<lparr>tfarg := (tfarg s)(p := (tfarg s p)(1 := sp)),
       pname := (pname s)(p := take 15 (path_last path)), ppt := (ppt s)(p := pt), psz := (psz s)(p := sz),
       tfepc := (tfepc s)(p := entry), tfsp := (tfsp s)(p := sp)\<rparr>)) (\<lambda>s. Inr (int (length args), s)))"

definition exec_image ::
  "u8 list \<Rightarrow> u8 list list \<Rightarrow> nat \<Rightarrow> u64 \<Rightarrow> u64 \<Rightarrow> ('m, 'a) pstate_all_scheme \<Rightarrow> (int \<times> ('m, 'a) pstate_all_scheme) res" where
  "exec_image path args pt sz entry s = bindE (this_proc s) (\<lambda>(p, s). let oldsz = psz s p; sz = pgrounddown (sz + 0xfff) in
     bindE (uvmalloc pt sz (sz + 2 * PGSZ) s) (\<lambda>(sz, s). if sz = 0 then exec_bad pt sz 0 s
     else bindE (uvmclear pt (sz - 2 * PGSZ) s) (\<lambda>s. bindE (push_stack pt sz args s) (\<lambda>(r, s). case r of
         None \<Rightarrow> exec_bad pt sz 0 s
       | Some sp \<Rightarrow> exec_commit path args pt sz oldsz entry sp s))))"

definition exec ::
  "u64 \<Rightarrow> u8 list \<Rightarrow> u8 list list \<Rightarrow> ('m, 'a) pstate_all_scheme \<Rightarrow> (int \<times> ('m, 'a) pstate_all_scheme) res" where
  "exec tramp path args s = bindE (this_proc s) (\<lambda>(p, s). bindE (begin_op s) (\<lambda>s.
     bindE (enter_recovery_critical_section RL_ICACHE 0 s) (\<lambda>s. bindE (namei path s) (\<lambda>(r, s). case r of
       None \<Rightarrow> bindE (end_op s) (\<lambda>s. bindE (exit_recovery_critical_section RL_ICACHE 0 s) (\<lambda>s. Inr (-1, s)))
     | Some ip \<Rightarrow> bindE (ilock ip s) (\<lambda>s. bindE (read_hdr ip 0 64 s) (\<lambda>(r, s). case r of
         None \<Rightarrow> exec_bad 0 0 ip s
       | Some bs \<Rightarrow> let e = elf_of bs in
           if eh_magic e \<noteq> ELF_MAGIC then exec_bad 0 0 ip s
           else bindE (proc_pagetable tramp p s) (\<lambda>(pt, s). if pt = 0 then exec_bad 0 0 ip s
           else bindE (load_segments ip pt (header_offs e) 0 s) (\<lambda>((ok, sz), s). if \<not> ok then exec_bad pt sz ip s
           else bindE (iunlockput ip s) (\<lambda>s. bindE (exit_recovery_critical_section RL_ICACHE 0 s) (\<lambda>s.
             bindE (end_op s) (exec_image path args pt sz (eh_entry e))))))))))))"

text \<open>The pages allocated for the arguments, and the arguments if all were fetched.\<close>

fun fetch_args ::
  "'m io \<Rightarrow> u64 \<Rightarrow> nat list \<Rightarrow> ('m, 'a) pstate_all_scheme \<Rightarrow> ((nat list \<times> u8 list list option) \<times> ('m, 'a) pstate_all_scheme) res" where
  "fetch_args u uargv [] s = Inr (([], None), s)"
| "fetch_args u uargv (i # is) s = bindE (fetchaddr u (uargv + 8 * of_nat i) s) (\<lambda>(r, s). case r of
       None \<Rightarrow> Inr (([], None), s)
     | Some bs \<Rightarrow> let uarg = (of_nat (le_word bs) :: u64) in
         if uarg = 0 then Inr (([], Some []), s)
         else bindE (kalloc s) (\<lambda>(pg, s). if pg = 0 then Inl (Panic ''sys_exec kalloc'')
           else bindE (fetchstr u uarg PGSIZE s) (\<lambda>(r, s). case r of
               None \<Rightarrow> Inr (([pg], None), s)
             | Some a \<Rightarrow> bindE (fetch_args u uargv is s) (\<lambda>((pgs, as), s).
                 Inr ((pg # pgs, map_option ((#) a) as), s)))))"

definition sys_exec :: "'m io \<Rightarrow> u64 \<Rightarrow> ('m, 'a) pstate_all_scheme \<Rightarrow> (int \<times> ('m, 'a) pstate_all_scheme) res" where
  "sys_exec u tramp s = bindE (argstr u 0 MAXPATH s) (\<lambda>(r, s). case r of None \<Rightarrow> Inr (-1, s)
     | Some path \<Rightarrow> bindE (argaddr 1 s) (\<lambda>(uargv, s).
         bindE (fetch_args u uargv [0..<MAXARG] s) (\<lambda>((pgs, as), s).
         bindE (case as of None \<Rightarrow> Inr (-1, s) | Some as \<Rightarrow> exec tramp path as s) (\<lambda>(r, s).
         bindE (kfree_all pgs s) (\<lambda>s. Inr (r, s))))))"

section \<open>Where the arguments are put\<close>

text \<open>The addresses alone: as \<open>push_args\<close>, when the copies do not fail.\<close>

fun arg_addrs :: "u64 \<Rightarrow> u8 list list \<Rightarrow> nat \<Rightarrow> u64 \<Rightarrow> (u64 \<times> u64 list) option" where
  "arg_addrs base [] argc sp = Some (sp, [])"
| "arg_addrs base (a # as) argc sp =
     (if argc \<ge> MAXARG then None
      else let sp = push_sp sp (length a + 1) in
        if sp < base then None else map_option (\<lambda>(sp', us). (sp', sp # us)) (arg_addrs base as (argc + 1) sp))"

lemma push_args_addrs:
  "push_args pt base as argc sp s = Inr (Some r, t) \<Longrightarrow> arg_addrs base as argc sp = Some r"
proof (induction as arbitrary: argc sp s r t)
  case (Cons a as)
  then show ?case by (auto simp: Let_def split: if_splits prod.splits)
qed simp

text \<open>Strings that do not overlap, from the top of the stack downwards.\<close>

fun stacked :: "nat \<Rightarrow> nat \<Rightarrow> u8 list list \<Rightarrow> u64 list \<Rightarrow> bool" where
  "stacked base hi [] us \<longleftrightarrow> us = []"
| "stacked base hi (a # as) us \<longleftrightarrow> (case us of [] \<Rightarrow> False
     | u # us \<Rightarrow> base \<le> unat u \<and> unat u + length a + 1 \<le> hi \<and> 16 dvd unat u \<and> stacked base (unat u) as us)"

lemma push_sp_le:
  assumes "n \<le> unat sp"
  shows "unat (push_sp sp n) + n \<le> unat sp" and "16 dvd unat (push_sp sp n)"
    and "unat sp < unat (push_sp sp n) + n + 16"
proof -
  define x where "x = sp - of_nat n"
  have n: "n < 2 ^ 64" using assms unsigned_less [of sp, where 'a = nat] by (simp add: le_less_trans)
  have x: "unat x = unat sp - n" using assms n by (simp add: x_def unat_sub word_le_nat_alt unsigned_of_nat take_bit_nat_eq_self)
  have m: "unat (x mod 16) = unat x mod 16" by (simp add: unat_mod)
  then have "x mod 16 \<le> x" by (simp add: word_le_nat_alt)
  then have r: "unat (push_sp sp n) = unat x - unat x mod 16"
    using m by (simp add: push_sp_def x_def [symmetric] Let_def unat_sub)
  show "unat (push_sp sp n) + n \<le> unat sp" using r x assms by linarith
  show "16 dvd unat (push_sp sp n)" unfolding r by (rule dvd_minus_mod)
  show "unat sp < unat (push_sp sp n) + n + 16"
    using r x assms mod_less_divisor [of 16 "unat x"] by linarith
qed

lemma arg_addrs_fit:
  assumes "unat base + (\<Sum>a \<leftarrow> as. length a + 17) \<le> unat sp" and "argc + length as \<le> MAXARG"
  shows "\<exists>sp' us. arg_addrs base as argc sp = Some (sp', us) \<and> stacked (unat base) (unat sp) as us"
  using assms
proof (induction as arbitrary: argc sp)
  case (Cons a as)
  let ?u = "push_sp sp (length a + 1)"
  have l: "length a + 1 \<le> unat sp" using Cons.prems(1) by simp
  note u = push_sp_le [OF l]
  have r: "unat base + (\<Sum>a \<leftarrow> as. length a + 17) \<le> unat ?u" using Cons.prems(1) u(3) by simp
  then obtain sp' us where "arg_addrs base as (argc + 1) ?u = Some (sp', us)" "stacked (unat base) (unat ?u) as us"
    using Cons.IH [of ?u "argc + 1"] Cons.prems(2) by auto
  moreover have "\<not> ?u < base" using r by (simp add: word_less_nat_alt)
  ultimately show ?case using Cons.prems(2) u(1,2) r by (simp add: Let_def)
qed simp



end
