(* ===== verification/Shell.thy ===== *)
theory Shell
  imports Prelude
begin

text \<open>
  The parser of the shell (\<open>user/sh.c\<close>, from \<open>gettoken\<close> to \<open>parseexec\<close>). The text that is left
  is the list of its bytes up to the end \<open>es\<close>; a token is the bytes from \<open>q\<close> to \<open>eq\<close>, which
  \<open>nulterminate\<close> makes strings of when the parse is over. The recursive procedures take fuel;
  the properties: what is printed is read back, and the fuel of \<open>parsecmd\<close> is always enough.
\<close>

section \<open>Tokens\<close>

definition white :: "u8 \<Rightarrow> bool" where
  "white c \<longleftrightarrow> c = 32 \<or> c = 9 \<or> c = 13 \<or> c = 10 \<or> c = 11"

abbreviation LT :: u8 where "LT \<equiv> 60"
abbreviation GT :: u8 where "GT \<equiv> 62"
abbreviation BAR :: u8 where "BAR \<equiv> 124"
abbreviation AMP :: u8 where "AMP \<equiv> 38"
abbreviation SEMI :: u8 where "SEMI \<equiv> 59"
abbreviation LPAR :: u8 where "LPAR \<equiv> 40"
abbreviation RPAR :: u8 where "RPAR \<equiv> 41"
abbreviation TOK_WORD :: u8 where "TOK_WORD \<equiv> 97"
abbreviation TOK_APPEND :: u8 where "TOK_APPEND \<equiv> 43"

definition symbol :: "u8 \<Rightarrow> bool" where
  "symbol c \<longleftrightarrow> c \<in> {LT, BAR, GT, AMP, SEMI, LPAR, RPAR}"

definition word_char :: "u8 \<Rightarrow> bool" where
  "word_char c \<longleftrightarrow> \<not> white c \<and> \<not> symbol c"

definition skip :: "u8 list \<Rightarrow> u8 list" where
  "skip s = dropWhile white s"

text \<open>The kind of the next token, its bytes and the rest of the text.\<close>

definition gettoken :: "u8 list \<Rightarrow> u8 \<times> u8 list \<times> u8 list" where
  "gettoken s = (case skip s of
       [] \<Rightarrow> (0, [], [])
     | c # r \<Rightarrow>
         if c = GT then (case r of
             d # r' \<Rightarrow> if d = GT then (TOK_APPEND, [GT, GT], skip r') else (GT, [GT], skip r)
           | [] \<Rightarrow> (GT, [GT], []))
         else if symbol c then (c, [c], skip r)
         else (TOK_WORD, takeWhile word_char (c # r), skip (dropWhile word_char (c # r))))"

definition peek :: "u8 list \<Rightarrow> u8 list \<Rightarrow> bool \<times> u8 list" where
  "peek toks s = (let s = skip s in (s \<noteq> [] \<and> hd s \<in> set toks, s))"

section \<open>Commands\<close>

datatype cmd =
    Exec "u8 list list"
  | Redir cmd "u8 list" int int    \<comment> \<open>command, file, mode and descriptor\<close>
  | Pipe cmd cmd
  | Lst cmd cmd
  | Back cmd

abbreviation MAXARGS :: nat where "MAXARGS \<equiv> 10"
abbreviation RDONLY :: int where "RDONLY \<equiv> 0"
abbreviation WRONLY_CREATE :: int where "WRONLY_CREATE \<equiv> 0x201"

text \<open>
  \<open>parseexec\<close> keeps a pointer to the \<open>execcmd\<close> inside the redirections it has already been
  wrapped in, and adds arguments there.
\<close>

fun add_arg :: "u8 list \<Rightarrow> cmd \<Rightarrow> cmd" where
  "add_arg q (Exec as) = Exec (as @ [q])"
| "add_arg q (Redir c f m d) = Redir (add_arg q c) f m d"
| "add_arg q c = c"

section \<open>The parser\<close>

lemma length_skip: "length (skip s) \<le> length s"
  by (simp add: skip_def length_dropWhile_le)

lemma gettoken_shorter: "length (snd (snd (gettoken s))) \<le> length s"
proof -
  have "length (skip r) \<le> length s" if "skip s = c # r" for c r
    using length_skip [of r] length_skip [of s] that by simp
  moreover have "length (skip (dropWhile word_char s')) \<le> length s" if "skip s = s'" for s'
    using length_skip [of "dropWhile word_char s'"] length_dropWhile_le [of word_char s'] length_skip [of s] that by simp
  moreover have "length (skip r) \<le> length s" if "skip s = c # d # r" for c d r
    using length_skip [of r] length_skip [of s] that by simp
  ultimately show ?thesis by (auto simp: gettoken_def split: list.splits)
qed

lemma gettoken_consumes:
  assumes "skip s \<noteq> []"
  shows "length (snd (snd (gettoken s))) < length s"
proof -
  obtain c r where s: "skip s = c # r" using assms by (cases "skip s") auto
  then have l: "length r < length s" using length_skip [of s] by simp
  then have "length (skip r) < length s" using length_skip [of r] by simp
  moreover have "length (skip r') < length s" if "r = d # r'" for d r'
    using length_skip [of r'] l that by simp
  moreover have "length (skip (dropWhile word_char (c # r))) < length s" if "\<not> symbol c"
  proof -
    have "\<not> white c" using s by (simp add: skip_def dropWhile_eq_Cons_conv)
    then have "dropWhile word_char (c # r) = dropWhile word_char r" using that by (simp add: word_char_def)
    then show ?thesis
      using length_skip [of "dropWhile word_char r"] length_dropWhile_le [of word_char r] l by simp
  qed
  ultimately show ?thesis using s by (auto simp: gettoken_def split: list.splits)
qed

function parseredirs :: "cmd \<Rightarrow> u8 list \<Rightarrow> (cmd \<times> u8 list) res" where
  "parseredirs c s = (case peek [LT, GT] s of
       (False, s) \<Rightarrow> Inr (c, s)
     | (True, s) \<Rightarrow>
         let (tok, _, s1) = gettoken s; (k, f, s2) = gettoken s1 in
         if k \<noteq> TOK_WORD then Inl (Panic ''missing file for redirection'')
         else parseredirs (if tok = LT then Redir c f RDONLY 0 else Redir c f WRONLY_CREATE 1) s2)"
  by pat_completeness auto
termination
proof (relation "measure (\<lambda>(c, s). length s)", goal_cases)
  case 1
  show ?case by simp
next
  case (2 c s b s' t tok x q s1 y k z f s2)
  then have p: "s' = skip s" "s' \<noteq> []" by (auto simp: peek_def Let_def)
  then have "skip s' = s'" by (cases s') (auto simp: skip_def dropWhile_eq_Cons_conv)
  then have "length s1 < length s'" using gettoken_consumes [of s'] p 2 by (metis snd_conv)
  moreover have "length s2 \<le> length s1" using gettoken_shorter [of s1] 2 by (metis snd_conv)
  moreover have "length s' \<le> length s" using length_skip p by simp
  ultimately show ?case by simp
qed

declare parseredirs.simps [simp del]

function parseargs :: "nat \<Rightarrow> cmd \<Rightarrow> u8 list \<Rightarrow> (cmd \<times> u8 list) res" where
  "parseargs argc c s = (case peek [BAR, RPAR, AMP, SEMI] s of
       (True, s) \<Rightarrow> Inr (c, s)
     | (False, s) \<Rightarrow> let (tok, q, s) = gettoken s in
         if tok = 0 then Inr (c, s)
         else if tok \<noteq> TOK_WORD then Inl (Panic ''syntax'')
         else if argc + 1 \<ge> MAXARGS then Inl (Panic ''too many args'')
         else bindE (parseredirs (add_arg q c) s) (\<lambda>(c, s). parseargs (argc + 1) c s))"
  by pat_completeness auto
termination by (relation "measure (\<lambda>(argc, c, s). MAXARGS - argc)") auto

function parsebacks :: "cmd \<Rightarrow> u8 list \<Rightarrow> cmd \<times> u8 list" where
  "parsebacks c s = (case peek [AMP] s of
       (True, s) \<Rightarrow> parsebacks (Back c) (snd (snd (gettoken s)))
     | (False, s) \<Rightarrow> (c, s))"
  by pat_completeness auto
termination
proof (relation "measure (\<lambda>(c, s). length s)", goal_cases)
  case (2 c s b s')
  then have p: "s' = skip s" "s' \<noteq> []" by (auto simp: peek_def Let_def)
  then have "skip s' = s'" by (cases s') (auto simp: skip_def dropWhile_eq_Cons_conv)
  then have "length (snd (snd (gettoken s'))) < length s'" using gettoken_consumes [of s'] p by simp
  then show ?case using length_skip [of s] p by simp
qed simp

declare parseargs.simps [simp del] parsebacks.simps [simp del]

fun parseline :: "nat \<Rightarrow> u8 list \<Rightarrow> (cmd \<times> u8 list) res"
  and parsepipe :: "nat \<Rightarrow> u8 list \<Rightarrow> (cmd \<times> u8 list) res"
  and parseexec :: "nat \<Rightarrow> u8 list \<Rightarrow> (cmd \<times> u8 list) res"
  and parseblock :: "nat \<Rightarrow> u8 list \<Rightarrow> (cmd \<times> u8 list) res" where
  "parseline 0 s = Inl Blocked"
| "parseline (Suc n) s = bindE (parsepipe n s) (\<lambda>(c, s).
     let (c, s) = parsebacks c s in case peek [SEMI] s of
       (True, s) \<Rightarrow> bindE (parseline n (snd (snd (gettoken s)))) (\<lambda>(d, s). Inr (Lst c d, s))
     | (False, s) \<Rightarrow> Inr (c, s))"
| "parsepipe 0 s = Inl Blocked"
| "parsepipe (Suc n) s = bindE (parseexec n s) (\<lambda>(c, s). case peek [BAR] s of
       (True, s) \<Rightarrow> bindE (parsepipe n (snd (snd (gettoken s)))) (\<lambda>(d, s). Inr (Pipe c d, s))
     | (False, s) \<Rightarrow> Inr (c, s))"
| "parseexec 0 s = Inl Blocked"
| "parseexec (Suc n) s = (case peek [LPAR] s of
       (True, s) \<Rightarrow> parseblock n s
     | (False, s) \<Rightarrow> bindE (parseredirs (Exec []) s) (\<lambda>(c, s). parseargs 0 c s))"
| "parseblock 0 s = Inl Blocked"
| "parseblock (Suc n) s = (case peek [LPAR] s of
       (False, s) \<Rightarrow> Inl (Panic ''parseblock'')
     | (True, s) \<Rightarrow> bindE (parseline n (snd (snd (gettoken s)))) (\<lambda>(c, s). case peek [RPAR] s of
         (False, s) \<Rightarrow> Inl (Panic ''syntax - missing )'')
       | (True, s) \<Rightarrow> parseredirs c (snd (snd (gettoken s)))))"

text \<open>
  \<open>es\<close> is the end of the string. Fuel four per byte, and four for the procedures that are
  entered without consuming one.
\<close>

definition parsecmd :: "u8 list \<Rightarrow> cmd res" where
  "parsecmd s = (let s = takeWhile (\<lambda>c. c \<noteq> 0) s in
     bindE (parseline (4 * length s + 4) s) (\<lambda>(c, s).
       if skip s \<noteq> [] then Inl (Panic ''syntax'') else Inr c))"

section \<open>The fuel is enough\<close>

lemma peek_shorter: "peek toks s = (b, t) \<Longrightarrow> length t \<le> length s"
  using length_skip [of s] by (auto simp: peek_def Let_def)

lemma peek_skips: "peek toks s = (b, t) \<Longrightarrow> skip t = t \<and> (b \<longrightarrow> t \<noteq> [])"
  by (cases "skip s") (auto simp: peek_def Let_def skip_def dropWhile_eq_Cons_conv)

lemma taken_shorter: "peek toks s = (True, t) \<Longrightarrow> length (snd (snd (gettoken t))) < length s"
  using gettoken_consumes [of t] peek_skips [of toks s True t] peek_shorter [of toks s True t] by simp

lemma parseredirs_fuel:
  "parseredirs c s \<noteq> Inl Blocked \<and> (\<forall>d t. parseredirs c s = Inr (d, t) \<longrightarrow> length t \<le> length s)"
proof (induction c s rule: parseredirs.induct)
  case (1 c s)
  show ?case
  proof (cases "peek [LT, GT] s")
    case (Pair b t)
    obtain tok q s1 where g1: "gettoken t = (tok, q, s1)" by (cases "gettoken t")
    obtain k f s2 where g2: "gettoken s1 = (k, f, s2)" by (cases "gettoken s1")
    have l: "length t \<le> length s" "length s1 \<le> length t" "length s2 \<le> length s1"
      using peek_shorter [OF Pair] gettoken_shorter [of t] gettoken_shorter [of s1] g1 g2 by simp_all
    show ?thesis
    proof (cases "b \<and> k = TOK_WORD")
      case True
      let ?d = "if tok = LT then Redir c f RDONLY 0 else Redir c f WRONLY_CREATE 1"
      have "parseredirs ?d s2 \<noteq> Inl Blocked \<and> (\<forall>d t. parseredirs ?d s2 = Inr (d, t) \<longrightarrow> length t \<le> length s2)"
        using 1 [OF Pair [symmetric] _ g1 [symmetric] refl refl g2 [symmetric] refl refl] True by simp
      then show ?thesis using Pair g1 g2 True l by (subst (1 2) parseredirs.simps) (auto simp: Let_def)
    next
      case False
      then show ?thesis using Pair g1 g2 l by (subst (1 2) parseredirs.simps) (auto simp: Let_def split: bool.splits)
    qed
  qed
qed

lemma parseargs_fuel:
  "parseargs a c s \<noteq> Inl Blocked \<and> (\<forall>d t. parseargs a c s = Inr (d, t) \<longrightarrow> length t \<le> length s)"
proof (induction a c s rule: parseargs.induct)
  case (1 a c s)
  show ?case
  proof (cases "peek [BAR, RPAR, AMP, SEMI] s")
    case (Pair b t)
    obtain tok q s1 where g: "gettoken t = (tok, q, s1)" by (cases "gettoken t")
    have l: "length t \<le> length s" "length s1 \<le> length t"
      using peek_shorter [OF Pair] gettoken_shorter [of t] g by simp_all
    show ?thesis
    proof (cases "\<not> b \<and> tok \<noteq> 0 \<and> tok = TOK_WORD \<and> \<not> a + 1 \<ge> MAXARGS")
      case True
      have step: "parseargs a c s = bindE (parseredirs (add_arg q c) s1) (\<lambda>(c, s). parseargs (a + 1) c s)"
        using Pair g True by (subst parseargs.simps) (simp add: Let_def)
      show ?thesis
      proof (cases "parseredirs (add_arg q c) s1")
        case (Inl e)
        then show ?thesis using step parseredirs_fuel [of "add_arg q c" s1] by simp
      next
        case (Inr r)
        obtain d u where r: "r = (d, u)" by (cases r)
        have u: "length u \<le> length s1" using parseredirs_fuel [of "add_arg q c" s1] Inr r by simp
        have ih: "parseargs (a + 1) d u \<noteq> Inl Blocked \<and>
            (\<forall>d' t. parseargs (a + 1) d u = Inr (d', t) \<longrightarrow> length t \<le> length u)"
          using 1 [OF Pair [symmetric] _ g [symmetric] refl refl, of d u] True by simp
        have "parseargs a c s = parseargs (a + 1) d u" using step Inr r by simp
        then show ?thesis using ih u l by (metis le_trans)
      qed
    next
      case False
      then show ?thesis using Pair g l by (subst (1 2) parseargs.simps) (auto simp: Let_def split: bool.splits)
    qed
  qed
qed

lemma parsebacks_shorter: "parsebacks c s = (d, t) \<Longrightarrow> length t \<le> length s"
proof (induction c s rule: parsebacks.induct)
  case (1 c s)
  show ?case
  proof (cases "peek [AMP] s")
    case (Pair b u)
    then show ?thesis
      using 1 peek_shorter [OF Pair] taken_shorter [of "[AMP]" s u] parsebacks.simps [of c s]
      by (cases b) fastforce+
  qed
qed

lemma parse_shorter:
  "(\<forall>c t. parseline n s = Inr (c, t) \<longrightarrow> length t \<le> length s) \<and>
   (\<forall>c t. parsepipe n s = Inr (c, t) \<longrightarrow> length t \<le> length s) \<and>
   (\<forall>c t. parseexec n s = Inr (c, t) \<longrightarrow> length t \<le> length s) \<and>
   (\<forall>c t. parseblock n s = Inr (c, t) \<longrightarrow> length t \<le> length s)"
proof (induction n arbitrary: s)
  case (Suc n)
  have line: "length t \<le> length s" if eq: "parseline (Suc n) s = Inr (c, t)" for c t
  proof -
    obtain c1 s1 where 1: "parsepipe n s = Inr (c1, s1)"
      using eq by (cases "parsepipe n s") auto
    obtain c2 s2 where 2: "parsebacks c1 s1 = (c2, s2)" by (cases "parsebacks c1 s1")
    obtain b s3 where 3: "peek [SEMI] s2 = (b, s3)" by (cases "peek [SEMI] s2")
    have l: "length s1 \<le> length s" "length s2 \<le> length s1" "length s3 \<le> length s2"
      using Suc.IH 1 parsebacks_shorter [OF 2] peek_shorter [OF 3] by blast+
    show ?thesis
    proof (cases b)
      case True
      then obtain d where "parseline n (snd (snd (gettoken s3))) = Inr (d, t)"
        using eq 1 2 3 by (cases "parseline n (snd (snd (gettoken s3)))") auto
      then have "length t \<le> length (snd (snd (gettoken s3)))" using Suc.IH by blast
      then show ?thesis using l gettoken_shorter [of s3] by linarith
    next
      case False
      then show ?thesis using eq 1 2 3 l by simp
    qed
  qed
  have pip: "length t \<le> length s" if eq: "parsepipe (Suc n) s = Inr (c, t)" for c t
  proof -
    obtain c1 s1 where 1: "parseexec n s = Inr (c1, s1)"
      using eq by (cases "parseexec n s") auto
    obtain b s3 where 3: "peek [BAR] s1 = (b, s3)" by (cases "peek [BAR] s1")
    have l: "length s1 \<le> length s" "length s3 \<le> length s1"
      using Suc.IH 1 peek_shorter [OF 3] by blast+
    show ?thesis
    proof (cases b)
      case True
      then obtain d where "parsepipe n (snd (snd (gettoken s3))) = Inr (d, t)"
        using eq 1 3 by (cases "parsepipe n (snd (snd (gettoken s3)))") auto
      then have "length t \<le> length (snd (snd (gettoken s3)))" using Suc.IH by blast
      then show ?thesis using l gettoken_shorter [of s3] by linarith
    next
      case False
      then show ?thesis using eq 1 3 l by simp
    qed
  qed
  have exe: "length t \<le> length s" if eq: "parseexec (Suc n) s = Inr (c, t)" for c t
  proof -
    obtain b u where p: "peek [LPAR] s = (b, u)" by (cases "peek [LPAR] s")
    have l: "length u \<le> length s" by (rule peek_shorter [OF p])
    show ?thesis
    proof (cases b)
      case True
      then have "parseblock n u = Inr (c, t)" using eq p by simp
      then show ?thesis using Suc.IH l by (meson order_trans)
    next
      case False
      then obtain d v where "parseredirs (Exec []) u = Inr (d, v)" "parseargs 0 d v = Inr (c, t)"
        using eq p by (cases "parseredirs (Exec []) u") auto
      then have "length v \<le> length u" "length t \<le> length v"
        using parseredirs_fuel [of "Exec []" u] parseargs_fuel [of 0 d v] by blast+
      then show ?thesis using l by simp
    qed
  qed
  have blk: "length t \<le> length s" if eq: "parseblock (Suc n) s = Inr (c, t)" for c t
  proof -
    obtain b u where p: "peek [LPAR] s = (b, u)" by (cases "peek [LPAR] s")
    have b: "b" using eq p by (cases b) simp_all
    then obtain c1 s1 where 1: "parseline n (snd (snd (gettoken u))) = Inr (c1, s1)"
      using eq p by (cases "parseline n (snd (snd (gettoken u)))") auto
    obtain b' s2 where 2: "peek [RPAR] s1 = (b', s2)" by (cases "peek [RPAR] s1")
    have "b'" using eq p b 1 2 by (cases b') simp_all
    then have "parseredirs c1 (snd (snd (gettoken s2))) = Inr (c, t)" using eq p b 1 2 by simp
    then have "length t \<le> length (snd (snd (gettoken s2)))" using parseredirs_fuel by blast
    moreover have "length s1 \<le> length (snd (snd (gettoken u)))" using Suc.IH 1 by blast
    ultimately show ?thesis
      using peek_shorter [OF p] peek_shorter [OF 2] gettoken_shorter [of s2] gettoken_shorter [of u] by linarith
  qed
  show ?case using line pip exe blk by blast
qed simp

lemma parse_not_blocked:
  "(4 * length s + 4 \<le> n \<longrightarrow> parseline n s \<noteq> Inl Blocked) \<and>
   (4 * length s + 3 \<le> n \<longrightarrow> parsepipe n s \<noteq> Inl Blocked) \<and>
   (4 * length s + 2 \<le> n \<longrightarrow> parseexec n s \<noteq> Inl Blocked) \<and>
   (4 * length s + 1 \<le> n \<longrightarrow> parseblock n s \<noteq> Inl Blocked)"
proof (induction n arbitrary: s)
  case (Suc n)
  have line: "parseline (Suc n) s \<noteq> Inl Blocked" if "4 * length s + 4 \<le> Suc n"
  proof (cases "parsepipe n s")
    case (Inl e)
    then show ?thesis using Suc.IH [of s] that by auto
  next
    case (Inr r)
    obtain c1 s1 where 1: "r = (c1, s1)" by (cases r)
    obtain c2 s2 where 2: "parsebacks c1 s1 = (c2, s2)" by (cases "parsebacks c1 s1")
    obtain b s3 where 3: "peek [SEMI] s2 = (b, s3)" by (cases "peek [SEMI] s2")
    have "length s2 \<le> length s"
      using parse_shorter [of n s] Inr 1 parsebacks_shorter [OF 2] by fastforce
    then have "b \<longrightarrow> parseline n (snd (snd (gettoken s3))) \<noteq> Inl Blocked"
      using Suc.IH [of "snd (snd (gettoken s3))"] that taken_shorter [of "[SEMI]" s2 s3] 3 by auto
    then show ?thesis using Inr 1 2 3
      by (cases b; cases "parseline n (snd (snd (gettoken s3)))") (auto split: prod.splits)
  qed
  have pip: "parsepipe (Suc n) s \<noteq> Inl Blocked" if "4 * length s + 3 \<le> Suc n"
  proof (cases "parseexec n s")
    case (Inl e)
    then show ?thesis using Suc.IH [of s] that by auto
  next
    case (Inr r)
    obtain c1 s1 where 1: "r = (c1, s1)" by (cases r)
    obtain b s3 where 3: "peek [BAR] s1 = (b, s3)" by (cases "peek [BAR] s1")
    have "length s1 \<le> length s" using parse_shorter [of n s] Inr 1 by blast
    then have "b \<longrightarrow> parsepipe n (snd (snd (gettoken s3))) \<noteq> Inl Blocked"
      using Suc.IH [of "snd (snd (gettoken s3))"] that taken_shorter [of "[BAR]" s1 s3] 3 by auto
    then show ?thesis using Inr 1 3
      by (cases b; cases "parsepipe n (snd (snd (gettoken s3)))") (auto split: prod.splits)
  qed
  have exe: "parseexec (Suc n) s \<noteq> Inl Blocked" if "4 * length s + 2 \<le> Suc n"
  proof (cases "peek [LPAR] s")
    case (Pair b u)
    have "parseblock n u \<noteq> Inl Blocked" using Suc.IH [of u] peek_shorter [OF Pair] that by auto
    moreover have "bindE (parseredirs (Exec []) u) (\<lambda>(c, s). parseargs 0 c s) \<noteq> Inl Blocked"
      using parseredirs_fuel [of "Exec []" u] parseargs_fuel
      by (cases "parseredirs (Exec []) u") auto
    ultimately show ?thesis using Pair by (cases b) simp_all
  qed
  have blk: "parseblock (Suc n) s \<noteq> Inl Blocked" if "4 * length s + 1 \<le> Suc n"
  proof (cases "peek [LPAR] s")
    case (Pair b u)
    let ?t = "snd (snd (gettoken u))"
    have "b \<longrightarrow> parseline n ?t \<noteq> Inl Blocked"
      using Suc.IH [of ?t] taken_shorter [of "[LPAR]" s u] Pair that by auto
    then show ?thesis using Pair parseredirs_fuel
      by (cases b; cases "parseline n ?t") (auto split: prod.splits bool.splits)
  qed
  show ?case using line pip exe blk by blast
qed simp

text \<open>
  C23. \<open>parsecmd\<close> returns or reports a syntax error on every text: the recursive procedures, with
  four units of fuel per byte, are never out of it.
\<close>

theorem parsecmd_terminates: "parsecmd s \<noteq> Inl Blocked"
proof -
  define t where "t = takeWhile (\<lambda>c. c \<noteq> 0) s"
  have "parseline (4 * length t + 4) t \<noteq> Inl Blocked"
    using parse_not_blocked [of t "4 * length t + 4"] by simp
  then show ?thesis unfolding parsecmd_def Let_def t_def [symmetric]
    by (cases "parseline (4 * length t + 4) t") (auto split: prod.splits)
qed

section \<open>What is printed is read back\<close>

definition word :: "u8 list \<Rightarrow> bool" where
  "word w \<longleftrightarrow> w \<noteq> [] \<and> list_all (\<lambda>c. word_char c \<and> c \<noteq> 0) w"

text \<open>Commands as the grammar of the shell has them.\<close>

fun wf_cmd :: "cmd \<Rightarrow> bool" where
  "wf_cmd (Exec ws) \<longleftrightarrow> length ws < MAXARGS \<and> list_all word ws"
| "wf_cmd (Redir c f m d) \<longleftrightarrow> wf_cmd c \<and> word f \<and> (m = RDONLY \<and> d = 0 \<or> m = WRONLY_CREATE \<and> d = 1)"
| "wf_cmd (Pipe c d) \<longleftrightarrow> wf_cmd c \<and> wf_cmd d"
| "wf_cmd (Lst c d) \<longleftrightarrow> wf_cmd c \<and> wf_cmd d"
| "wf_cmd (Back c) \<longleftrightarrow> wf_cmd c"

definition show_words :: "u8 list list \<Rightarrow> u8 list" where
  "show_words ws = concat (map (\<lambda>w. w @ [32]) ws)"

definition show_redir :: "u8 list \<Rightarrow> int \<Rightarrow> u8 list" where
  "show_redir f d = (if d = 0 then LT else GT) # f @ [32]"

definition block :: "bool \<Rightarrow> u8 list \<Rightarrow> u8 list" where
  "block b t = (if b then LPAR # t @ [RPAR, 32] else t)"

text \<open>
  The levels: 0 is what \<open>parseline\<close> reads, 1 what it reads before a semicolon, 2 is for
  \<open>parsepipe\<close> and 3 for \<open>parseexec\<close>; a command of a lower level stands in parentheses.
\<close>

fun show_cmd :: "nat \<Rightarrow> cmd \<Rightarrow> u8 list" where
  "show_cmd p (Exec ws) = show_words ws"
| "show_cmd p (Redir c f m d) = show_cmd 3 c @ show_redir f d"
| "show_cmd p (Pipe c d) = block (p > 2) (show_cmd 3 c @ BAR # 32 # show_cmd 2 d)"
| "show_cmd p (Back c) = block (p > 1) (show_cmd 1 c @ [AMP, 32])"
| "show_cmd p (Lst c d) = block (p > 0) (show_cmd 1 c @ SEMI # 32 # show_cmd 0 d)"

lemma skip_white [simp]: "white c \<Longrightarrow> skip (c # s) = skip s"
  and skip_other [simp]: "\<not> white c \<Longrightarrow> skip (c # s) = c # s"
  and skip_Nil [simp]: "skip [] = []"
  by (simp_all add: skip_def)

lemma white_space [simp]: "white 32" "\<not> white LT" "\<not> white GT" "\<not> white BAR" "\<not> white AMP"
    "\<not> white SEMI" "\<not> white LPAR" "\<not> white RPAR"
  by (simp_all add: white_def)

lemma word_cases:
  assumes "word w"
  obtains c v where "w = c # v" "word_char c" "list_all word_char v"
  using assms by (cases w) (auto simp: word_def list_all_iff)

lemma skip_word [simp]: "word w \<Longrightarrow> skip (w @ s) = w @ s"
  by (erule word_cases) (simp add: word_char_def)

lemma skip_show_words: "list_all word ws \<Longrightarrow> skip s = s \<Longrightarrow> skip (show_words ws @ s) = show_words ws @ s"
  by (cases ws) (simp_all add: show_words_def)

lemma skip_show_cmd: "wf_cmd c \<Longrightarrow> skip s = s \<Longrightarrow> skip (show_cmd p c @ s) = show_cmd p c @ s"
  by (induction c arbitrary: p s) (simp_all add: skip_show_words show_redir_def block_def)

lemma gettoken_word:
  assumes "word w" "skip s = s"
  shows "gettoken (w @ 32 # s) = (TOK_WORD, w, s)"
proof -
  obtain c v where w: "w = c # v" "word_char c" "list_all word_char v" by (rule word_cases [OF assms(1)])
  have n: "\<not> word_char 32" by (simp add: word_char_def)
  have "takeWhile word_char (w @ 32 # s) = w" "dropWhile word_char (w @ 32 # s) = 32 # s"
    using w n by (auto simp: list_all_iff takeWhile_append dropWhile_append)
  moreover have "c \<noteq> GT" "\<not> symbol c" "\<not> white c" using w by (auto simp: word_char_def symbol_def)
  ultimately show ?thesis using w(1) assms(2) by (simp add: gettoken_def)
qed

lemma gettoken_symbol:
  assumes "symbol c" "c \<noteq> GT"
  shows "gettoken (c # s) = (c, [c], skip s)"
  using assms by (auto simp: gettoken_def symbol_def)

lemma gettoken_redir:
  assumes "word f" "skip s = s"
  shows "gettoken (show_redir f d @ s) = (if d = 0 then LT else GT, [if d = 0 then LT else GT], f @ 32 # s)"
proof -
  obtain c v where w: "f = c # v" "word_char c" by (rule word_cases [OF assms(1)])
  then have "c \<noteq> GT" by (auto simp: word_char_def symbol_def)
  then show ?thesis using assms w
    by (auto simp: show_redir_def gettoken_def symbol_def word_char_def)
qed

definition wf_redir :: "u8 list \<times> int \<times> int \<Rightarrow> bool" where
  "wf_redir = (\<lambda>(f, m, d). word f \<and> (m = RDONLY \<and> d = 0 \<or> m = WRONLY_CREATE \<and> d = 1))"

definition show_redirs :: "(u8 list \<times> int \<times> int) list \<Rightarrow> u8 list" where
  "show_redirs rs = concat (map (\<lambda>(f, m, d). show_redir f d) rs)"

definition redirected :: "cmd \<Rightarrow> (u8 list \<times> int \<times> int) list \<Rightarrow> cmd" where
  "redirected c rs = foldl (\<lambda>c (f, m, d). Redir c f m d) c rs"

definition follows :: "u8 list \<Rightarrow> u8 list \<Rightarrow> bool" where
  "follows toks s \<longleftrightarrow> s = [] \<or> skip s = s \<and> hd s \<in> set toks"

lemma follows_skip: "follows toks s \<Longrightarrow> skip s = s"
  by (auto simp: follows_def)

lemma peek_skipped: "skip s = s \<Longrightarrow> peek toks s = (s \<noteq> [] \<and> hd s \<in> set toks, s)"
  by (simp add: peek_def)

lemma skip_show_redirs: "list_all wf_redir rs \<Longrightarrow> skip s = s \<Longrightarrow> skip (show_redirs rs @ s) = show_redirs rs @ s"
  by (cases rs) (auto simp: show_redirs_def show_redir_def)

lemma parseredirs_none:
  "skip s = s \<Longrightarrow> s = [] \<or> hd s \<noteq> LT \<and> hd s \<noteq> GT \<Longrightarrow> parseredirs c s = Inr (c, s)"
  by (subst parseredirs.simps) (auto simp: peek_skipped)

lemma parseredirs_show:
  assumes "list_all wf_redir rs" "skip s = s" "s = [] \<or> hd s \<noteq> LT \<and> hd s \<noteq> GT"
  shows "parseredirs c (show_redirs rs @ s) = Inr (redirected c rs, s)"
  using assms(1)
proof (induction rs arbitrary: c)
  case Nil
  then show ?case using parseredirs_none [OF assms(2,3)] by (simp add: show_redirs_def redirected_def)
next
  case (Cons r rs)
  obtain f m d where r: "r = (f, m, d)" by (cases r)
  have f: "word f" "m = RDONLY \<and> d = 0 \<or> m = WRONLY_CREATE \<and> d = 1" "list_all wf_redir rs"
    using Cons.prems r by (auto simp: wf_redir_def)
  let ?s = "show_redirs rs @ s"
  have sk: "skip ?s = ?s" by (rule skip_show_redirs [OF f(3) assms(2)])
  have e: "show_redirs (r # rs) @ s = show_redir f d @ ?s" by (simp add: show_redirs_def r)
  have p: "peek [LT, GT] (show_redir f d @ ?s) = (True, show_redir f d @ ?s)"
    by (simp add: peek_def show_redir_def)
  have "parseredirs c (show_redir f d @ ?s) = parseredirs (Redir c f m d) ?s"
    using f(2) by (subst parseredirs.simps) (auto simp: p gettoken_redir [OF f(1) sk] gettoken_word [OF f(1) sk])
  then show ?case using e Cons.IH [OF f(3)] r by (simp add: redirected_def)
qed

abbreviation stops :: "u8 list" where "stops \<equiv> [BAR, RPAR, AMP, SEMI]"

lemma parseargs_stops: "follows stops s \<Longrightarrow> parseargs k c s = Inr (c, s)"
  by (cases s; subst parseargs.simps) (auto simp: follows_def peek_skipped peek_def gettoken_def)

lemma follows_stops: "follows stops s \<Longrightarrow> s = [] \<or> hd s \<noteq> LT \<and> hd s \<noteq> GT"
  by (auto simp: follows_def)

lemma parseargs_words:
  assumes "list_all wf_redir rs" "follows stops s"
  shows "list_all word (w # ws) \<Longrightarrow> k + length (w # ws) < MAXARGS \<Longrightarrow>
    parseargs k (Exec as) (show_words (w # ws) @ show_redirs rs @ s) = Inr (redirected (Exec (as @ w # ws)) rs, s)"
proof (induction ws arbitrary: k as w)
  case Nil
  let ?s = "show_redirs rs @ s"
  have sk: "skip ?s = ?s" by (rule skip_show_redirs [OF assms(1) follows_skip [OF assms(2)]])
  have w: "word w" "k + 1 < MAXARGS" using Nil by simp_all
  then obtain c v where c: "w = c # v" "word_char c" by (blast elim: word_cases)
  have p: "peek stops (w @ 32 # ?s) = (False, w @ 32 # ?s)"
    using w c by (auto simp: peek_skipped word_char_def symbol_def)
  have "parseargs k (Exec as) (w @ 32 # ?s) = parseargs (k + 1) (redirected (Exec (as @ [w])) rs) s"
    using w(2) by (subst parseargs.simps)
      (simp add: p gettoken_word [OF w(1) sk] parseredirs_show [OF assms(1) follows_skip [OF assms(2)] follows_stops [OF assms(2)]])
  then show ?case using parseargs_stops [OF assms(2)] by (simp add: show_words_def)
next
  case (Cons v ws)
  let ?s = "show_words (v # ws) @ show_redirs rs @ s"
  have sk: "skip ?s = ?s"
    using Cons.prems by (intro skip_show_words skip_show_redirs assms(1) follows_skip [OF assms(2)]) simp
  have w: "word w" "word v" "k + 1 < MAXARGS" using Cons.prems by simp_all
  obtain c u where c: "w = c # u" "word_char c" using w(1) by (blast elim: word_cases)
  obtain c' u' where c': "v = c' # u'" "word_char c'" using w(2) by (blast elim: word_cases)
  have p: "peek stops (w @ 32 # ?s) = (False, w @ 32 # ?s)"
    using w c by (auto simp: peek_skipped word_char_def symbol_def)
  have r: "parseredirs (Exec (as @ [w])) ?s = Inr (Exec (as @ [w]), ?s)"
    using sk c' by (intro parseredirs_none) (auto simp: show_words_def word_char_def symbol_def)
  have "parseargs k (Exec as) (w @ 32 # ?s) = parseargs (k + 1) (Exec (as @ [w])) ?s"
    using w(3) by (subst parseargs.simps) (simp add: p gettoken_word [OF w(1) sk] r)
  then show ?case using Cons.IH [of v "k + 1" "as @ [w]"] Cons.prems by (simp add: show_words_def)
qed

text \<open>What each procedure makes of the text printed at its level.\<close>

abbreviation ends :: "u8 list" where "ends \<equiv> [RPAR, AMP, SEMI]"

definition reads_exec :: "cmd \<Rightarrow> bool" where
  "reads_exec c \<longleftrightarrow> (\<forall>rs s n. list_all wf_redir rs \<and> follows stops s \<and>
     4 * length (show_cmd 3 c @ show_redirs rs @ s) + 2 \<le> n \<longrightarrow>
     parseexec n (show_cmd 3 c @ show_redirs rs @ s) = Inr (redirected c rs, s))"

definition reads_pipe :: "cmd \<Rightarrow> bool" where
  "reads_pipe c \<longleftrightarrow> (\<forall>s n. follows ends s \<and> 4 * length (show_cmd 2 c @ s) + 3 \<le> n \<longrightarrow>
     parsepipe n (show_cmd 2 c @ s) = Inr (c, s))"

definition reads_backs :: "cmd \<Rightarrow> bool" where
  "reads_backs c \<longleftrightarrow> (\<forall>s n. follows ends s \<and> 4 * length (show_cmd 1 c @ s) + 3 \<le> n \<longrightarrow>
     (\<exists>c' s'. parsepipe n (show_cmd 1 c @ s) = Inr (c', s') \<and> parsebacks c' s' = parsebacks c s))"

definition reads_line :: "cmd \<Rightarrow> bool" where
  "reads_line c \<longleftrightarrow> (\<forall>s n. follows [RPAR] s \<and> 4 * length (show_cmd 0 c @ s) + 4 \<le> n \<longrightarrow>
     parseline n (show_cmd 0 c @ s) = Inr (c, s))"

lemma reads_execD:
  "reads_exec c \<Longrightarrow> follows stops s \<Longrightarrow> 4 * length (show_cmd 3 c @ s) + 2 \<le> n \<Longrightarrow>
    parseexec n (show_cmd 3 c @ s) = Inr (c, s)"
  unfolding reads_exec_def
  by (elim allE [of _ "[]"] allE [of _ s] allE [of _ n]) (simp add: show_redirs_def redirected_def)

lemma reads_backsE:
  assumes "reads_backs c" "follows ends s" "4 * length (show_cmd 1 c @ s) + 3 \<le> n"
  obtains c' s' where "parsepipe n (show_cmd 1 c @ s) = Inr (c', s')" "parsebacks c' s' = parsebacks c s"
  using assms unfolding reads_backs_def by blast

lemma peek_follows: "follows toks s \<Longrightarrow> set toks \<inter> set others = {} \<Longrightarrow> peek others s = (False, s)"
  by (auto simp: follows_def peek_skipped peek_def)

lemma reads_pipe_exec:
  assumes "reads_exec c" "show_cmd 2 c = show_cmd 3 c"
  shows "reads_pipe c"
  unfolding reads_pipe_def
proof (intro allI impI, elim conjE)
  fix s n assume f: "follows ends s" and n: "4 * length (show_cmd 2 c @ s) + 3 \<le> n"
  obtain m where m: "n = Suc m" using n by (cases n) auto
  have "follows stops s" using f by (auto simp: follows_def)
  then have "parseexec m (show_cmd 3 c @ s) = Inr (c, s)"
    using reads_execD [OF assms(1)] n m by (simp add: assms(2))
  then show "parsepipe n (show_cmd 2 c @ s) = Inr (c, s)"
    using peek_follows [OF f, of "[BAR]"] by (simp add: m assms(2))
qed

lemma reads_backs_pipe: "reads_pipe c \<Longrightarrow> show_cmd 1 c = show_cmd 2 c \<Longrightarrow> reads_backs c"
  unfolding reads_pipe_def reads_backs_def by metis

lemma reads_line_backs:
  assumes "reads_backs c" "show_cmd 0 c = show_cmd 1 c"
  shows "reads_line c"
  unfolding reads_line_def
proof (intro allI impI, elim conjE)
  fix s n assume f: "follows [RPAR] s" and n: "4 * length (show_cmd 0 c @ s) + 4 \<le> n"
  obtain m where m: "n = Suc m" using n by (cases n) auto
  have "follows ends s" using f by (auto simp: follows_def)
  moreover have "4 * length (show_cmd 1 c @ s) + 3 \<le> m" using n by (simp add: m assms(2))
  ultimately obtain c' s' where "parsepipe m (show_cmd 1 c @ s) = Inr (c', s')" "parsebacks c' s' = parsebacks c s"
    by (rule reads_backsE [OF assms(1)])
  moreover have "parsebacks c s = (c, s)"
    using peek_follows [OF f, of "[AMP]"] by (subst parsebacks.simps) simp
  ultimately show "parseline n (show_cmd 0 c @ s) = Inr (c, s)"
    using peek_follows [OF f, of "[SEMI]"] by (simp add: m assms(2))
qed

lemma reads_exec_block:
  assumes "reads_line c" "wf_cmd c" "show_cmd 3 c = LPAR # show_cmd 0 c @ [RPAR, 32]"
  shows "reads_exec c"
  unfolding reads_exec_def
proof (intro allI impI, elim conjE)
  fix rs s n assume r: "list_all wf_redir rs" and f: "follows stops s"
    and n: "4 * length (show_cmd 3 c @ show_redirs rs @ s) + 2 \<le> n"
  obtain m where m: "n = Suc (Suc m)" using n by (cases n; cases "n - 1") auto
  let ?s = "RPAR # 32 # show_redirs rs @ s"
  let ?t = "show_cmd 0 c @ ?s"
  have sk: "skip ?t = ?t" "skip (show_redirs rs @ s) = show_redirs rs @ s"
    by (simp_all add: skip_show_cmd [OF assms(2)] skip_show_redirs [OF r follows_skip [OF f]])
  have t: "show_cmd 3 c @ show_redirs rs @ s = LPAR # ?t" by (simp add: assms(3))
  have "follows [RPAR] ?s" by (simp add: follows_def)
  moreover have "4 * length ?t + 4 \<le> m" using n m unfolding t by simp
  ultimately have l: "parseline m ?t = Inr (c, ?s)" using assms(1) unfolding reads_line_def by blast
  have p: "peek [LPAR] (LPAR # ?t) = (True, LPAR # ?t)" "peek [RPAR] ?s = (True, ?s)"
    by (simp_all add: peek_skipped)
  have g: "gettoken (LPAR # ?t) = (LPAR, [LPAR], ?t)" "gettoken ?s = (RPAR, [RPAR], show_redirs rs @ s)"
    using gettoken_symbol [of LPAR ?t] gettoken_symbol [of RPAR "32 # show_redirs rs @ s"] sk
    by (simp_all add: symbol_def)
  show "parseexec n (show_cmd 3 c @ show_redirs rs @ s) = Inr (redirected c rs, s)"
    unfolding t m using l p g parseredirs_show [OF r follows_skip [OF f] follows_stops [OF f], of c] by simp
qed

lemma reads_exec_Exec:
  assumes "wf_cmd (Exec ws)"
  shows "reads_exec (Exec ws)"
  unfolding reads_exec_def
proof (intro allI impI, elim conjE)
  fix rs s n assume r: "list_all wf_redir rs" and f: "follows stops s"
    and n: "4 * length (show_cmd 3 (Exec ws) @ show_redirs rs @ s) + 2 \<le> n"
  obtain m where m: "n = Suc m" using n by (cases n) auto
  let ?t = "show_redirs rs @ s"
  have sk: "skip ?t = ?t" by (rule skip_show_redirs [OF r follows_skip [OF f]])
  have pr: "parseredirs (Exec []) ?t = Inr (redirected (Exec []) rs, s)"
    by (rule parseredirs_show [OF r follows_skip [OF f] follows_stops [OF f]])
  show "parseexec n (show_cmd 3 (Exec ws) @ ?t) = Inr (redirected (Exec ws) rs, s)"
  proof (cases ws)
    case Nil
    have "?t = [] \<or> hd ?t \<noteq> LPAR"
      using f by (cases rs) (auto simp: show_redirs_def show_redir_def follows_def split: if_splits)
    then have "peek [LPAR] ?t = (False, ?t)" using sk by (auto simp: peek_skipped)
    then show ?thesis using pr parseargs_stops [OF f] by (simp add: Nil m show_words_def)
  next
    case (Cons w vs)
    let ?w = "show_words (w # vs) @ ?t"
    have wf: "list_all word (w # vs)" "length (w # vs) < MAXARGS" using assms Cons by simp_all
    then obtain c v where w: "w = c # v" "word_char c" by (auto elim: word_cases)
    have k: "skip ?w = ?w" by (rule skip_show_words [OF wf(1) sk])
    have h: "hd ?w = c" "?w \<noteq> []" using w by (simp_all add: show_words_def)
    have c: "c \<noteq> LPAR" "c \<noteq> LT" "c \<noteq> GT" using w by (auto simp: word_char_def symbol_def)
    have "peek [LPAR] ?w = (False, ?w)" using c h(1) by (simp add: peek_skipped [OF k])
    moreover have "parseredirs (Exec []) ?w = Inr (Exec [], ?w)"
      using c h(1) by (intro parseredirs_none k) simp
    moreover have "parseargs 0 (Exec []) ?w = Inr (redirected (Exec (w # vs)) rs, s)"
      using parseargs_words [OF r f wf(1), of 0 "[]"] wf(2) by simp
    ultimately show ?thesis by (simp add: Cons m)
  qed
qed

lemma reads_pipe_Pipe:
  assumes "reads_exec c" "reads_pipe d" "wf_cmd d"
  shows "reads_pipe (Pipe c d)"
  unfolding reads_pipe_def
proof (intro allI impI, elim conjE)
  fix s n assume f: "follows ends s" and n: "4 * length (show_cmd 2 (Pipe c d) @ s) + 3 \<le> n"
  obtain m where m: "n = Suc m" using n by (cases n) auto
  let ?t = "show_cmd 2 d @ s"
  let ?u = "BAR # 32 # ?t"
  have e: "show_cmd 2 (Pipe c d) @ s = show_cmd 3 c @ ?u" by (simp add: block_def)
  have "parseexec m (show_cmd 3 c @ ?u) = Inr (c, ?u)"
    using n unfolding m e by (intro reads_execD [OF assms(1)]) (simp_all add: follows_def)
  moreover have "parsepipe m ?t = Inr (d, s)"
    using assms(2) f n unfolding reads_pipe_def m e by auto
  moreover have "gettoken ?u = (BAR, [BAR], ?t)"
    using gettoken_symbol [of BAR "32 # ?t"] skip_show_cmd [OF assms(3) follows_skip [OF f]]
    by (simp add: symbol_def)
  ultimately show "parsepipe n (show_cmd 2 (Pipe c d) @ s) = Inr (Pipe c d, s)"
    unfolding e m by (simp add: peek_skipped)
qed

lemma reads_backs_Back:
  assumes "reads_backs c"
  shows "reads_backs (Back c)"
  unfolding reads_backs_def
proof (intro allI impI, elim conjE)
  fix s n assume f: "follows ends s" and n: "4 * length (show_cmd 1 (Back c) @ s) + 3 \<le> n"
  let ?u = "AMP # 32 # s"
  have e: "show_cmd 1 (Back c) @ s = show_cmd 1 c @ ?u" by (simp add: block_def)
  have "follows ends ?u" by (simp add: follows_def)
  then obtain c' s' where *: "parsepipe n (show_cmd 1 c @ ?u) = Inr (c', s')" "parsebacks c' s' = parsebacks c ?u"
    using assms n unfolding reads_backs_def e by blast
  have "parsebacks c ?u = parsebacks (Back c) s"
    using gettoken_symbol [of AMP "32 # s"] follows_skip [OF f]
    by (subst parsebacks.simps) (simp add: peek_skipped symbol_def)
  then show "\<exists>c' s'. parsepipe n (show_cmd 1 (Back c) @ s) = Inr (c', s') \<and> parsebacks c' s' = parsebacks (Back c) s"
    using * unfolding e by auto
qed

lemma reads_line_Lst:
  assumes "reads_backs c" "reads_line d" "wf_cmd d"
  shows "reads_line (Lst c d)"
  unfolding reads_line_def
proof (intro allI impI, elim conjE)
  fix s n assume f: "follows [RPAR] s" and n: "4 * length (show_cmd 0 (Lst c d) @ s) + 4 \<le> n"
  obtain m where m: "n = Suc m" using n by (cases n) auto
  let ?t = "show_cmd 0 d @ s"
  let ?u = "SEMI # 32 # ?t"
  have e: "show_cmd 0 (Lst c d) @ s = show_cmd 1 c @ ?u" by (simp add: block_def)
  have "follows ends ?u" "4 * length (show_cmd 1 c @ ?u) + 3 \<le> m"
    using n unfolding e m by (simp_all add: follows_def)
  then obtain c' s' where *: "parsepipe m (show_cmd 1 c @ ?u) = Inr (c', s')" "parsebacks c' s' = parsebacks c ?u"
    using assms(1) unfolding reads_backs_def by blast
  have "parsebacks c ?u = (c, ?u)" by (subst parsebacks.simps) (simp add: peek_skipped)
  moreover have "parseline m ?t = Inr (d, s)"
    using assms(2) f n unfolding reads_line_def m e by auto
  moreover have "gettoken ?u = (SEMI, [SEMI], ?t)"
    using gettoken_symbol [of SEMI "32 # ?t"] skip_show_cmd [OF assms(3) follows_skip [OF f]]
    by (simp add: symbol_def)
  ultimately show "parseline n (show_cmd 0 (Lst c d) @ s) = Inr (Lst c d, s)"
    unfolding e m using * by (simp add: peek_skipped)
qed

lemma reads_exec_Redir:
  assumes "reads_exec c" "wf_cmd (Redir c f m d)"
  shows "reads_exec (Redir c f m d)"
  unfolding reads_exec_def
proof (intro allI impI, elim conjE)
  fix rs s n assume r: "list_all wf_redir rs" and fo: "follows stops s"
    and n: "4 * length (show_cmd 3 (Redir c f m d) @ show_redirs rs @ s) + 2 \<le> n"
  have e: "show_cmd 3 (Redir c f m d) @ show_redirs rs @ s = show_cmd 3 c @ show_redirs ((f, m, d) # rs) @ s"
    by (simp add: show_redirs_def)
  have "list_all wf_redir ((f, m, d) # rs)" using assms(2) r by (simp add: wf_redir_def)
  then have "parseexec n (show_cmd 3 c @ show_redirs ((f, m, d) # rs) @ s) = Inr (redirected c ((f, m, d) # rs), s)"
    using assms(1) fo n unfolding reads_exec_def e by blast
  then show "parseexec n (show_cmd 3 (Redir c f m d) @ show_redirs rs @ s) = Inr (redirected (Redir c f m d) rs, s)"
    unfolding e by (simp add: redirected_def)
qed

lemma reads_all: "wf_cmd c \<Longrightarrow> reads_exec c \<and> reads_pipe c \<and> reads_backs c \<and> reads_line c"
proof (induction c)
  case (Exec ws)
  then show ?case using reads_exec_Exec reads_pipe_exec reads_backs_pipe reads_line_backs by fastforce
next
  case (Redir c f m d)
  then show ?case using reads_exec_Redir reads_pipe_exec reads_backs_pipe reads_line_backs by fastforce
next
  case (Pipe c d)
  then have p: "reads_pipe (Pipe c d)" using reads_pipe_Pipe by simp
  then have b: "reads_backs (Pipe c d)" by (rule reads_backs_pipe) (simp add: block_def)
  then have l: "reads_line (Pipe c d)" by (rule reads_line_backs) (simp add: block_def)
  then have "reads_exec (Pipe c d)" by (rule reads_exec_block) (use Pipe.prems in \<open>simp_all add: block_def\<close>)
  then show ?case using p b l by simp
next
  case (Lst c d)
  then have l: "reads_line (Lst c d)" using reads_line_Lst by simp
  then have e: "reads_exec (Lst c d)" by (rule reads_exec_block) (use Lst.prems in \<open>simp_all add: block_def\<close>)
  then have p: "reads_pipe (Lst c d)" by (rule reads_pipe_exec) (simp add: block_def)
  then have "reads_backs (Lst c d)" by (rule reads_backs_pipe) (simp add: block_def)
  then show ?case using e p l by simp
next
  case (Back c)
  then have b: "reads_backs (Back c)" using reads_backs_Back by simp
  then have l: "reads_line (Back c)" by (rule reads_line_backs) (simp add: block_def)
  then have e: "reads_exec (Back c)" by (rule reads_exec_block) (use Back.prems in \<open>simp_all add: block_def\<close>)
  then have "reads_pipe (Back c)" by (rule reads_pipe_exec) (simp add: block_def)
  then show ?case using e b l by simp
qed

lemma show_no_nul: "wf_cmd c \<Longrightarrow> list_all (\<lambda>x. x \<noteq> 0) (show_cmd p c)"
proof -
  have w: "list_all (\<lambda>x. x \<noteq> 0) w" if "word w" for w using that by (auto simp: word_def list_all_iff)
  then have "list_all word ws \<Longrightarrow> list_all (\<lambda>x. x \<noteq> 0) (show_words ws)" for ws
    by (induction ws) (auto simp: show_words_def)
  then show "wf_cmd c \<Longrightarrow> list_all (\<lambda>x. x \<noteq> 0) (show_cmd p c)"
    by (induction c arbitrary: p) (auto simp: show_redir_def block_def w)
qed

text \<open>
  C22. The shell reads back what is printed: a command of the grammar, with its words, redirections,
  pipes, lists, background commands and parentheses, is what \<open>parsecmd\<close> makes of its text.
\<close>

theorem parsecmd_show:
  assumes "wf_cmd c"
  shows "parsecmd (show_cmd 0 c) = Inr c"
proof -
  have t: "takeWhile (\<lambda>x. x \<noteq> 0) (show_cmd 0 c) = show_cmd 0 c"
    using show_no_nul [OF assms, of 0] by (simp add: list_all_iff)
  have "parseline (4 * length (show_cmd 0 c @ []) + 4) (show_cmd 0 c @ []) = Inr (c, [])"
    using reads_all [OF assms] unfolding reads_line_def by (blast intro: follows_def [THEN iffD2] order_refl)
  then show ?thesis unfolding parsecmd_def t by (simp add: Let_def)
qed

theorem parsecmd_show_witness:
  "parsecmd (show_cmd 0 (Lst (Back (Exec [[97]])) (Pipe (Exec [[98], [99]]) (Redir (Exec [[100]]) [101] 0x201 1)))) =
     Inr (Lst (Back (Exec [[97]])) (Pipe (Exec [[98], [99]]) (Redir (Exec [[100]]) [101] 0x201 1)))"
  by (rule parsecmd_show) (simp add: word_def word_char_def white_def symbol_def)

end
