(* ===== verification/Spec2Isabelle.thy ===== *)
theory Spec2Isabelle
  imports Decisions HandlerBuf PtbList KString Grep Printf Console Log Ptdup Vm SysFile Exec Shell
begin

text \<open>
  Ev6 is a teaching kernel (xv6 for RISC-V) extended with recovery from memory errors: every
  kernel object is registered in a list (the M-List), a non-maskable interrupt reports the address
  of an uncorrectable error, the object that contains it is found and repaired or replaced by
  a recovery handler, and the interrupted work is redone, returned from or given up. This
  development models the C code under \<open>src/kernel\<close> and parts of \<open>src/user\<close>.

  \<^bold>\<open>Theories, in the order of their imports.\<close>
  \<^item> \<open>Prelude\<close>: results (\<open>'a res\<close>: a value, or \<open>Panic\<close>, \<open>Trap\<close>, \<open>Blocked\<close>), the sequencing
    \<open>bindE\<close>, loops \<open>foldE\<close>, first-match search, constants of \<open>param.h\<close>.
  \<^item> \<open>Spinlock\<close> (\<open>spinlock.c\<close>), \<open>Sched\<close> (\<open>proc.c\<close>: sleep, wakeup, kill, yield, the scheduler
    step; \<open>sleeplock.c\<close>): a machine of processes, CPUs and locks as a record.
  \<^item> \<open>RecoveryLocking\<close> and \<open>Sections\<close> (\<open>recovery_locking.c\<close>): recovery-critical sections,
    their history and the recovery locks; \<open>Sections\<close> holds their properties.
  \<^item> \<open>Trans\<close> (\<open>trans.c\<close>): the transactions on log header, page tables and runs.
  \<^item> \<open>Kalloc\<close>, \<open>MList\<close>, \<open>Allocator\<close> (\<open>kalloc.c\<close>, \<open>mlist.c\<close>): memory as a map from addresses
    to words, the free list and the object lists threaded through it.
  \<^item> \<open>Nmi\<close> (\<open>nmi_handle.c\<close>, \<open>ret_and_search_nmiqueue\<close>): the queue of errors as a transition
    system of followers and of the recovering process.
  \<^item> \<open>Policy\<close>, \<open>Tracker\<close>, \<open>Decisions\<close> (\<open>func_pointer.c\<close>, \<open>kerneltrapret.c\<close>, the recovery
    handlers, \<open>mlist_tracker.c\<close>): what each handler decides from the stack of the interrupted
    process, and what the tracker does with the answer.
  \<^item> \<open>PteBits\<close>, \<open>Ptdup\<close> (\<open>riscv.h\<close>, \<open>ptdup.h\<close>, \<open>ptdup.c\<close>, \<open>uvmalloc\<close> of \<open>vm.c\<close>,
    \<open>reconst_from_PTDS\<close> and \<open>reconst_from_PTED\<close>): packed 64-bit entries, the duplicates
    of page tables, and the reconstruction of a leaf table from them.
  \<^item> \<open>PtbList\<close> (\<open>mlist_pagetable.c\<close>): the list of page tables and the search in it. \<open>Vm\<close> (\<open>vm.c\<close>):
    walking, mapping and unmapping, the growth of a process with the runs it records, and the
    copies between kernel and user.
  \<^item> \<open>Log\<close> (\<open>log.c\<close>): the redo log; a block is its contents in the cache or on disk.
  \<^item> \<open>DRing\<close>, \<open>Bio\<close>, \<open>HandlerBuf\<close> (\<open>bio.c\<close>, \<open>recovery_handler_buf.c\<close>): the ring of buffers, and
    the replacement of a broken buffer in it.
  \<^item> \<open>FsBlocks\<close>, \<open>FsContent\<close>, \<open>FsInodes\<close>, \<open>FsDirs\<close> (\<open>fs.c\<close>): bitmap, inodes on disk and in the
    cache, the bytes of a file, directories and paths.
  \<^item> \<open>Frames\<close>: what sections and sleep locks leave alone. \<open>FileTable\<close>, \<open>SysFile\<close> (\<open>file.c\<close>,
    \<open>pipealloc\<close>, \<open>syscall.c\<close>, \<open>sysfile.c\<close>): open files, the arguments of system calls, and the
    system calls on files, with every section they enter and leave.
  \<^item> \<open>Process\<close>, \<open>ForkFiles\<close> (\<open>proc.c\<close>, \<open>sysproc.c\<close>): the table of processes, fork, exit and wait
    on a state that has all components; \<open>ForkFiles\<close> holds what fork and exit do to open files. \<open>Exec\<close> (\<open>exec.c\<close>): the loading of programs.
  \<^item> \<open>Ring\<close>, \<open>Pipe\<close>, \<open>Console\<close> (\<open>pipe.c\<close>, \<open>console.c\<close>): ring buffers with 32-bit
    counters; the locale of \<open>Ring\<close> is interpreted for both buffers.
  \<^item> \<open>KString\<close> (\<open>string.c\<close>), \<open>Printf\<close> (\<open>user/printf.c\<close>, \<open>kernel/printf.c\<close>, \<open>atoi\<close>),
    \<open>Grep\<close> (\<open>user/grep.c\<close>), \<open>Shell\<close> (the parser of \<open>user/sh.c\<close>).

  \<^bold>\<open>Correspondence.\<close> A C structure is a record with the fields the modelled code uses; global
  variables are fields of one state record, which each theory extends for its component. A C
  function is a definition of the same name (\<open>f_enter\<close> for the part of a function up to the
  point where it gives up the CPU or starts to wait, \<open>f_loop\<close>, \<open>f_one\<close> for a loop or its body). Each
  call of \<open>acquire\<close> and \<open>release\<close> is made, so that a lock taken twice is the panic it is in C.
  \<open>Panic\<close> carries the message of \<open>panic\<close>; \<open>Trap\<close> is a memory access the hardware or the
  language does not define; \<open>Blocked\<close> is a wait that cannot end in a sequential run.
  Interleavings are explicit steps where the property is about them (\<open>Nmi\<close>, the sleep and
  wakeup of \<open>Sched\<close>, the calls of \<open>Pipe\<close>, the crash points of \<open>Log\<close>).

  \<^bold>\<open>What the lemmas show.\<close> Locks: ownership, nesting of interrupt disabling, restoring brackets, no
  lost wakeup. Recovery sections: exact bookkeeping, exclusion of others while an object is being
  recovered, and the points where the five-entry history loses a section. Memory: pages are handed
  out once, lists stay well-formed, register and delete are inverse. Errors: the queue delivers
  each result, does not deadlock, and what goes wrong when it is full; the tracker and the handlers agree on
  the set of answers. Page tables: a rebuilt leaf table equals the one that was lost, for the runs
  that \<open>uvmalloc\<close> records as it should. Log: a commit is atomic under crashes. Files: what is
  written is read back, what is linked is found, no inode is cached twice, a read delivers the next
  bytes. Processes: an exit is never missed by the parent, shared files are counted exactly. The shell: what is
  printed is parsed back. Buffers, strings and text:
  refinement of queue, line editor, simultaneous copy, regular language.

  \<^bold>\<open>Bounds and fuel.\<close> Loops over tables run over the table's size; loops over linked lists take
  the fuel named in their definition, and their lemmas show that a well-formed list needs less.
  Loops that may not end are partial functions into \<open>option\<close> (\<open>strlen\<close>, \<open>PTDS_delete\<close>).

  \<^bold>\<open>Not modelled.\<close> Assembly, device drivers, boot code, traps and the system-call table: register-level
  code without logic that could be stated here. The tests (\<open>usertests.c\<close>) and the image builder.
  Also user cooperation (\<open>sysev6.c\<close>) and the copying of objects by the other recovery
  handlers.
\<close>

end
